(* ===== verification/Prelude.thy ===== *)
theory Prelude
  imports Main "HOL-Library.Word" "HOL-Library.Char_ord" "HOL-Library.List_Lexorder"
begin

text \<open>
  What every component of the development shares: the machine integers of the C++ sources, the
  exceptions they throw, the way a \<^verbatim>\<open>std::string\<close> is a sequence of bytes, decimal printing and
  reading (\<^verbatim>\<open>std::format\<close>, \<^verbatim>\<open>std::from_chars\<close>), and the few generic lemmas on lists the component
  proofs use.

  A C++ \<^verbatim>\<open>int\<close> is the type \<open>i32\<close>: 32 bits, ordered and printed as two's complement. It is a type of
  its own because the order of \<open>32 word\<close> is the unsigned one, and the maps of the program that are
  keyed by an owner id iterate in the signed order. Handles are \<^verbatim>\<open>std::uint64_t\<close>, so \<open>64 word\<close>; a
  \<^verbatim>\<open>time_point\<close> is its 64-bit count of nanoseconds.
\<close>

named_theorems model_simps \<open>unfolding rules for the operations of a component\<close>

subsection \<open>Machine integers\<close>

type_synonym byte = "8 word"
type_synonym u8 = "8 word"
type_synonym u16 = "16 word"
type_synonym u32 = "32 word"
type_synonym u64 = "64 word"

datatype i32 = I32 (i32_bits: "32 word")

definition ival :: "i32 \<Rightarrow> int" where
  "ival x = sint (i32_bits x)"

definition i32_of :: "int \<Rightarrow> i32" where
  "i32_of k = I32 (word_of_int k)"

definition INT_MIN :: int where "INT_MIN = - (2 ^ 31)"

definition INT_MAX :: int where "INT_MAX = 2 ^ 31 - 1"

lemma i32_of_ival [simp]: "i32_of (ival x) = x"
  by (simp add: i32_of_def ival_def)

instantiation i32 :: linorder
begin

definition less_eq_i32 :: "i32 \<Rightarrow> i32 \<Rightarrow> bool" where
  "less_eq_i32 x y \<longleftrightarrow> ival x \<le> ival y"

definition less_i32 :: "i32 \<Rightarrow> i32 \<Rightarrow> bool" where
  "less_i32 x y \<longleftrightarrow> ival x < ival y"

instance
proof
  fix x y z :: i32
  show "(x < y) = (x \<le> y \<and> \<not> y \<le> x)"
    by (auto simp: less_eq_i32_def less_i32_def)
  show "x \<le> x"
    by (simp add: less_eq_i32_def)
  show "x \<le> y \<Longrightarrow> y \<le> z \<Longrightarrow> x \<le> z"
    by (simp add: less_eq_i32_def)
  show "x \<le> y \<Longrightarrow> y \<le> x \<Longrightarrow> x = y"
    by (metis antisym i32_of_ival less_eq_i32_def)
  show "x \<le> y \<or> y \<le> x"
    by (auto simp: less_eq_i32_def)
qed

end

subsection \<open>Exceptions\<close>

text \<open>
  The exceptions that reach the code under verification: \<^verbatim>\<open>wire::DecodeError\<close>, \<^verbatim>\<open>InitError\<close>, and the
  \<^verbatim>\<open>boost::system::system_error\<close> a socket operation throws at the end of its stream. A function that
  may throw returns \<open>error + 'a\<close>, the error on the left.
\<close>

datatype error =
    DecodeError string
  | InitError string
  | SocketError string
  | LengthError string

type_synonym 'a result = "error + 'a"

definition bindE :: "'a result \<Rightarrow> ('a \<Rightarrow> 'b result) \<Rightarrow> 'b result" where
  "bindE m f = (case m of Inl e \<Rightarrow> Inl e | Inr x \<Rightarrow> f x)"

subsection \<open>Strings as bytes\<close>

text \<open>The reinterpret casts between \<^verbatim>\<open>char\<close> and \<^verbatim>\<open>std::byte\<close>.\<close>

definition byte_of_char :: "char \<Rightarrow> byte" where
  "byte_of_char c = word_of_nat (of_char c)"

definition char_of_byte :: "byte \<Rightarrow> char" where
  "char_of_byte b = char_of (unat b)"

text \<open>\<^verbatim>\<open>std::tolower\<close> in the default locale, where only the 26 upper-case letters change.\<close>

definition to_lower :: "char \<Rightarrow> char" where
  "to_lower c = (if 65 \<le> (of_char c :: nat) \<and> (of_char c :: nat) \<le> 90 then char_of (of_char c + 32 :: nat) else c)"

subsection \<open>Decimal numbers\<close>

text \<open>
  \<^verbatim>\<open>std::format\<close> of an integer, and \<^verbatim>\<open>std::from_chars\<close> into an \<^verbatim>\<open>int\<close>: an optional minus sign and the
  longest run of digits. The result is the value read with what is left of the text, or one of the
  two error codes; \<^verbatim>\<open>result_out_of_range\<close> still consumes the digits, \<^verbatim>\<open>invalid_argument\<close> consumes
  nothing.
\<close>

definition digit_char :: "nat \<Rightarrow> char" where
  "digit_char d = char_of (48 + d)"

definition is_digit :: "char \<Rightarrow> bool" where
  "is_digit c \<longleftrightarrow> 48 \<le> (of_char c :: nat) \<and> (of_char c :: nat) \<le> 57"

definition digit_val :: "char \<Rightarrow> nat" where
  "digit_val c = of_char c - 48"

fun show_nat :: "nat \<Rightarrow> string" where
  "show_nat n = (if n < 10 then [digit_char n] else show_nat (n div 10) @ [digit_char (n mod 10)])"

declare show_nat.simps [simp del]

definition show_int :: "int \<Rightarrow> string" where
  "show_int k = (if k < 0 then CHR ''-'' # show_nat (nat (- k)) else show_nat (nat k))"

definition digits_val :: "string \<Rightarrow> nat" where
  "digits_val ds = foldl (\<lambda>acc c. 10 * acc + digit_val c) 0 ds"

datatype from_chars_result =
    Parsed i32 string
  | InvalidArgument
  | OutOfRange string

definition from_chars :: "string \<Rightarrow> from_chars_result" where
  "from_chars text =
     (let neg = (case text of [] \<Rightarrow> False | c # _ \<Rightarrow> c = CHR ''-'');
          body = (if neg then tl text else text);
          ds = takeWhile is_digit body;
          rest = dropWhile is_digit body;
          k = (if neg then - int (digits_val ds) else int (digits_val ds))
      in if ds = [] then InvalidArgument
         else if k < INT_MIN \<or> INT_MAX < k then OutOfRange rest
         else Parsed (i32_of k) rest)"

subsection \<open>Lemmas on machine integers\<close>

lemma ival_range: "INT_MIN \<le> ival x" "ival x \<le> INT_MAX"
  using sint_range_size [of "i32_bits x"]
  by (auto simp: ival_def INT_MIN_def INT_MAX_def wsst_TYs)

lemma ival_i32_of [simp]:
  assumes "INT_MIN \<le> k" "k \<le> INT_MAX"
  shows "ival (i32_of k) = k"
  using assms
  by (simp add: ival_def i32_of_def INT_MIN_def INT_MAX_def sint_sbintrunc' signed_take_bit_int_eq_self)

lemma ival_inject [simp]: "ival x = ival y \<longleftrightarrow> x = y"
  by (metis i32_of_ival)

lemma ival_I32 [simp]: "ival (I32 w) = sint w"
  by (simp add: ival_def)

subsection \<open>Lemmas on results and strings\<close>

lemma bindE_simps [simp]:
  "bindE (Inl e) f = Inl e"
  "bindE (Inr x) f = f x"
  by (simp_all add: bindE_def)

lemma bindE_eq_Inr: "bindE m f = Inr y \<longleftrightarrow> (\<exists>x. m = Inr x \<and> f x = Inr y)"
  by (cases m) auto

lemma bindE_eq_Inl: "bindE m f = Inl e \<longleftrightarrow> m = Inl e \<or> (\<exists>x. m = Inr x \<and> f x = Inl e)"
  by (cases m) auto

lemma char_of_byte_of_char [simp]: "char_of_byte (byte_of_char c) = c"
proof -
  have "of_char c < (256 :: nat)" by (rule nat_of_char_less_256)
  then show ?thesis
    by (simp add: char_of_byte_def byte_of_char_def unat_of_nat)
qed

lemma byte_of_char_of_byte [simp]: "byte_of_char (char_of_byte b) = b"
proof -
  have "unat b < 256" using unsigned_less [of b, where ?'a = nat] by simp
  then show ?thesis
    by (simp add: char_of_byte_def byte_of_char_def)
qed

lemma map_char_of_byte_of_char [simp]: "map (char_of_byte \<circ> byte_of_char) s = s"
  by (simp add: map_idI)

lemma map_byte_of_char_of_byte [simp]: "map (byte_of_char \<circ> char_of_byte) bs = bs"
  by (simp add: map_idI)

end
