(* ===== verification/Std_Map.thy ===== *)
theory Std_Map
  imports Prelude
begin

text \<open>
  The ordered map \<^verbatim>\<open>std::map\<close> as the sources use it: \<open>find\<close>, \<open>insert_or_assign\<close>, \<open>emplace\<close> (which keeps
  an entry that is already there), \<open>erase\<close>, and iteration in key order. It is an abstract type over
  association lists with strictly increasing keys, so two maps with the same lookups are equal and no
  component has to carry a well-formedness hypothesis.

  The contract a client of such a map relies on is the locale \<open>ordered_map\<close>; its lemmas are proved
  once from the laws, and the interpretation \<open>smap\<close> gives them for \<open>std_map\<close>.
\<close>

subsection \<open>The operations on sorted association lists\<close>

fun put_sorted :: "'k::linorder \<Rightarrow> 'v \<Rightarrow> ('k \<times> 'v) list \<Rightarrow> ('k \<times> 'v) list" where
  "put_sorted k v [] = [(k, v)]"
| "put_sorted k v (e # es) =
     (if k = fst e then (k, v) # es
      else if k < fst e then (k, v) # e # es
      else e # put_sorted k v es)"

definition keys_ascending :: "('k::linorder \<times> 'v) list \<Rightarrow> bool" where
  "keys_ascending es \<longleftrightarrow> sorted_wrt (<) (map fst es)"

lemma fst_set_put_sorted: "fst ` set (put_sorted k v es) = insert k (fst ` set es)"
  by (induction es) auto

lemma keys_ascending_put_sorted:
  "keys_ascending es \<Longrightarrow> keys_ascending (put_sorted k v es)"
proof (induction es)
  case Nil
  then show ?case by (simp add: keys_ascending_def)
next
  case (Cons e es)
  then have IH: "keys_ascending (put_sorted k v es)"
    by (simp add: keys_ascending_def)
  have below: "\<forall>x \<in> fst ` set es. fst e < x"
    using Cons.prems by (auto simp: keys_ascending_def)
  consider "k = fst e" | "k < fst e" | "fst e < k"
    by fastforce
  then show ?case
  proof cases
    case 1
    then show ?thesis using Cons.prems by (simp add: keys_ascending_def)
  next
    case 2
    then show ?thesis using Cons.prems below by (auto simp: keys_ascending_def)
  next
    case 3
    then show ?thesis using IH below fst_set_put_sorted [of k v es]
      by (auto simp: keys_ascending_def)
  qed
qed

lemma map_of_put_sorted:
  "keys_ascending es \<Longrightarrow> map_of (put_sorted k v es) = (map_of es)(k \<mapsto> v)"
  by (induction es) (auto simp: keys_ascending_def fun_eq_iff)

lemma keys_ascending_filter: "keys_ascending es \<Longrightarrow> keys_ascending (filter P es)"
  by (induction es) (auto simp: keys_ascending_def)

lemma keys_ascending_distinct: "keys_ascending es \<Longrightarrow> distinct (map fst es)"
  by (simp add: keys_ascending_def strict_sorted_iff)

lemma keys_ascending_ext:
  assumes "keys_ascending es" "keys_ascending fs" "map_of es = map_of fs"
  shows "es = fs"
proof -
  have "set es = set fs"
    using assms by (simp add: keys_ascending_distinct map_of_inject_set)
  moreover have "inj_on fst (set es)"
    using assms(1) keys_ascending_distinct distinct_map by blast
  ultimately show ?thesis
    using assms by (intro map_sorted_distinct_set_unique [where f = fst])
      (auto simp: keys_ascending_def strict_sorted_iff)
qed

lemma map_of_filter_key:
  "map_of (filter (\<lambda>e. fst e \<noteq> k) es) = (map_of es)(k := None)"
  by (induction es) (auto simp: fun_eq_iff)

subsection \<open>The abstract type\<close>

typedef (overloaded) ('k, 'v) std_map =
  "{es :: ('k::linorder \<times> 'v) list. keys_ascending es}"
  morphisms entries_of Std_map
  by (rule exI [of _ "[]"]) (simp add: keys_ascending_def)

setup_lifting type_definition_std_map

lift_definition m_empty :: "('k::linorder, 'v) std_map" is "[]"
  by (simp add: keys_ascending_def)

lift_definition m_find :: "('k::linorder, 'v) std_map \<Rightarrow> 'k \<Rightarrow> 'v option" is map_of .

lift_definition m_assign :: "'k::linorder \<Rightarrow> 'v \<Rightarrow> ('k, 'v) std_map \<Rightarrow> ('k, 'v) std_map"
  is put_sorted
  by (rule keys_ascending_put_sorted)

lift_definition m_erase :: "'k::linorder \<Rightarrow> ('k, 'v) std_map \<Rightarrow> ('k, 'v) std_map"
  is "\<lambda>k. filter (\<lambda>e. fst e \<noteq> k)"
  by (rule keys_ascending_filter)

lift_definition m_entries :: "('k::linorder, 'v) std_map \<Rightarrow> ('k \<times> 'v) list" is "\<lambda>es. es" .

text \<open>A loop that changes every mapped value in place: \<^verbatim>\<open>for (auto& [key, entry] : pairs_) ...\<close>\<close>

lift_definition m_each :: "('v \<Rightarrow> 'v) \<Rightarrow> ('k::linorder, 'v) std_map \<Rightarrow> ('k, 'v) std_map"
  is "\<lambda>f. map (\<lambda>(k, v). (k, f v))"
  by (auto simp: keys_ascending_def comp_def case_prod_beta)

definition m_emplace :: "'k::linorder \<Rightarrow> 'v \<Rightarrow> ('k, 'v) std_map \<Rightarrow> ('k, 'v) std_map" where
  "m_emplace k v m = (case m_find m k of None \<Rightarrow> m_assign k v m | Some _ \<Rightarrow> m)"

definition m_contains :: "('k::linorder, 'v) std_map \<Rightarrow> 'k \<Rightarrow> bool" where
  "m_contains m k \<longleftrightarrow> m_find m k \<noteq> None"

definition m_update :: "'k::linorder \<Rightarrow> ('v \<Rightarrow> 'v) \<Rightarrow> ('k, 'v) std_map \<Rightarrow> ('k, 'v) std_map" where
  "m_update k f m = (case m_find m k of None \<Rightarrow> m | Some v \<Rightarrow> m_assign k (f v) m)"

subsection \<open>The contract of an ordered map\<close>

locale ordered_map =
  fixes find :: "'m \<Rightarrow> 'k::linorder \<Rightarrow> 'v option"
    and assign :: "'k \<Rightarrow> 'v \<Rightarrow> 'm \<Rightarrow> 'm"
    and erase :: "'k \<Rightarrow> 'm \<Rightarrow> 'm"
    and entries :: "'m \<Rightarrow> ('k \<times> 'v) list"
  assumes find_assign: "find (assign k v m) = (find m)(k \<mapsto> v)"
    and find_erase: "find (erase k m) = (find m)(k := None)"
    and find_entries: "find m = map_of (entries m)"
    and entries_ascending: "sorted_wrt (<) (map fst (entries m))"
    and ext: "find m = find m' \<Longrightarrow> m = m'"
begin

lemma assign_assign: "assign k v (assign k w m) = assign k v m"
  by (rule ext) (simp add: find_assign)

lemma assign_commute: "j \<noteq> k \<Longrightarrow> assign j v (assign k w m) = assign k w (assign j v m)"
  by (rule ext) (simp add: find_assign fun_upd_twist)

lemma erase_assign: "erase k (assign k v m) = erase k m"
  by (rule ext) (simp add: find_assign find_erase)

lemma erase_absent: "find m k = None \<Longrightarrow> erase k m = m"
  by (rule ext) (simp add: find_erase fun_upd_idem)

lemma assign_present: "find m k = Some v \<Longrightarrow> assign k v m = m"
  by (rule ext) (simp add: find_assign fun_upd_idem)

lemma distinct_keys: "distinct (map fst (entries m))"
  using entries_ascending by (simp add: strict_sorted_iff)

lemma mem_entries_iff: "(k, v) \<in> set (entries m) \<longleftrightarrow> find m k = Some v"
  using distinct_keys [of m] by (simp add: find_entries)

lemma key_in_entries: "k \<in> fst ` set (entries m) \<longleftrightarrow> find m k \<noteq> None"
  by (simp add: find_entries map_of_eq_None_iff)

lemma entries_length: "length (entries m) = card (dom (find m))"
  using distinct_keys [of m]
  by (metis distinct_card find_entries dom_map_of_conv_image_fst length_map list.set_map)

end

interpretation smap: ordered_map
  "m_find :: ('k::linorder, 'v) std_map \<Rightarrow> 'k \<Rightarrow> 'v option" m_assign m_erase m_entries
proof
  fix k and v :: 'v and m m' :: "('k, 'v) std_map"
  show "m_find (m_assign k v m) = (m_find m)(k \<mapsto> v)"
    by transfer (rule map_of_put_sorted)
  show "m_find (m_erase k m) = (m_find m)(k := None)"
    by transfer (rule map_of_filter_key)
  show "m_find m = map_of (m_entries m)"
    by transfer simp
  show "sorted_wrt (<) (map fst (m_entries m))"
    by transfer (simp add: keys_ascending_def)
  show "m_find m = m_find m' \<Longrightarrow> m = m'"
    by transfer (rule keys_ascending_ext)
qed

lemmas m_ext = smap.ext

lemma m_find_simps [simp]:
  "m_find m_empty k = None"
  "m_find (m_assign j v m) k = (if k = j then Some v else m_find m k)"
  "m_find (m_erase j m) k = (if k = j then None else m_find m k)"
  by (transfer, simp) (simp_all add: smap.find_assign smap.find_erase)

lemma m_find_each [simp]: "m_find (m_each f m) k = map_option f (m_find m k)"
  by transfer (simp add: map_of_map)

lemma m_find_emplace [simp]:
  "m_find (m_emplace j v m) k = (if k = j \<and> m_find m j = None then Some v else m_find m k)"
  by (auto simp: m_emplace_def split: option.splits)

lemma m_find_update [simp]:
  "m_find (m_update j f m) k = (if k = j then map_option f (m_find m j) else m_find m k)"
  by (auto simp: m_update_def split: option.splits)

lemma m_contains_iff [simp]: "m_contains m k \<longleftrightarrow> (\<exists>v. m_find m k = Some v)"
  by (auto simp: m_contains_def)

lemma m_entries_simps [simp]:
  "m_entries m_empty = []"
  "m_entries (m_assign k v m) = put_sorted k v (m_entries m)"
  "m_entries (m_erase k m) = filter (\<lambda>e. fst e \<noteq> k) (m_entries m)"
  "m_entries (m_each f m) = map (\<lambda>(k, v). (k, f v)) (m_entries m)"
  by (transfer, simp)+

lemma m_erase_empty [simp]: "m_erase k m_empty = m_empty"
  by (rule m_ext) (simp add: fun_eq_iff)

lemma finite_dom_m_find [simp]: "finite (dom (m_find m))"
  by (simp add: smap.find_entries finite_dom_map_of)

lemma m_erase_emplace: "m_find m k = None \<Longrightarrow> m_erase k (m_emplace k v m) = m"
  by (simp add: m_emplace_def smap.erase_assign smap.erase_absent)

end
