(* ===== verification/Wire.thy ===== *)
theory Wire
  imports Prelude
begin

unbundle bit_operations_syntax

text \<open>
  \<^verbatim>\<open>include/srnp/wire.h\<close> and \<^verbatim>\<open>src/wire.cpp\<close>: the byte writer and the bounds-checked reader, the
  16-byte frame header and whole frames. A \<open>writer\<close> is the buffer built so far; a \<open>reader\<close> is the span
  it was given and the offset it has reached. Everything that throws returns a \<open>result\<close>.

  Offsets and sizes are \<open>nat\<close>: a payload has at most \<open>kMaxPayload\<close> bytes and a length prefix at most
  \<open>2 ^ 32\<close>, so the \<^verbatim>\<open>size_t\<close> sum in \<^verbatim>\<open>Reader::require\<close> stays below \<open>2 ^ 33\<close> and cannot wrap.

  The lemmas show that integers are little-endian on both kinds of host, that reading undoes writing,
  that a reader never leaves its span (\<open>reader_local\<close>: a successful read depends only on the bytes it
  consumed), and what exactly \<open>decodeHeader\<close> accepts.
\<close>

subsection \<open>Constants and message types\<close>

definition kMagic :: u32 where "kMagic = 0x504E5253"

definition kVersion :: u8 where "kVersion = 2"

definition kHeaderSize :: nat where "kHeaderSize = 16"

definition kMaxPayload :: nat where "kMaxPayload = 16 * 1024 * 1024"

datatype MessageType =
    MT_Invalid
  | MT_Subscription
  | MT_Pair
  | MT_PairUpdate
  | MT_IndicatePresence
  | MT_MasterMessage
  | MT_UpdateComponents
  | MT_RemovePair
  | MT_PairRemoved

text \<open>The underlying value of the enumerator, and the cast back.\<close>

fun code_of_type :: "MessageType \<Rightarrow> u8" where
  "code_of_type MT_Invalid = 0"
| "code_of_type MT_Subscription = 1"
| "code_of_type MT_Pair = 2"
| "code_of_type MT_PairUpdate = 3"
| "code_of_type MT_IndicatePresence = 4"
| "code_of_type MT_MasterMessage = 5"
| "code_of_type MT_UpdateComponents = 6"
| "code_of_type MT_RemovePair = 7"
| "code_of_type MT_PairRemoved = 8"

definition type_of_code :: "u8 \<Rightarrow> MessageType" where
  "type_of_code c =
     (if c = 1 then MT_Subscription else if c = 2 then MT_Pair else if c = 3 then MT_PairUpdate
      else if c = 4 then MT_IndicatePresence else if c = 5 then MT_MasterMessage
      else if c = 6 then MT_UpdateComponents else if c = 7 then MT_RemovePair
      else if c = 8 then MT_PairRemoved else MT_Invalid)"

record FrameHeader =
  h_type :: MessageType
  payload_length :: u32
  h_subscriber :: i32

subsection \<open>Integers in memory and on the wire\<close>

datatype endian = Little | Big

fun le_value :: "byte list \<Rightarrow> 'a::len word" where
  "le_value [] = 0"
| "le_value (b # bs) = ucast b OR push_bit 8 (le_value bs)"

definition le_bytes :: "'a::len word \<Rightarrow> byte list" where
  "le_bytes w = map (\<lambda>i. ucast (drop_bit (8 * i) w)) [0..<LENGTH('a) div 8]"

text \<open>\<^verbatim>\<open>std::bit_cast\<close> between an integer and its object representation on a host.\<close>

definition bit_cast_to :: "endian \<Rightarrow> 'a::len word \<Rightarrow> byte list" where
  "bit_cast_to host w = (case host of Little \<Rightarrow> le_bytes w | Big \<Rightarrow> rev (le_bytes w))"

definition bit_cast_from :: "endian \<Rightarrow> byte list \<Rightarrow> 'a::len word" where
  "bit_cast_from host bs = (case host of Little \<Rightarrow> le_value bs | Big \<Rightarrow> le_value (rev bs))"

definition toLittleEndian :: "endian \<Rightarrow> 'a::len word \<Rightarrow> 'a word" where
  "toLittleEndian host v =
     (if host = Little then v else bit_cast_from host (rev (bit_cast_to host v)))"

text \<open>The host the rest of the model runs on; \<open>integer_host_independent\<close> says it does not matter.\<close>

definition native :: endian where "native = Little"

subsection \<open>The writer\<close>

type_synonym writer = "byte list"

definition w_integer :: "endian \<Rightarrow> 'a::len word \<Rightarrow> writer \<Rightarrow> writer" where
  "w_integer host v buffer = buffer @ bit_cast_to host (toLittleEndian host v)"

definition w_int :: "'a::len word \<Rightarrow> writer \<Rightarrow> writer" where
  "w_int v buffer = w_integer native v buffer"

definition w_boolean :: "bool \<Rightarrow> writer \<Rightarrow> writer" where
  "w_boolean v buffer = w_int (if v then 1 else 0 :: u8) buffer"

definition w_string :: "string \<Rightarrow> writer \<Rightarrow> writer result" where
  "w_string v buffer =
     (if length v > kMaxPayload then Inl (DecodeError ''string too long to encode'')
      else Inr (w_int (of_nat (length v) :: u32) buffer @ map byte_of_char v))"

subsection \<open>The reader\<close>

record reader =
  rd_bytes :: "byte list"
  rd_offset :: nat

definition new_reader :: "byte list \<Rightarrow> reader" where
  "new_reader bs = \<lparr>rd_bytes = bs, rd_offset = 0\<rparr>"

definition r_require :: "nat \<Rightarrow> reader \<Rightarrow> unit result" where
  "r_require count r =
     (if rd_offset r + count > length (rd_bytes r) then Inl (DecodeError ''message ended early'')
      else Inr ())"

definition r_integer :: "endian \<Rightarrow> reader \<Rightarrow> ('a::len word \<times> reader) result" where
  "r_integer host r =
     (let size = LENGTH('a) div 8
      in bindE (r_require size r) (\<lambda>_.
         let raw = take size (drop (rd_offset r) (rd_bytes r))
         in Inr (toLittleEndian host (bit_cast_from host raw),
                 r\<lparr>rd_offset := rd_offset r + size\<rparr>)))"

definition r_int :: "reader \<Rightarrow> ('a::len word \<times> reader) result" where
  "r_int r = r_integer native r"

definition r_boolean :: "reader \<Rightarrow> (bool \<times> reader) result" where
  "r_boolean r = bindE (r_int r) (\<lambda>(x :: u8, r). Inr (x \<noteq> 0, r))"

definition r_string :: "reader \<Rightarrow> (string \<times> reader) result" where
  "r_string r =
     bindE (r_int r) (\<lambda>(len :: u32, r).
     bindE (r_require (unat len) r) (\<lambda>_.
     Inr (map char_of_byte (take (unat len) (drop (rd_offset r) (rd_bytes r))),
          r\<lparr>rd_offset := rd_offset r + unat len\<rparr>)))"

definition r_exhausted :: "reader \<Rightarrow> bool" where
  "r_exhausted r \<longleftrightarrow> rd_offset r = length (rd_bytes r)"

subsection \<open>Headers and frames\<close>

definition encodeHeader :: "FrameHeader \<Rightarrow> byte list" where
  "encodeHeader h =
     w_int (i32_bits (h_subscriber h))
       (w_int (payload_length h)
         (w_int (0 :: u16)
           (w_int (code_of_type (h_type h))
             (w_int kVersion
               (w_int kMagic [])))))"

definition decodeHeader :: "byte list \<Rightarrow> FrameHeader result" where
  "decodeHeader bytes =
     (if length bytes \<noteq> kHeaderSize then Inl (DecodeError ''header is the wrong size'')
      else bindE (r_int (new_reader bytes)) (\<lambda>(magic :: u32, r).
        if magic \<noteq> kMagic then Inl (DecodeError ''not an SRNP frame'')
        else bindE (r_int r) (\<lambda>(version :: u8, r).
          if version \<noteq> kVersion
          then Inl (DecodeError (''unsupported protocol version '' @ show_nat (unat version)))
          else bindE (r_int r) (\<lambda>(ty :: u8, r).
            if ty = 0 \<or> ty > code_of_type MT_PairRemoved
            then Inl (DecodeError (''unknown message type '' @ show_nat (unat ty)))
            else bindE (r_int r) (\<lambda>(flags :: u16, r).
              bindE (r_int r) (\<lambda>(len :: u32, r).
                if unat len > kMaxPayload
                then Inl (DecodeError (''payload of '' @ show_nat (unat len) @
                                       '' bytes is over the limit''))
                else bindE (r_int r) (\<lambda>(sub :: u32, r).
                  Inr \<lparr>h_type = type_of_code ty, payload_length = len, h_subscriber = I32 sub\<rparr>)))))))"

definition frame :: "MessageType \<Rightarrow> byte list \<Rightarrow> i32 \<Rightarrow> byte list result" where
  "frame ty payload subscriber =
     (if length payload > kMaxPayload then Inl (DecodeError ''payload is over the limit'')
      else Inr (encodeHeader \<lparr>h_type = ty, payload_length = of_nat (length payload),
                              h_subscriber = subscriber\<rparr> @ payload))"

text \<open>
  \<^verbatim>\<open>frameOf\<close> is a template over every message with an \<^verbatim>\<open>encode\<close> overload; the overload is an argument
  here. The default for the subscriber field, which is reserved in version 2, is \<open>-1\<close>.
\<close>

definition frameOf :: "('m \<Rightarrow> writer \<Rightarrow> writer result) \<Rightarrow> MessageType \<Rightarrow> 'm \<Rightarrow> byte list result" where
  "frameOf encode ty message =
     bindE (encode message []) (\<lambda>payload. frame ty payload (I32 (-1)))"

subsection \<open>Little-endian integers\<close>

lemma bit_le_value:
  "bit (le_value bs :: 'a::len word) n \<longleftrightarrow>
     n < LENGTH('a) \<and> n div 8 < length bs \<and> bit (bs ! (n div 8)) (n mod 8)"
proof (induction bs arbitrary: n)
  case Nil
  then show ?case by simp
next
  case (Cons b bs)
  show ?case
  proof (cases "n < 8")
    case True
    then show ?thesis
      by (auto simp: bit_or_iff bit_push_bit_iff bit_unsigned_iff)
  next
    case False
    then have n: "n div 8 = Suc ((n - 8) div 8)" "n mod 8 = (n - 8) mod 8"
      by (simp_all add: le_div_geq le_mod_geq)
    have "\<not> bit b n" using False bit_imp_le_length [of b n] by auto
    then show ?thesis
      using False Cons.IH [of "n - 8"] n by (auto simp: bit_or_iff bit_push_bit_iff bit_unsigned_iff)
  qed
qed

lemma length_le_bytes [simp]: "length (le_bytes (w :: 'a::len word)) = LENGTH('a) div 8"
  by (simp add: le_bytes_def)

lemma le_value_le_bytes:
  assumes "8 dvd LENGTH('a::len)"
  shows "le_value (le_bytes w) = (w :: 'a word)"
proof (rule bit_word_eqI)
  fix n assume n: "n < LENGTH('a)"
  then have "n div 8 < LENGTH('a) div 8"
    using assms by (metis dvd_mult_div_cancel less_mult_imp_div_less mult.commute)
  moreover have "8 * (n div 8) + n mod 8 = n" by simp
  ultimately show "bit (le_value (le_bytes w) :: 'a word) n = bit w n"
    using n by (simp add: bit_le_value le_bytes_def bit_unsigned_iff bit_drop_bit_eq)
qed

lemma le_bytes_le_value:
  assumes "length bs = LENGTH('a::len) div 8"
  shows "le_bytes (le_value bs :: 'a word) = bs"
proof (rule nth_equalityI)
  show "length (le_bytes (le_value bs :: 'a word)) = length bs" using assms by simp
next
  fix i assume "i < length (le_bytes (le_value bs :: 'a word))"
  then have i: "i < LENGTH('a) div 8" by simp
  show "le_bytes (le_value bs :: 'a word) ! i = bs ! i"
  proof (rule bit_word_eqI)
    fix n assume n: "n < LENGTH(8)"
    then have "(8 * i + n) div 8 = i" "(8 * i + n) mod 8 = n" "8 * i + n < LENGTH('a)"
      using i by auto
    then show "bit (le_bytes (le_value bs :: 'a word) ! i) n = bit (bs ! i) n"
      using i n assms by (simp add: le_bytes_def bit_unsigned_iff bit_drop_bit_eq bit_le_value)
  qed
qed

lemma size_dvd [simp]:
  "8 dvd LENGTH(8)" "8 dvd LENGTH(16)" "8 dvd LENGTH(32)" "8 dvd LENGTH(64)"
  by simp_all

lemma le_value_rev_rev: "le_value (rev (rev bs)) = le_value bs"
  by simp

lemma w_integer_eq:
  assumes "8 dvd LENGTH('a::len)"
  shows "w_integer host (v :: 'a word) buffer = buffer @ le_bytes v"
proof (cases host)
  case Little
  then show ?thesis by (simp add: w_integer_def toLittleEndian_def bit_cast_to_def)
next
  case Big
  have "rev (le_bytes (le_value (rev (le_bytes v)) :: 'a word)) = le_bytes v"
    by (simp add: le_bytes_le_value)
  with Big show ?thesis
    by (simp add: w_integer_def toLittleEndian_def bit_cast_to_def bit_cast_from_def)
qed

lemma w_int_eq [simp]:
  assumes "8 dvd LENGTH('a::len)"
  shows "w_int (v :: 'a word) buffer = buffer @ le_bytes v"
  using assms by (simp add: w_int_def w_integer_eq)

lemma read_cast_eq:
  assumes "8 dvd LENGTH('a::len)" "length raw = LENGTH('a) div 8"
  shows "toLittleEndian host (bit_cast_from host raw :: 'a word) = le_value raw"
proof (cases host)
  case Little
  then show ?thesis by (simp add: toLittleEndian_def bit_cast_from_def)
next
  case Big
  have "le_bytes (le_value (rev raw) :: 'a word) = rev raw"
    using assms(2) by (simp add: le_bytes_le_value)
  with Big show ?thesis
    by (simp add: toLittleEndian_def bit_cast_from_def bit_cast_to_def)
qed

subsection \<open>Readers: what is left, and locality\<close>

definition remaining :: "reader \<Rightarrow> byte list" where
  "remaining r = drop (rd_offset r) (rd_bytes r)"

definition in_span :: "reader \<Rightarrow> bool" where
  "in_span r \<longleftrightarrow> rd_offset r \<le> length (rd_bytes r)"

definition advance :: "nat \<Rightarrow> reader \<Rightarrow> reader" where
  "advance n r = r\<lparr>rd_offset := rd_offset r + n\<rparr>"

text \<open>
  \<open>reads dec x bs\<close>: on every reader whose remaining bytes start with \<open>bs\<close>, the decoder returns \<open>x\<close> and
  consumes exactly \<open>bs\<close>. A decoder is local when each of its successful runs is of this kind: it
  consumed bytes that are there, and its result depends on nothing after them.
\<close>

definition reads :: "(reader \<Rightarrow> ('a \<times> reader) result) \<Rightarrow> 'a \<Rightarrow> byte list \<Rightarrow> bool" where
  "reads dec x bs \<longleftrightarrow>
     (\<forall>s rest. in_span s \<longrightarrow> remaining s = bs @ rest \<longrightarrow> dec s = Inr (x, advance (length bs) s))"

definition reader_local :: "(reader \<Rightarrow> ('a \<times> reader) result) \<Rightarrow> bool" where
  "reader_local dec \<longleftrightarrow>
     (\<forall>r x r'. in_span r \<longrightarrow> dec r = Inr (x, r') \<longrightarrow>
        (\<exists>bs rest. remaining r = bs @ rest \<and> r' = advance (length bs) r \<and> reads dec x bs))"

definition r_chars :: "nat \<Rightarrow> reader \<Rightarrow> (string \<times> reader) result" where
  "r_chars n r = bindE (r_require n r)
     (\<lambda>_. Inr (map char_of_byte (take n (remaining r)), advance n r))"

lemma remaining_new_reader [simp]: "remaining (new_reader bs) = bs"
  by (simp add: remaining_def new_reader_def)

lemma in_span_new_reader [simp]: "in_span (new_reader bs)"
  by (simp add: in_span_def new_reader_def)

lemma remaining_advance [simp]: "remaining (advance n r) = drop n (remaining r)"
  by (simp add: remaining_def advance_def add.commute)

lemma in_span_advance [simp]: "in_span r \<Longrightarrow> n \<le> length (remaining r) \<Longrightarrow> in_span (advance n r)"
  by (auto simp: in_span_def advance_def remaining_def)

lemma advance_advance [simp]: "advance m (advance n r) = advance (n + m) r"
  by (simp add: advance_def)

lemma advance_0 [simp]: "advance 0 r = r"
  by (simp add: advance_def)

lemma r_exhausted_iff: "in_span r \<Longrightarrow> r_exhausted r \<longleftrightarrow> remaining r = []"
  by (auto simp: r_exhausted_def in_span_def remaining_def)

lemma r_require_iff:
  "in_span r \<Longrightarrow> r_require n r = (if n \<le> length (remaining r) then Inr ()
                                   else Inl (DecodeError ''message ended early''))"
  by (auto simp: r_require_def in_span_def remaining_def)

lemma r_int_eq:
  assumes "8 dvd LENGTH('a::len)" "in_span r"
  shows "(r_int r :: ('a word \<times> reader) result) =
     (if LENGTH('a) div 8 \<le> length (remaining r)
      then Inr (le_value (take (LENGTH('a) div 8) (remaining r)), advance (LENGTH('a) div 8) r)
      else Inl (DecodeError ''message ended early''))"
  using assms read_cast_eq [where 'a = 'a and host = native]
  by (simp add: r_int_def r_integer_def r_require_iff Let_def advance_def remaining_def in_span_def)

lemma string_size_fits: "n \<le> kMaxPayload \<Longrightarrow> unat (of_nat n :: u32) = n"
  by (simp add: kMaxPayload_def unat_of_nat)

lemma r_string_alt: "r_string r = bindE (r_int r) (\<lambda>(len :: u32, r). r_chars (unat len) r)"
  by (simp add: r_string_def r_chars_def remaining_def advance_def)

subsection \<open>What the primitive readers read, and how reading composes\<close>

named_theorems reads_intros \<open>what a decoder reads back\<close>

lemma readsD: "reads dec x bs \<Longrightarrow> in_span s \<Longrightarrow> remaining s = bs @ rest \<Longrightarrow>
    dec s = Inr (x, advance (length bs) s)"
  by (simp add: reads_def)

lemma reads_return [reads_intros]: "reads (\<lambda>r. Inr (x, r)) x []"
  by (simp add: reads_def)

lemma reads_int [reads_intros]:
  "8 dvd LENGTH('a::len) \<Longrightarrow> reads r_int (v :: 'a word) (le_bytes v)"
  by (simp add: reads_def r_int_eq le_value_le_bytes)

lemma reads_chars: "reads (r_chars (length v)) v (map byte_of_char v)"
  by (simp add: reads_def r_chars_def r_require_iff)

lemma reads_bind [reads_intros]:
  assumes "reads f x bs" "reads (g x) y cs"
  shows "reads (\<lambda>r. bindE (f r) (\<lambda>(x, r). g x r)) y (bs @ cs)"
  unfolding reads_def
proof (intro allI impI)
  fix s rest assume s: "in_span s" "remaining s = (bs @ cs) @ rest"
  then have "f s = Inr (x, advance (length bs) s)"
    using readsD [OF assms(1)] by simp
  moreover have "g x (advance (length bs) s) = Inr (y, advance (length cs) (advance (length bs) s))"
    by (rule readsD [OF assms(2), of _ rest]) (use s in simp_all)
  ultimately show "bindE (f s) (\<lambda>(x, r). g x r) = Inr (y, advance (length (bs @ cs)) s)"
    by simp
qed

lemma reads_boolean [reads_intros]:
  "reads r_boolean v (le_bytes (if v then 1 else 0 :: u8))"
  unfolding r_boolean_def [abs_def]
  using reads_bind [where x = "if v then 1 else 0 :: u8", OF reads_int reads_return, of "\<lambda>x. x \<noteq> 0"]
  by (cases v) simp_all

lemma reads_string [reads_intros]:
  "length v \<le> kMaxPayload \<Longrightarrow>
     reads r_string v (le_bytes (of_nat (length v) :: u32) @ map byte_of_char v)"
  unfolding r_string_alt [abs_def]
  using reads_chars [of v]
  by (intro reads_bind [where x = "of_nat (length v)"] reads_int) (simp_all add: string_size_fits)

subsection \<open>Locality\<close>

named_theorems local_intros \<open>decoders that only depend on what they consume\<close>

lemma reader_localE:
  assumes "reader_local dec" "in_span r" "dec r = Inr (x, r')"
  obtains bs rest where "remaining r = bs @ rest" "r' = advance (length bs) r" "reads dec x bs"
  using assms unfolding reader_local_def by blast

lemma reader_local_return [local_intros]: "reader_local (\<lambda>r. Inr (x, r))"
  using reads_return by (fastforce simp: reader_local_def)

lemma reader_local_throw [local_intros]: "reader_local (\<lambda>r. Inl e)"
  by (simp add: reader_local_def)

lemma reader_local_int [local_intros]:
  assumes "8 dvd LENGTH('a::len)"
  shows "reader_local (r_int :: reader \<Rightarrow> ('a word \<times> reader) result)"
  unfolding reader_local_def
proof (intro allI impI)
  fix r r' and v :: "'a word"
  let ?n = "LENGTH('a) div 8"
  assume r: "in_span r" and run: "r_int r = Inr (v, r')"
  then have len: "?n \<le> length (remaining r)"
    and v: "v = le_value (take ?n (remaining r))" "r' = advance ?n r"
    using assms by (simp_all add: r_int_eq split: if_splits)
  have "take ?n (remaining r) = le_bytes v"
    using len by (simp add: v le_bytes_le_value)
  then have "remaining r = le_bytes v @ drop ?n (remaining r)"
    by (metis append_take_drop_id)
  moreover have "reads r_int v (le_bytes v)" using assms by (rule reads_int)
  ultimately show "\<exists>bs rest. remaining r = bs @ rest \<and> r' = advance (length bs) r \<and> reads r_int v bs"
    using v(2) by (metis length_le_bytes)
qed

lemma reader_local_chars [local_intros]: "reader_local (r_chars n)"
  unfolding reader_local_def
proof (intro allI impI)
  fix r x r' assume r: "in_span r" and run: "r_chars n r = Inr (x, r')"
  then have len: "n \<le> length (remaining r)" and x: "x = map char_of_byte (take n (remaining r))"
    "r' = advance n r"
    by (simp_all add: r_chars_def r_require_iff split: if_splits)
  then have bs: "map byte_of_char x = take n (remaining r)" "length x = n"
    by simp_all
  then have "reads (r_chars n) x (take n (remaining r))"
    using reads_chars [of x] by simp
  then show "\<exists>bs rest. remaining r = bs @ rest \<and> r' = advance (length bs) r \<and> reads (r_chars n) x bs"
    using len x(2) by (intro exI [of _ "take n (remaining r)"] exI [of _ "drop n (remaining r)"]) simp
qed

lemma reader_local_bind [local_intros]:
  assumes f: "reader_local f" and g: "\<And>x. reader_local (g x)"
  shows "reader_local (\<lambda>r. bindE (f r) (\<lambda>(x, r). g x r))"
  unfolding reader_local_def
proof (intro allI impI)
  fix r y r'' assume r: "in_span r" and run: "bindE (f r) (\<lambda>(x, r). g x r) = Inr (y, r'')"
  then obtain x r' where fx: "f r = Inr (x, r')" and gx: "g x r' = Inr (y, r'')"
    by (auto simp: bindE_eq_Inr)
  obtain bs rest where bs: "remaining r = bs @ rest" "r' = advance (length bs) r" "reads f x bs"
    using reader_localE [OF f r fx] by blast
  then have r': "in_span r'" "remaining r' = rest" using r by simp_all
  obtain cs rest' where cs: "remaining r' = cs @ rest'" "r'' = advance (length cs) r'"
      "reads (g x) y cs"
    using reader_localE [OF g r'(1) gx] by blast
  have "reads (\<lambda>r. bindE (f r) (\<lambda>(x, r). g x r)) y (bs @ cs)"
    using bs(3) cs(3) by (rule reads_bind)
  then show "\<exists>bs rest. remaining r = bs @ rest \<and> r'' = advance (length bs) r \<and>
      reads (\<lambda>r. bindE (f r) (\<lambda>(x, r). g x r)) y bs"
    using bs cs r' by (intro exI [of _ "bs @ cs"] exI [of _ rest']) simp
qed

lemma reader_local_boolean [local_intros]: "reader_local r_boolean"
  unfolding r_boolean_def [abs_def] by (intro local_intros size_dvd)

lemma reader_local_string [local_intros]: "reader_local r_string"
  unfolding r_string_alt [abs_def] by (intro local_intros size_dvd)

subsection \<open>The header\<close>

definition header_bytes :: "u8 \<Rightarrow> u16 \<Rightarrow> u32 \<Rightarrow> u32 \<Rightarrow> byte list" where
  "header_bytes ty flags len sub =
     le_bytes kMagic @ le_bytes kVersion @ le_bytes ty @ le_bytes flags @ le_bytes len @ le_bytes sub"

lemma length_header_bytes [simp]: "length (header_bytes ty flags len sub) = kHeaderSize"
  by (simp add: header_bytes_def kHeaderSize_def)

lemma encodeHeader_eq:
  "encodeHeader h =
     header_bytes (code_of_type (h_type h)) 0 (payload_length h) (i32_bits (h_subscriber h))"
  by (simp add: encodeHeader_def header_bytes_def)

lemma type_of_code_of_type [simp]: "type_of_code (code_of_type t) = t"
  by (cases t) (simp_all add: type_of_code_def)

lemma code_of_type_range [simp]:
  "code_of_type t = 0 \<longleftrightarrow> t = MT_Invalid" "code_of_type t \<le> 8"
  by (cases t; simp)+

lemma code_of_type_of_code:
  assumes "c \<noteq> 0" "c \<le> 8"
  shows "code_of_type (type_of_code c) = c" "type_of_code c \<noteq> MT_Invalid"
proof -
  have "unat c \<le> 8" "unat c \<noteq> 0" using assms by (simp_all add: word_le_nat_alt unat_eq_0)
  then have "unat c \<in> {1, 2, 3, 4, 5, 6, 7, 8}" by auto
  then have "c \<in> {1, 2, 3, 4, 5, 6, 7, 8}"
    by (auto simp: word_unat_eq_iff)
  then show "code_of_type (type_of_code c) = c" "type_of_code c \<noteq> MT_Invalid"
    by (auto simp: type_of_code_def)
qed

lemma split_word:
  assumes "length bs = LENGTH('a::len) div 8 + n"
  shows "\<exists>(w :: 'a word) rest. bs = le_bytes w @ rest \<and> length rest = n"
proof (intro exI conjI)
  let ?n = "LENGTH('a) div 8"
  show "bs = le_bytes (le_value (take ?n bs) :: 'a word) @ drop ?n bs"
    using assms by (simp add: le_bytes_le_value)
  show "length (drop ?n bs) = n" using assms by simp
qed

lemma decodeHeader_step:
  "decodeHeader (le_bytes magic @ le_bytes version @ le_bytes ty @ le_bytes (flags :: u16) @
       le_bytes len @ le_bytes sub) =
     (if magic \<noteq> kMagic then Inl (DecodeError ''not an SRNP frame'')
      else if version \<noteq> kVersion
      then Inl (DecodeError (''unsupported protocol version '' @ show_nat (unat version)))
      else if ty = 0 \<or> ty > 8
      then Inl (DecodeError (''unknown message type '' @ show_nat (unat ty)))
      else if unat len > kMaxPayload
      then Inl (DecodeError (''payload of '' @ show_nat (unat len) @ '' bytes is over the limit''))
      else Inr \<lparr>h_type = type_of_code ty, payload_length = len, h_subscriber = I32 sub\<rparr>)"
  by (simp add: decodeHeader_def kHeaderSize_def r_int_eq le_value_le_bytes)

lemma split_header:
  assumes "length bs = kHeaderSize"
  obtains magic :: u32 and version ty :: u8 and flags :: u16 and len sub :: u32
  where "bs = le_bytes magic @ le_bytes version @ le_bytes ty @ le_bytes flags @
      le_bytes len @ le_bytes sub"
proof -
  obtain magic :: u32 and b1 where 1: "bs = le_bytes magic @ b1" "length b1 = 12"
    using assms split_word [of bs 12, where 'a = 32] by (auto simp: kHeaderSize_def)
  obtain version :: u8 and b2 where 2: "b1 = le_bytes version @ b2" "length b2 = 11"
    using 1 split_word [of b1 11, where 'a = 8] by auto
  obtain ty :: u8 and b3 where 3: "b2 = le_bytes ty @ b3" "length b3 = 10"
    using 2 split_word [of b2 10, where 'a = 8] by auto
  obtain flags :: u16 and b4 where 4: "b3 = le_bytes flags @ b4" "length b4 = 8"
    using 3 split_word [of b3 8, where 'a = 16] by auto
  obtain len :: u32 and b5 where 5: "b4 = le_bytes len @ b5" "length b5 = 4"
    using 4 split_word [of b4 4, where 'a = 32] by auto
  obtain sub :: u32 where "b5 = le_bytes sub"
    using 5 split_word [of b5 0, where 'a = 32] by auto
  with 1 2 3 4 5 that show ?thesis by blast
qed

lemma decodeHeader_encodeHeader:
  "h_type h \<noteq> MT_Invalid \<Longrightarrow> unat (payload_length h) \<le> kMaxPayload \<Longrightarrow>
     decodeHeader (encodeHeader h) = Inr h"
  by (simp add: encodeHeader_eq header_bytes_def decodeHeader_step not_less)

lemma decodeHeader_bounds:
  "decodeHeader bs = Inr h \<Longrightarrow> h_type h \<noteq> MT_Invalid \<and> unat (payload_length h) \<le> kMaxPayload"
  by (auto simp: decodeHeader_def bindE_eq_Inr split: if_splits
      dest: code_of_type_of_code(2) [OF _ leI])

text \<open>
  C18. \<open>decodeHeader\<close> accepts exactly the 16-byte blocks made of the magic, version 2, a known message
  type, any flags, a payload length within the limit and a subscriber, and returns those fields; in
  particular it undoes \<open>encodeHeader\<close> for every header that can be sent.
\<close>

theorem decodeHeader_accepts_iff:
  "decodeHeader bs = Inr h \<longleftrightarrow>
     (\<exists>flags. bs = header_bytes (code_of_type (h_type h)) flags (payload_length h)
                   (i32_bits (h_subscriber h))) \<and>
     h_type h \<noteq> MT_Invalid \<and> unat (payload_length h) \<le> kMaxPayload"
proof
  assume dec: "decodeHeader bs = Inr h"
  then have "length bs = kHeaderSize" by (simp add: decodeHeader_def split: if_splits)
  then obtain magic :: u32 and version ty :: u8 and flags :: u16 and len sub :: u32
    where bs: "bs = le_bytes magic @ le_bytes version @ le_bytes ty @ le_bytes flags @
        le_bytes len @ le_bytes sub"
    by (rule split_header)
  have ok: "magic = kMagic" "version = kVersion" "ty \<noteq> 0" "ty \<le> 8" "unat len \<le> kMaxPayload"
    and h: "h = \<lparr>h_type = type_of_code ty, payload_length = len, h_subscriber = I32 sub\<rparr>"
    using dec unfolding bs decodeHeader_step by (auto split: if_splits)
  show "(\<exists>flags. bs = header_bytes (code_of_type (h_type h)) flags (payload_length h)
             (i32_bits (h_subscriber h))) \<and>
      h_type h \<noteq> MT_Invalid \<and> unat (payload_length h) \<le> kMaxPayload"
    using ok h code_of_type_of_code [OF ok(3,4)] by (auto simp: bs header_bytes_def)
next
  assume "(\<exists>flags. bs = header_bytes (code_of_type (h_type h)) flags (payload_length h)
             (i32_bits (h_subscriber h))) \<and>
      h_type h \<noteq> MT_Invalid \<and> unat (payload_length h) \<le> kMaxPayload"
  then show "decodeHeader bs = Inr h"
    by (auto simp: header_bytes_def decodeHeader_step not_less)
qed

text \<open>
  An integer written on a host of either byte order is the same little-endian byte sequence, and a
  host of either byte order reads the value back from it, whatever follows.
\<close>

lemma integer_host_independent:
  fixes v :: "'a::len word"
  assumes "8 dvd LENGTH('a)"
  shows "w_integer here v [] = le_bytes v \<and>
    r_integer there (new_reader (w_integer here v [] @ rest)) =
      Inr (v, advance (LENGTH('a) div 8) (new_reader (w_integer here v [] @ rest)))"
proof -
  have "toLittleEndian there (bit_cast_from there (le_bytes v) :: 'a word) = v"
    using assms by (simp add: read_cast_eq le_value_le_bytes)
  then show ?thesis
    using assms by (simp add: w_integer_eq r_integer_def r_require_def new_reader_def advance_def)
qed

end
