(* ===== verification/Pair_Types.thy ===== *)
theory Pair_Types
  imports Std_Map Wire
begin

text \<open>
  The data every component exchanges: \<^verbatim>\<open>include/srnp/Pair.h\<close>, \<^verbatim>\<open>msgs/CommMessages.h\<close> and
  \<^verbatim>\<open>msgs/MasterMessages.h\<close>. A struct is a record with the same members, an enum class a datatype, and
  \<^verbatim>\<open>PairKey\<close> a datatype with the linear order of \<^verbatim>\<open>PairKeyLess\<close> (owner first, signed; then the key,
  byte by byte), so that the \<open>std_map\<close>s keyed by it iterate as in the program.
\<close>

subsection \<open>Pairs\<close>

type_synonym CallbackHandle = u64
type_synonym SubscriptionHandle = u64
type_synonym TimePoint = u64

definition kInvalidCallbackHandle :: CallbackHandle where "kInvalidCallbackHandle = 0"

definition kInvalidSubscriptionHandle :: SubscriptionHandle where "kInvalidSubscriptionHandle = 0"

definition kAnyOwner :: i32 where "kAnyOwner = I32 (-1)"

definition kWildcardKey :: string where "kWildcardKey = ''*''"

datatype PairType = PT_Invalid | PT_String | PT_Bytes | PT_Meta

record Pair =
  getOwner :: i32
  getKey :: string
  getValue :: string
  getType :: PairType
  getWriteTime :: TimePoint
  getExpiryTime :: TimePoint

definition default_pair :: Pair where
  "default_pair = \<lparr>getOwner = kAnyOwner, getKey = [], getValue = [], getType = PT_Invalid,
                   getWriteTime = 0, getExpiryTime = 0\<rparr>"

definition new_pair :: "i32 \<Rightarrow> string \<Rightarrow> string \<Rightarrow> PairType \<Rightarrow> Pair" where
  "new_pair owner key value ty =
     \<lparr>getOwner = owner, getKey = key, getValue = value, getType = ty,
      getWriteTime = 0, getExpiryTime = 0\<rparr>"

definition setPair_kv :: "string \<Rightarrow> string \<Rightarrow> Pair \<Rightarrow> Pair" where
  "setPair_kv key value p = p\<lparr>getKey := key, getValue := value\<rparr>"

definition setValue :: "string \<Rightarrow> Pair \<Rightarrow> Pair" where
  "setValue value p = p\<lparr>getValue := value\<rparr>"

definition setType :: "PairType \<Rightarrow> Pair \<Rightarrow> Pair" where
  "setType ty p = p\<lparr>getType := ty\<rparr>"

definition setOwner :: "i32 \<Rightarrow> Pair \<Rightarrow> Pair" where
  "setOwner owner p = p\<lparr>getOwner := owner\<rparr>"

definition setWriteTime :: "TimePoint \<Rightarrow> Pair \<Rightarrow> Pair" where
  "setWriteTime t p = p\<lparr>getWriteTime := t\<rparr>"

definition setExpiryTime :: "TimePoint \<Rightarrow> Pair \<Rightarrow> Pair" where
  "setExpiryTime t p = p\<lparr>getExpiryTime := t\<rparr>"

lemmas pair_setters = setPair_kv_def setValue_def setType_def setOwner_def setWriteTime_def
  setExpiryTime_def

subsection \<open>Keys\<close>

datatype PairKey = PairKey (pk_owner: i32) (pk_key: string)

definition PairKeyLess :: "PairKey \<Rightarrow> PairKey \<Rightarrow> bool" where
  "PairKeyLess a b =
     (if pk_owner a \<noteq> pk_owner b then pk_owner a < pk_owner b else pk_key a < pk_key b)"

instantiation PairKey :: linorder
begin

definition less_PairKey :: "PairKey \<Rightarrow> PairKey \<Rightarrow> bool" where
  "less_PairKey a b \<longleftrightarrow> PairKeyLess a b"

definition less_eq_PairKey :: "PairKey \<Rightarrow> PairKey \<Rightarrow> bool" where
  "less_eq_PairKey a b \<longleftrightarrow> a = b \<or> PairKeyLess a b"

instance
proof
  fix a b c :: PairKey
  show "(a < b) = (a \<le> b \<and> \<not> b \<le> a)"
    by (cases a; cases b) (auto simp: less_PairKey_def less_eq_PairKey_def PairKeyLess_def)
  show "a \<le> a"
    by (simp add: less_eq_PairKey_def)
  show "a \<le> b \<Longrightarrow> b \<le> c \<Longrightarrow> a \<le> c"
    by (auto simp: less_eq_PairKey_def PairKeyLess_def split: if_splits)
  show "a \<le> b \<Longrightarrow> b \<le> a \<Longrightarrow> a = b"
    by (auto simp: less_eq_PairKey_def PairKeyLess_def split: if_splits)
  show "a \<le> b \<or> b \<le> a"
    by (cases a; cases b) (auto simp: less_eq_PairKey_def PairKeyLess_def)
qed

end

definition key_of :: "Pair \<Rightarrow> PairKey" where
  "key_of p = PairKey (getOwner p) (getKey p)"

subsection \<open>Messages between components\<close>

record Subscription =
  sub_key :: string
  sub_owner_id :: i32
  sub_subscriber :: i32
  sub_registering :: bool

record RemovePairRequest =
  rp_owner :: i32
  rp_key :: string

subsection \<open>Messages to and from the master\<close>

record IndicatePresence =
  ip_port :: string
  ip_force_owner_id :: bool
  ip_owner_id :: i32

record ComponentInfo =
  ci_owner :: i32
  ci_ip :: string
  ci_port :: string

datatype Operation = Op_Add | Op_Remove

record UpdateComponents =
  uc_operation :: Operation
  uc_component :: ComponentInfo

record MasterMessage =
  mm_owner :: i32
  mm_all_components :: "ComponentInfo list"

subsection \<open>Names of the pair types\<close>

definition nameOf :: "PairType \<Rightarrow> string" where
  "nameOf ty = (case ty of PT_String \<Rightarrow> ''string'' | PT_Bytes \<Rightarrow> ''bytes'' | PT_Meta \<Rightarrow> ''meta''
                 | PT_Invalid \<Rightarrow> ''invalid'')"

lemma key_of_setters [simp]:
  "key_of (setValue v p) = key_of p" "key_of (setType t p) = key_of p"
  "key_of (setWriteTime w p) = key_of p" "key_of (setExpiryTime w p) = key_of p"
  by (simp_all add: key_of_def pair_setters)

lemma key_of_new_pair [simp]: "key_of (new_pair owner key value ty) = PairKey owner key"
  by (simp add: key_of_def new_pair_def)

end
