(* ===== verification/Codec.thy ===== *)
theory Codec
  imports Pair_Types
begin

text \<open>
  \<^verbatim>\<open>src/codec.cpp\<close> and \<^verbatim>\<open>include/srnp/msgs/codec.h\<close>: one encoder and one decoder per message, written
  over the writer and the reader in the order of the source, and \<open>decodePayload\<close>, which insists that a
  payload is consumed exactly.

  What a user of a codec relies on is the locale \<open>codec\<close>: encoding appends, decoding reads back what was
  encoded, and decoding is local. Its lemmas (round trip, rejection of truncated and of over-long
  payloads, injectivity) are proved once and interpreted for each of the seven messages.

  A \<^verbatim>\<open>time_point\<close> is its count of nanoseconds, as in libstdc++, so \<open>toNanos\<close> and \<open>fromNanos\<close> change
  nothing; \<open>sizeof_ComponentInfo\<close> is the size of that struct there (an int, padding and two strings).
\<close>

subsection \<open>Helpers\<close>

definition toNanos :: "TimePoint \<Rightarrow> u64" where "toNanos t = t"

definition fromNanos :: "u64 \<Rightarrow> TimePoint" where "fromNanos n = n"

definition readEnum :: "u8 \<Rightarrow> (u8 \<Rightarrow> 'e) \<Rightarrow> reader \<Rightarrow> ('e \<times> reader) result" where
  "readEnum highest to_enum r =
     bindE (r_int r) (\<lambda>(raw, r).
       if raw > highest then Inl (DecodeError ''enum value out of range'') else Inr (to_enum raw, r))"

fun code_of_ptype :: "PairType \<Rightarrow> u8" where
  "code_of_ptype PT_Invalid = 0"
| "code_of_ptype PT_String = 1"
| "code_of_ptype PT_Bytes = 2"
| "code_of_ptype PT_Meta = 3"

definition ptype_of_code :: "u8 \<Rightarrow> PairType" where
  "ptype_of_code c =
     (if c = 1 then PT_String else if c = 2 then PT_Bytes else if c = 3 then PT_Meta else PT_Invalid)"

fun code_of_op :: "Operation \<Rightarrow> u8" where
  "code_of_op Op_Add = 0"
| "code_of_op Op_Remove = 1"

definition op_of_code :: "u8 \<Rightarrow> Operation" where
  "op_of_code c = (if c = 1 then Op_Remove else Op_Add)"

definition sizeof_ComponentInfo :: nat where "sizeof_ComponentInfo = 72"

subsection \<open>Pair\<close>

definition encode_Pair :: "Pair \<Rightarrow> writer \<Rightarrow> writer result" where
  "encode_Pair p w =
     bindE (w_string (getKey p) (w_int (i32_bits (getOwner p)) w)) (\<lambda>w.
     bindE (w_string (getValue p) w) (\<lambda>w.
     Inr (w_int (toNanos (getExpiryTime p))
           (w_int (toNanos (getWriteTime p))
             (w_int (code_of_ptype (getType p)) w)))))"

definition decode_Pair :: "reader \<Rightarrow> (Pair \<times> reader) result" where
  "decode_Pair r =
     bindE (r_int r) (\<lambda>(owner, r).
     bindE (r_string r) (\<lambda>(key, r).
     bindE (r_string r) (\<lambda>(value, r).
     bindE (readEnum (code_of_ptype PT_Meta) ptype_of_code r) (\<lambda>(ty, r).
     bindE (r_int r) (\<lambda>(written, r).
     bindE (r_int r) (\<lambda>(expiry, r).
     Inr (setExpiryTime (fromNanos expiry) (setWriteTime (fromNanos written) (setType ty
            (setPair_kv key value (setOwner (I32 owner) default_pair)))), r)))))))"

subsection \<open>Subscription and RemovePairRequest\<close>

definition encode_Subscription :: "Subscription \<Rightarrow> writer \<Rightarrow> writer result" where
  "encode_Subscription m w =
     bindE (w_string (sub_key m) w) (\<lambda>w.
     Inr (w_boolean (sub_registering m)
           (w_int (i32_bits (sub_subscriber m))
             (w_int (i32_bits (sub_owner_id m)) w))))"

definition decode_Subscription :: "reader \<Rightarrow> (Subscription \<times> reader) result" where
  "decode_Subscription r =
     bindE (r_string r) (\<lambda>(key, r).
     bindE (r_int r) (\<lambda>(owner, r).
     bindE (r_int r) (\<lambda>(subscriber, r).
     bindE (r_boolean r) (\<lambda>(registering, r).
     Inr (\<lparr>sub_key = key, sub_owner_id = I32 owner, sub_subscriber = I32 subscriber,
           sub_registering = registering\<rparr>, r)))))"

definition encode_RemovePairRequest :: "RemovePairRequest \<Rightarrow> writer \<Rightarrow> writer result" where
  "encode_RemovePairRequest m w = w_string (rp_key m) (w_int (i32_bits (rp_owner m)) w)"

definition decode_RemovePairRequest :: "reader \<Rightarrow> (RemovePairRequest \<times> reader) result" where
  "decode_RemovePairRequest r =
     bindE (r_int r) (\<lambda>(owner, r).
     bindE (r_string r) (\<lambda>(key, r).
     Inr (\<lparr>rp_owner = I32 owner, rp_key = key\<rparr>, r)))"

subsection \<open>IndicatePresence, ComponentInfo and UpdateComponents\<close>

definition encode_IndicatePresence :: "IndicatePresence \<Rightarrow> writer \<Rightarrow> writer result" where
  "encode_IndicatePresence m w =
     bindE (w_string (ip_port m) w) (\<lambda>w.
     Inr (w_int (i32_bits (ip_owner_id m)) (w_boolean (ip_force_owner_id m) w)))"

definition decode_IndicatePresence :: "reader \<Rightarrow> (IndicatePresence \<times> reader) result" where
  "decode_IndicatePresence r =
     bindE (r_string r) (\<lambda>(port, r).
     bindE (r_boolean r) (\<lambda>(force, r).
     bindE (r_int r) (\<lambda>(owner, r).
     Inr (\<lparr>ip_port = port, ip_force_owner_id = force, ip_owner_id = I32 owner\<rparr>, r))))"

definition encode_ComponentInfo :: "ComponentInfo \<Rightarrow> writer \<Rightarrow> writer result" where
  "encode_ComponentInfo m w =
     bindE (w_string (ci_ip m) (w_int (i32_bits (ci_owner m)) w)) (\<lambda>w. w_string (ci_port m) w)"

definition decode_ComponentInfo :: "reader \<Rightarrow> (ComponentInfo \<times> reader) result" where
  "decode_ComponentInfo r =
     bindE (r_int r) (\<lambda>(owner, r).
     bindE (r_string r) (\<lambda>(ip, r).
     bindE (r_string r) (\<lambda>(port, r).
     Inr (\<lparr>ci_owner = I32 owner, ci_ip = ip, ci_port = port\<rparr>, r))))"

definition encode_UpdateComponents :: "UpdateComponents \<Rightarrow> writer \<Rightarrow> writer result" where
  "encode_UpdateComponents m w =
     encode_ComponentInfo (uc_component m) (w_int (code_of_op (uc_operation m)) w)"

definition decode_UpdateComponents :: "reader \<Rightarrow> (UpdateComponents \<times> reader) result" where
  "decode_UpdateComponents r =
     bindE (readEnum (code_of_op Op_Remove) op_of_code r) (\<lambda>(oper, r).
     bindE (decode_ComponentInfo r) (\<lambda>(info, r).
     Inr (\<lparr>uc_operation = oper, uc_component = info\<rparr>, r)))"

subsection \<open>MasterMessage\<close>

fun encode_components :: "ComponentInfo list \<Rightarrow> writer \<Rightarrow> writer result" where
  "encode_components [] w = Inr w"
| "encode_components (c # cs) w = bindE (encode_ComponentInfo c w) (\<lambda>w. encode_components cs w)"

definition encode_MasterMessage :: "MasterMessage \<Rightarrow> writer \<Rightarrow> writer result" where
  "encode_MasterMessage m w =
     encode_components (mm_all_components m)
       (w_int (of_nat (length (mm_all_components m)) :: u32) (w_int (i32_bits (mm_owner m)) w))"

fun decode_components :: "nat \<Rightarrow> reader \<Rightarrow> (ComponentInfo list \<times> reader) result" where
  "decode_components 0 r = Inr ([], r)"
| "decode_components (Suc n) r =
     bindE (decode_ComponentInfo r) (\<lambda>(c, r).
     bindE (decode_components n r) (\<lambda>(cs, r). Inr (c # cs, r)))"

definition decode_MasterMessage :: "reader \<Rightarrow> (MasterMessage \<times> reader) result" where
  "decode_MasterMessage r =
     bindE (r_int r) (\<lambda>(owner, r).
     bindE (r_int r) (\<lambda>(count :: u32, r).
       if unat count > kMaxPayload div sizeof_ComponentInfo
       then Inl (DecodeError ''implausible component count'')
       else bindE (decode_components (unat count) r) (\<lambda>(cs, r).
         Inr (\<lparr>mm_owner = I32 owner, mm_all_components = cs\<rparr>, r))))"

subsection \<open>Whole payloads\<close>

definition decodePayload :: "(reader \<Rightarrow> ('m \<times> reader) result) \<Rightarrow> byte list \<Rightarrow> 'm result" where
  "decodePayload decode payload =
     bindE (decode (new_reader payload)) (\<lambda>(message, r).
       if \<not> r_exhausted r then Inl (DecodeError ''message had unexpected trailing bytes'')
       else Inr message)"

subsection \<open>The contract of a codec\<close>

locale codec =
  fixes encode :: "'m \<Rightarrow> writer \<Rightarrow> writer result"
    and decode :: "reader \<Rightarrow> ('m \<times> reader) result"
    and admissible :: "'m \<Rightarrow> bool"
  assumes encode_appends: "encode m w = bindE (encode m []) (\<lambda>bs. Inr (w @ bs))"
    and decode_reads: "admissible m \<Longrightarrow> encode m [] = Inr bs \<Longrightarrow> reads decode m bs"
    and decode_local: "reader_local decode"
begin

lemma decodePayload_append:
  assumes "admissible m" "encode m [] = Inr bs"
  shows "decodePayload decode (bs @ rest) =
    (if rest = [] then Inr m else Inl (DecodeError ''message had unexpected trailing bytes''))"
proof -
  have "decode (new_reader (bs @ rest)) = Inr (m, advance (length bs) (new_reader (bs @ rest)))"
    by (rule readsD [OF decode_reads [OF assms]]) simp_all
  then show ?thesis
    by (simp add: decodePayload_def r_exhausted_iff)
qed

lemma roundtrip: "admissible m \<Longrightarrow> encode m [] = Inr bs \<Longrightarrow> decodePayload decode bs = Inr m"
  using decodePayload_append [of m bs "[]"] by simp

lemma trailing_rejected:
  "admissible m \<Longrightarrow> encode m [] = Inr bs \<Longrightarrow> rest \<noteq> [] \<Longrightarrow>
     decodePayload decode (bs @ rest) = Inl (DecodeError ''message had unexpected trailing bytes'')"
  using decodePayload_append [of m bs rest] by simp

lemma truncated_rejected:
  assumes "admissible m" "encode m [] = Inr (bs @ rest)" "rest \<noteq> []"
  shows "\<exists>e. decodePayload decode bs = Inl e"
proof (cases "decode (new_reader bs)")
  case (Inl e)
  then show ?thesis by (simp add: decodePayload_def)
next
  case (Inr y)
  then obtain m' r' where run: "decode (new_reader bs) = Inr (m', r')" by (cases y) simp
  obtain bs' more where b: "bs = bs' @ more" "reads decode m' bs'"
    using reader_localE [OF decode_local in_span_new_reader run] by (metis remaining_new_reader)
  have "decode (new_reader (bs @ rest)) = Inr (m', advance (length bs') (new_reader (bs @ rest)))"
    by (rule readsD [OF b(2), of _ "more @ rest"]) (simp_all add: b(1))
  moreover have "decode (new_reader (bs @ rest)) =
      Inr (m, advance (length (bs @ rest)) (new_reader (bs @ rest)))"
    by (rule readsD [OF decode_reads [OF assms(1,2)], of _ "[]"]) simp_all
  ultimately have "length bs' = length (bs @ rest)"
    by (auto simp: advance_def new_reader_def)
  then show ?thesis using b(1) assms(3) by simp
qed

lemma encode_injective:
  assumes "admissible m" "admissible m'" "encode m [] = Inr bs" "encode m' [] = Inr bs"
  shows "m = m'"
  using assms roundtrip by (metis sum.inject(2))

end

subsection \<open>The bytes of each message\<close>

definition fits :: "string \<Rightarrow> bool" where
  "fits s \<longleftrightarrow> length s \<le> kMaxPayload"

definition string_bytes :: "string \<Rightarrow> byte list" where
  "string_bytes s = le_bytes (of_nat (length s) :: u32) @ map byte_of_char s"

definition pair_bytes :: "Pair \<Rightarrow> byte list" where
  "pair_bytes p = le_bytes (i32_bits (getOwner p)) @ string_bytes (getKey p) @
     string_bytes (getValue p) @ le_bytes (code_of_ptype (getType p)) @
     le_bytes (getWriteTime p) @ le_bytes (getExpiryTime p)"

definition component_bytes :: "ComponentInfo \<Rightarrow> byte list" where
  "component_bytes c = le_bytes (i32_bits (ci_owner c)) @ string_bytes (ci_ip c) @ string_bytes (ci_port c)"

abbreviation too_long :: error where
  "too_long \<equiv> DecodeError ''string too long to encode''"

lemma w_string_eq: "w_string v w = (if fits v then Inr (w @ string_bytes v) else Inl too_long)"
  by (simp add: w_string_def fits_def string_bytes_def)

lemma reads_string_bytes [reads_intros]: "fits v \<Longrightarrow> reads r_string v (string_bytes v)"
  by (simp add: fits_def string_bytes_def reads_string)

lemma encode_Pair_eq:
  "encode_Pair p w =
     (if fits (getKey p) \<and> fits (getValue p) then Inr (w @ pair_bytes p) else Inl too_long)"
  by (simp add: encode_Pair_def w_string_eq pair_bytes_def toNanos_def)

lemma encode_Subscription_eq:
  "encode_Subscription m w =
     (if fits (sub_key m)
      then Inr (w @ string_bytes (sub_key m) @ le_bytes (i32_bits (sub_owner_id m)) @
                le_bytes (i32_bits (sub_subscriber m)) @
                le_bytes (if sub_registering m then 1 else 0 :: u8))
      else Inl too_long)"
  by (simp add: encode_Subscription_def w_string_eq w_boolean_def)

lemma encode_RemovePairRequest_eq:
  "encode_RemovePairRequest m w =
     (if fits (rp_key m) then Inr (w @ le_bytes (i32_bits (rp_owner m)) @ string_bytes (rp_key m))
      else Inl too_long)"
  by (simp add: encode_RemovePairRequest_def w_string_eq)

lemma encode_IndicatePresence_eq:
  "encode_IndicatePresence m w =
     (if fits (ip_port m)
      then Inr (w @ string_bytes (ip_port m) @ le_bytes (if ip_force_owner_id m then 1 else 0 :: u8) @
                le_bytes (i32_bits (ip_owner_id m)))
      else Inl too_long)"
  by (simp add: encode_IndicatePresence_def w_string_eq w_boolean_def)

lemma encode_ComponentInfo_eq:
  "encode_ComponentInfo c w =
     (if fits (ci_ip c) \<and> fits (ci_port c) then Inr (w @ component_bytes c) else Inl too_long)"
  by (simp add: encode_ComponentInfo_def w_string_eq component_bytes_def)

lemma encode_UpdateComponents_eq:
  "encode_UpdateComponents m w =
     (if fits (ci_ip (uc_component m)) \<and> fits (ci_port (uc_component m))
      then Inr (w @ le_bytes (code_of_op (uc_operation m)) @ component_bytes (uc_component m))
      else Inl too_long)"
  by (simp add: encode_UpdateComponents_def encode_ComponentInfo_eq)

definition all_fit :: "ComponentInfo list \<Rightarrow> bool" where
  "all_fit cs \<longleftrightarrow> (\<forall>c \<in> set cs. fits (ci_ip c) \<and> fits (ci_port c))"

lemma encode_components_eq:
  "encode_components cs w =
     (if all_fit cs then Inr (w @ concat (map component_bytes cs)) else Inl too_long)"
  by (induction cs arbitrary: w) (auto simp: encode_ComponentInfo_eq all_fit_def)

lemma encode_MasterMessage_eq:
  "encode_MasterMessage m w =
     (if all_fit (mm_all_components m)
      then Inr (w @ le_bytes (i32_bits (mm_owner m)) @
                le_bytes (of_nat (length (mm_all_components m)) :: u32) @
                concat (map component_bytes (mm_all_components m)))
      else Inl too_long)"
  by (simp add: encode_MasterMessage_def encode_components_eq)

subsection \<open>What each decoder reads\<close>

lemma reads_enum:
  assumes "code \<le> highest" "to_enum code = x"
  shows "reads (readEnum highest to_enum) x (le_bytes code)"
proof -
  have "reads (\<lambda>r. bindE (r_int r) (\<lambda>(raw, r).
      (if raw > highest then (\<lambda>r. Inl (DecodeError ''enum value out of range''))
       else (\<lambda>r. Inr (to_enum raw, r))) r)) x (le_bytes code @ [])"
    using assms by (intro reads_bind [where x = code] reads_int) (auto simp: reads_return)
  then show ?thesis
    by (simp add: readEnum_def [abs_def] if_distribR cong: if_cong)
qed

lemma code_of_ptype_range [simp]:
  "code_of_ptype t \<le> 3" "ptype_of_code (code_of_ptype t) = t"
  by (cases t; simp add: ptype_of_code_def)+

lemma code_of_op_range [simp]: "code_of_op x \<le> 1" "op_of_code (code_of_op x) = x"
  by (cases x; simp add: op_of_code_def)+

lemma reads_ptype [reads_intros]:
  "reads (readEnum 3 ptype_of_code) t (le_bytes (code_of_ptype t))"
  by (rule reads_enum) simp_all

lemma reads_op [reads_intros]: "reads (readEnum 1 op_of_code) x (le_bytes (code_of_op x))"
  by (rule reads_enum) simp_all

lemma reads_bind_last:
  assumes "reads f x bs" "y = h x"
  shows "reads (\<lambda>r. bindE (f r) (\<lambda>(x, r). Inr (h x, r))) y bs"
  using reads_bind [OF assms(1) reads_return, of h] assms(2) by simp

lemmas reads_codec = reads_int reads_boolean reads_string_bytes reads_ptype reads_op
  reads_bind reads_bind_last

lemma reads_Pair:
  assumes "fits (getKey p)" "fits (getValue p)"
  shows "reads decode_Pair p (pair_bytes p)"
  unfolding decode_Pair_def [abs_def] pair_bytes_def code_of_ptype.simps
  by (rule reads_codec assms size_dvd)+ (simp add: fromNanos_def pair_setters default_pair_def)

lemma reads_ComponentInfo:
  "fits (ci_ip c) \<Longrightarrow> fits (ci_port c) \<Longrightarrow> reads decode_ComponentInfo c (component_bytes c)"
  unfolding decode_ComponentInfo_def [abs_def] component_bytes_def
  by (rule reads_codec size_dvd | assumption)+ simp

lemma reads_components:
  "all_fit cs \<Longrightarrow> reads (decode_components (length cs)) cs (concat (map component_bytes cs))"
proof (induction cs)
  case Nil
  then show ?case by (simp add: reads_def)
next
  case (Cons c cs)
  then have "reads (\<lambda>r. bindE (decode_ComponentInfo r) (\<lambda>(c, r).
      bindE (decode_components (length cs) r) (\<lambda>(cs, r). Inr (c # cs, r)))) (c # cs)
      (component_bytes c @ concat (map component_bytes cs))"
    by (intro reads_bind [where x = c] reads_bind_last [where x = cs] reads_ComponentInfo)
      (auto simp: all_fit_def)
  then show ?case by simp
qed

subsection \<open>The decoders are local\<close>

lemma reader_local_if [local_intros]:
  "reader_local f \<Longrightarrow> reader_local g \<Longrightarrow> reader_local (\<lambda>r. if b then f r else g r)"
  by (cases b) simp_all

lemma local_enum [local_intros]: "reader_local (readEnum highest to_enum)"
  unfolding readEnum_def [abs_def] by (intro local_intros size_dvd)

lemma local_Pair: "reader_local decode_Pair"
  unfolding decode_Pair_def [abs_def] by (intro local_intros size_dvd)

lemma local_Subscription: "reader_local decode_Subscription"
  unfolding decode_Subscription_def [abs_def] by (intro local_intros size_dvd)

lemma local_RemovePairRequest: "reader_local decode_RemovePairRequest"
  unfolding decode_RemovePairRequest_def [abs_def] by (intro local_intros size_dvd)

lemma local_IndicatePresence: "reader_local decode_IndicatePresence"
  unfolding decode_IndicatePresence_def [abs_def] by (intro local_intros size_dvd)

lemma local_ComponentInfo [local_intros]: "reader_local decode_ComponentInfo"
  unfolding decode_ComponentInfo_def [abs_def] by (intro local_intros size_dvd)

lemma local_UpdateComponents: "reader_local decode_UpdateComponents"
  unfolding decode_UpdateComponents_def [abs_def] by (intro local_intros size_dvd)

lemma local_components [local_intros]: "reader_local (decode_components n)"
proof (induction n)
  case 0
  have "reader_local (\<lambda>r. Inr ([] :: ComponentInfo list, r))" by (rule reader_local_return)
  then show ?case by (simp add: reader_local_def reads_def)
next
  case (Suc n)
  have "reader_local (\<lambda>r. bindE (decode_ComponentInfo r) (\<lambda>(c, r).
      bindE (decode_components n r) (\<lambda>(cs, r). Inr (c # cs, r))))"
    by (intro local_intros Suc.IH)
  moreover have "decode_components (Suc n) = (\<lambda>r. bindE (decode_ComponentInfo r) (\<lambda>(c, r).
      bindE (decode_components n r) (\<lambda>(cs, r). Inr (c # cs, r))))"
    by (rule ext) simp
  ultimately show ?case by simp
qed

lemma local_MasterMessage: "reader_local decode_MasterMessage"
  unfolding decode_MasterMessage_def [abs_def] by (intro local_intros size_dvd)

subsection \<open>The seven codecs\<close>

definition plausible :: "MasterMessage \<Rightarrow> bool" where
  "plausible m \<longleftrightarrow> length (mm_all_components m) \<le> kMaxPayload div sizeof_ComponentInfo"

lemma reads_MasterMessage:
  assumes "plausible m" "all_fit (mm_all_components m)"
  shows "reads decode_MasterMessage m (le_bytes (i32_bits (mm_owner m)) @
     le_bytes (of_nat (length (mm_all_components m)) :: u32) @
     concat (map component_bytes (mm_all_components m)))"
proof -
  let ?n = "length (mm_all_components m)"
  have small: "?n \<le> kMaxPayload div sizeof_ComponentInfo" "unat (of_nat ?n :: u32) = ?n"
    using assms(1) by (simp_all add: plausible_def kMaxPayload_def sizeof_ComponentInfo_def unat_of_nat)
  have "reads (\<lambda>r. if unat (of_nat ?n :: u32) > kMaxPayload div sizeof_ComponentInfo
       then Inl (DecodeError ''implausible component count'')
       else bindE (decode_components (unat (of_nat ?n :: u32)) r) (\<lambda>(cs, r).
         Inr (\<lparr>mm_owner = mm_owner m, mm_all_components = cs\<rparr>, r))) m
      (concat (map component_bytes (mm_all_components m)))"
    using small assms(2)
    by (simp add: not_less) (intro reads_bind_last [where x = "mm_all_components m"] reads_components, auto)
  note body = this
  show ?thesis
    unfolding decode_MasterMessage_def [abs_def]
    by (rule reads_bind reads_int size_dvd)+ (simp only: i32.collapse body)
qed

interpretation pair_codec: codec encode_Pair decode_Pair "\<lambda>_. True"
  by unfold_locales (auto simp: encode_Pair_eq reads_Pair local_Pair split: if_splits)

interpretation sub_codec: codec encode_Subscription decode_Subscription "\<lambda>_. True"
proof
  fix m bs assume "encode_Subscription m [] = Inr bs"
  then have fit: "fits (sub_key m)" and bs: "bs = string_bytes (sub_key m) @
      le_bytes (i32_bits (sub_owner_id m)) @ le_bytes (i32_bits (sub_subscriber m)) @
      le_bytes (if sub_registering m then 1 else 0 :: u8)"
    by (simp_all add: encode_Subscription_eq split: if_splits)
  show "reads decode_Subscription m bs"
    unfolding bs decode_Subscription_def [abs_def] by (rule reads_codec size_dvd fit)+ simp
qed (simp_all add: encode_Subscription_eq local_Subscription)

interpretation remove_codec: codec encode_RemovePairRequest decode_RemovePairRequest "\<lambda>_. True"
proof
  fix m bs assume "encode_RemovePairRequest m [] = Inr bs"
  then have fit: "fits (rp_key m)" and
    bs: "bs = le_bytes (i32_bits (rp_owner m)) @ string_bytes (rp_key m)"
    by (simp_all add: encode_RemovePairRequest_eq split: if_splits)
  show "reads decode_RemovePairRequest m bs"
    unfolding bs decode_RemovePairRequest_def [abs_def] by (rule reads_codec size_dvd fit)+ simp
qed (simp_all add: encode_RemovePairRequest_eq local_RemovePairRequest)

interpretation presence_codec: codec encode_IndicatePresence decode_IndicatePresence "\<lambda>_. True"
proof
  fix m bs assume "encode_IndicatePresence m [] = Inr bs"
  then have fit: "fits (ip_port m)" and bs: "bs = string_bytes (ip_port m) @
      le_bytes (if ip_force_owner_id m then 1 else 0 :: u8) @ le_bytes (i32_bits (ip_owner_id m))"
    by (simp_all add: encode_IndicatePresence_eq split: if_splits)
  show "reads decode_IndicatePresence m bs"
    unfolding bs decode_IndicatePresence_def [abs_def] by (rule reads_codec size_dvd fit)+ simp
qed (simp_all add: encode_IndicatePresence_eq local_IndicatePresence)

interpretation component_codec: codec encode_ComponentInfo decode_ComponentInfo "\<lambda>_. True"
  by unfold_locales
    (auto simp: encode_ComponentInfo_eq reads_ComponentInfo local_ComponentInfo split: if_splits)

interpretation update_codec: codec encode_UpdateComponents decode_UpdateComponents "\<lambda>_. True"
proof
  fix m bs assume "encode_UpdateComponents m [] = Inr bs"
  then have fit: "fits (ci_ip (uc_component m))" "fits (ci_port (uc_component m))" and
    bs: "bs = le_bytes (code_of_op (uc_operation m)) @ component_bytes (uc_component m)"
    by (simp_all add: encode_UpdateComponents_eq split: if_splits)
  show "reads decode_UpdateComponents m bs"
    unfolding bs decode_UpdateComponents_def [abs_def] code_of_op.simps
    by (rule reads_codec reads_ComponentInfo size_dvd fit)+ simp
qed (simp_all add: encode_UpdateComponents_eq local_UpdateComponents)

interpretation master_codec: codec encode_MasterMessage decode_MasterMessage plausible
  by unfold_locales
    (auto simp: encode_MasterMessage_eq reads_MasterMessage local_MasterMessage split: if_splits)

subsection \<open>Decoding a pair inverts encoding it\<close>

lemma r_int_inv:
  assumes "8 dvd LENGTH('a::len)" "in_span r" "r_int r = Inr (v :: 'a word, r')"
  shows "\<exists>rest. remaining r = le_bytes v @ rest \<and> in_span r' \<and> remaining r' = rest"
proof -
  let ?n = "LENGTH('a) div 8"
  have "?n \<le> length (remaining r)" "v = le_value (take ?n (remaining r))" "r' = advance ?n r"
    using assms by (simp_all add: r_int_eq split: if_splits)
  moreover from this have "remaining r = le_bytes v @ drop ?n (remaining r)"
    by (simp add: le_bytes_le_value)
  ultimately show ?thesis using assms(2) by simp
qed

lemma r_string_inv:
  assumes "in_span r" "r_string r = Inr (s, r')"
  shows "\<exists>rest. remaining r = string_bytes s @ rest \<and> in_span r' \<and> remaining r' = rest"
proof -
  obtain len :: u32 and r1 where len: "r_int r = Inr (len, r1)" and cs: "r_chars (unat len) r1 = Inr (s, r')"
    using assms(2) by (auto simp: r_string_alt bindE_eq_Inr)
  obtain rest where r1: "remaining r = le_bytes len @ rest" "in_span r1" "remaining r1 = rest"
    using r_int_inv [OF _ assms(1) len] by auto
  have s: "unat len \<le> length rest" "s = map char_of_byte (take (unat len) rest)"
    "r' = advance (unat len) r1"
    using cs r1 by (auto simp: r_chars_def r_require_iff split: if_splits)
  then have "length s = unat len" "map byte_of_char s = take (unat len) rest" by simp_all
  then have "remaining r = string_bytes s @ drop (unat len) rest"
    using r1(1) by (simp add: string_bytes_def)
  then show ?thesis using r1 s by simp
qed

lemma readEnum_inv:
  assumes "in_span r" "readEnum highest to_enum r = Inr (x, r')"
  shows "\<exists>code rest. remaining r = le_bytes code @ rest \<and> code \<le> highest \<and> x = to_enum code \<and>
    in_span r' \<and> remaining r' = rest"
proof -
  obtain code where code: "r_int r = Inr (code, r')" "code \<le> highest" "x = to_enum code"
    using assms(2) by (auto simp: readEnum_def bindE_eq_Inr split: if_splits)
  then show ?thesis using r_int_inv [OF _ assms(1) code(1)] by auto
qed

lemma code_of_ptype_of_code: "c \<le> 3 \<Longrightarrow> code_of_ptype (ptype_of_code c) = c"
proof -
  assume "c \<le> 3"
  then have "unat c \<in> {0, 1, 2, 3}" by (auto simp: word_le_nat_alt)
  then have "c \<in> {0, 1, 2, 3}" by (auto simp: word_unat_eq_iff)
  then show ?thesis by (auto simp: ptype_of_code_def)
qed

lemma decode_Pair_inv:
  assumes "in_span r" "decode_Pair r = Inr (p, r')"
  shows "\<exists>rest. remaining r = pair_bytes p @ rest \<and> in_span r' \<and> remaining r' = rest"
proof -
  obtain owner r1 key r2 "value" r3 ty r4 written r5 expiry
    where run: "r_int r = Inr (owner, r1)" "r_string r1 = Inr (key, r2)" "r_string r2 = Inr (value, r3)"
      "readEnum 3 ptype_of_code r3 = Inr (ty, r4)" "r_int r4 = Inr (written, r5)"
      "r_int r5 = Inr (expiry, r')"
    and p: "p = \<lparr>getOwner = I32 owner, getKey = key, getValue = value, getType = ty,
                 getWriteTime = written, getExpiryTime = expiry\<rparr>"
    using assms(2)
    by (auto simp: decode_Pair_def bindE_eq_Inr fromNanos_def pair_setters default_pair_def)
  obtain b1 where 1: "remaining r = le_bytes owner @ b1" "in_span r1" "remaining r1 = b1"
    using r_int_inv [OF _ assms(1) run(1)] by auto
  obtain b2 where 2: "b1 = string_bytes key @ b2" "in_span r2" "remaining r2 = b2"
    using r_string_inv [OF 1(2) run(2)] 1(3) by auto
  obtain b3 where 3: "b2 = string_bytes value @ b3" "in_span r3" "remaining r3 = b3"
    using r_string_inv [OF 2(2) run(3)] 2(3) by auto
  obtain code b4 where 4: "b3 = le_bytes code @ b4" "code \<le> 3" "ty = ptype_of_code code"
      "in_span r4" "remaining r4 = b4"
    using readEnum_inv [OF 3(2) run(4)] 3(3) by auto
  obtain b5 where 5: "b4 = le_bytes written @ b5" "in_span r5" "remaining r5 = b5"
    using r_int_inv [OF _ 4(4) run(5)] 4(5) by auto
  obtain b6 where 6: "b5 = le_bytes expiry @ b6" "in_span r'" "remaining r' = b6"
    using r_int_inv [OF _ 5(2) run(6)] 5(3) by auto
  from 1 2 3 4 5 6 show ?thesis by (simp add: p pair_bytes_def code_of_ptype_of_code)
qed

lemma decodePayload_Pair_inv: "decodePayload decode_Pair bs = Inr p \<Longrightarrow> bs = pair_bytes p"
proof -
  assume "decodePayload decode_Pair bs = Inr p"
  then obtain r' where run: "decode_Pair (new_reader bs) = Inr (p, r')" and ex: "r_exhausted r'"
    by (auto simp: decodePayload_def bindE_eq_Inr split: if_splits)
  then show ?thesis
    using decode_Pair_inv [OF in_span_new_reader run] by (auto simp: r_exhausted_iff)
qed

subsection \<open>Which pairs can be framed\<close>

lemma length_pair_bytes: "length (pair_bytes p) = 29 + length (getKey p) + length (getValue p)"
  by (simp add: pair_bytes_def string_bytes_def)

lemma frameOf_Pair_ok_iff:
  "(\<exists>fr. frameOf encode_Pair ty p = Inr fr) \<longleftrightarrow>
     29 + length (getKey p) + length (getValue p) \<le> kMaxPayload"
  by (auto simp: frameOf_def encode_Pair_eq frame_def length_pair_bytes fits_def)

lemma frameOf_Pair_fails_iff:
  "(\<exists>e. frameOf encode_Pair ty p = Inl e) \<longleftrightarrow>
     kMaxPayload < 29 + length (getKey p) + length (getValue p)"
  by (auto simp: frameOf_def encode_Pair_eq frame_def length_pair_bytes fits_def)

subsection \<open>Properties\<close>

text \<open>
  A pair that can be encoded is recovered exactly by \<open>decodePayload\<close>; the same payload with anything
  after it, and every proper prefix of it, is refused with a \<^verbatim>\<open>DecodeError\<close>.
\<close>

lemma Pair_payload_roundtrip:
  assumes "encode_Pair p [] = Inr bs"
  shows "decodePayload decode_Pair bs = Inr p \<and>
    (\<forall>rest. rest \<noteq> [] \<longrightarrow> decodePayload decode_Pair (bs @ rest) =
        Inl (DecodeError ''message had unexpected trailing bytes'')) \<and>
    (\<forall>n < length bs. \<exists>e. decodePayload decode_Pair (take n bs) = Inl e)"
proof (intro conjI allI impI)
  show "decodePayload decode_Pair bs = Inr p"
    using assms by (intro pair_codec.roundtrip) simp_all
  show "decodePayload decode_Pair (bs @ rest) =
      Inl (DecodeError ''message had unexpected trailing bytes'')" if "rest \<noteq> []" for rest
    using assms that by (intro pair_codec.trailing_rejected) simp_all
  show "\<exists>e. decodePayload decode_Pair (take n bs) = Inl e" if "n < length bs" for n
    using assms that by (intro pair_codec.truncated_rejected [of p _ "drop n bs"]) simp_all
qed

text \<open>
  A payload that decodes to a pair is the one byte sequence that encodes it, so decoding and
  re-encoding changes nothing on the wire (booleans, which accept any non-zero byte, are the only
  field of the protocol where this fails).
\<close>

lemma Pair_decode_canonical:
  assumes "decodePayload decode_Pair bs = Inr p" "length bs \<le> kMaxPayload"
  shows "encode_Pair p [] = Inr bs"
proof -
  have bs: "bs = pair_bytes p" using assms(1) by (rule decodePayload_Pair_inv)
  then have "fits (getKey p)" "fits (getValue p)"
    using assms(2) by (simp_all add: pair_bytes_def string_bytes_def fits_def)
  then show ?thesis by (simp add: encode_Pair_eq bs)
qed

text \<open>
  C17. All seven messages: whatever the encoder produces, \<open>decodePayload\<close> turns back into the message, for
  a master's reply as long as its component count is one the decoder finds plausible. A pair's payload
  that is cut short is refused.
\<close>

theorem message_payload_roundtrips:
  "(encode_Pair p [] = Inr b0 \<longrightarrow> decodePayload decode_Pair b0 = Inr p \<and>
      (\<forall>n < length b0. \<exists>e. decodePayload decode_Pair (take n b0) = Inl e)) \<and>
   (encode_Subscription s [] = Inr b1 \<longrightarrow> decodePayload decode_Subscription b1 = Inr s) \<and>
   (encode_RemovePairRequest q [] = Inr b2 \<longrightarrow> decodePayload decode_RemovePairRequest b2 = Inr q) \<and>
   (encode_IndicatePresence i [] = Inr b3 \<longrightarrow> decodePayload decode_IndicatePresence b3 = Inr i) \<and>
   (encode_ComponentInfo c [] = Inr b4 \<longrightarrow> decodePayload decode_ComponentInfo b4 = Inr c) \<and>
   (encode_UpdateComponents u [] = Inr b5 \<longrightarrow> decodePayload decode_UpdateComponents b5 = Inr u) \<and>
   (encode_MasterMessage m [] = Inr b6 \<longrightarrow>
      length (mm_all_components m) \<le> kMaxPayload div sizeof_ComponentInfo \<longrightarrow>
      decodePayload decode_MasterMessage b6 = Inr m)"
  using Pair_payload_roundtrip [of p b0]
  by (intro conjI impI)
    (auto intro: sub_codec.roundtrip remove_codec.roundtrip presence_codec.roundtrip
      component_codec.roundtrip update_codec.roundtrip master_codec.roundtrip simp: plausible_def)

theorem message_payload_roundtrips_witness:
  "\<exists>b0 b1 b2 b3 b4 b5 b6.
     decodePayload decode_Pair b0 = Inr (new_pair (I32 7) ''k'' ''v'' PT_String) \<and>
     decodePayload decode_Subscription b1 = Inr \<lparr>sub_key = ''*'', sub_owner_id = I32 1000,
       sub_subscriber = I32 1001, sub_registering = True\<rparr> \<and>
     decodePayload decode_RemovePairRequest b2 = Inr \<lparr>rp_owner = I32 1000, rp_key = ''k''\<rparr> \<and>
     decodePayload decode_IndicatePresence b3 = Inr \<lparr>ip_port = ''4000'', ip_force_owner_id = False,
       ip_owner_id = I32 (-1)\<rparr> \<and>
     decodePayload decode_ComponentInfo b4 = Inr \<lparr>ci_owner = I32 1000, ci_ip = ''h'', ci_port = ''1''\<rparr> \<and>
     decodePayload decode_UpdateComponents b5 = Inr \<lparr>uc_operation = Op_Remove,
       uc_component = \<lparr>ci_owner = I32 1000, ci_ip = [], ci_port = []\<rparr>\<rparr> \<and>
     decodePayload decode_MasterMessage b6 = Inr \<lparr>mm_owner = I32 1001,
       mm_all_components = [\<lparr>ci_owner = I32 1000, ci_ip = ''h'', ci_port = ''1''\<rparr>]\<rparr>"
  by (intro exI conjI,
    (rule message_payload_roundtrips [THEN conjunct1, THEN mp, THEN conjunct1]
          message_payload_roundtrips [THEN conjunct2, THEN conjunct1, THEN mp]
          message_payload_roundtrips [THEN conjunct2, THEN conjunct2, THEN conjunct1, THEN mp]
          message_payload_roundtrips [THEN conjunct2, THEN conjunct2, THEN conjunct2, THEN conjunct1, THEN mp]
          message_payload_roundtrips [THEN conjunct2, THEN conjunct2, THEN conjunct2, THEN conjunct2, THEN conjunct1,
            THEN mp]
          message_payload_roundtrips [THEN conjunct2, THEN conjunct2, THEN conjunct2, THEN conjunct2, THEN conjunct2,
            THEN conjunct1, THEN mp]
          message_payload_roundtrips [THEN conjunct2, THEN conjunct2, THEN conjunct2, THEN conjunct2, THEN conjunct2,
            THEN conjunct2, THEN mp, THEN mp],
      simp add: encode_Pair_eq new_pair_def encode_Subscription_eq encode_RemovePairRequest_eq encode_IndicatePresence_eq
        encode_ComponentInfo_eq encode_UpdateComponents_eq encode_MasterMessage_eq fits_def all_fit_def
        kMaxPayload_def sizeof_ComponentInfo_def)+,
    simp add: kMaxPayload_def sizeof_ComponentInfo_def)

end
