(* ===== verification/Frame_Channel.thy ===== *)
theory Frame_Channel
  imports Codec "HOL-Library.Sublist"
begin

text \<open>
  \<^verbatim>\<open>include/srnp/session.h\<close> and \<^verbatim>\<open>src/session.cpp\<close>: reading whole frames off a socket, and the bounded
  outbox with its drain coroutine.

  The socket a channel reads from is the byte stream still to come; a read of \<open>n\<close> bytes takes them or
  throws at the end of the stream. The outbox is a \<^verbatim>\<open>std::list\<close> whose iterators are kept in
  \<^verbatim>\<open>coalescable_\<close>, so each node carries an address and the index maps a key to an address: a dangling
  iterator would be an address no node has. \<open>drains\<close> holds the program counters of the running
  \<^verbatim>\<open>drainOutbox\<close> coroutines, \<open>wire_out\<close> the frames already written, with the key each was queued under.

  A critical section under \<^verbatim>\<open>outbox_mutex_\<close> is one atomic step; \<open>ch_reach\<close> interleaves the sections of
  sends, of the drain, of write failures and of a close in any order, so a close may fall between the
  test of \<^verbatim>\<open>closed_\<close> in \<^verbatim>\<open>send\<close> and its locked part. The lemmas show that the queue stays within its cap, no
  iterator dangles, one drain runs at a time, frames without a key are neither lost nor reordered, the
  values of a key never go backwards, and where coalescing breaks the order between an update and a
  removal of the same key.
\<close>

subsection \<open>Reading\<close>

record Frame =
  fr_header :: FrameHeader
  fr_payload :: "byte list"

definition async_read :: "nat \<Rightarrow> byte list \<Rightarrow> (byte list \<times> byte list) result" where
  "async_read n input =
     (if length input < n then Inl (SocketError ''End of file'')
      else Inr (take n input, drop n input))"

definition channel_read :: "byte list \<Rightarrow> (Frame \<times> byte list) result" where
  "channel_read input =
     bindE (async_read kHeaderSize input) (\<lambda>(hdr, input).
     bindE (decodeHeader hdr) (\<lambda>h.
       if unat (payload_length h) > 0
       then bindE (async_read (unat (payload_length h)) input) (\<lambda>(payload, input).
              Inr (\<lparr>fr_header = h, fr_payload = payload\<rparr>, input))
       else Inr (\<lparr>fr_header = h, fr_payload = []\<rparr>, input)))"

text \<open>The read loop of a session for a known number of frames.\<close>

fun read_frames :: "nat \<Rightarrow> byte list \<Rightarrow> (Frame list \<times> byte list) result" where
  "read_frames 0 input = Inr ([], input)"
| "read_frames (Suc n) input =
     bindE (channel_read input) (\<lambda>(f, input).
     bindE (read_frames n input) (\<lambda>(fs, input). Inr (f # fs, input)))"

subsection \<open>The outbox\<close>

definition kMaxOutboxFrames :: nat where "kMaxOutboxFrames = 4096"

record Outbound =
  ob_bytes :: "byte list"
  ob_key :: "PairKey option"

datatype drain_pc = DrainTop | DrainWriting Outbound

record FrameChannel =
  outbox :: "(nat \<times> Outbound) list"
  coalescable :: "(PairKey, nat) std_map"
  writing :: bool
  closed :: bool
  drains :: "drain_pc list"
  wire_out :: "Outbound list"
  next_node :: nat

definition new_channel :: FrameChannel where
  "new_channel = \<lparr>outbox = [], coalescable = m_empty, writing = False, closed = False,
                  drains = [], wire_out = [], next_node = 0\<rparr>"

text \<open>The loop that looks for the oldest frame that may be dropped, from the front of the queue.\<close>

fun drop_oldest :: "(nat \<times> Outbound) list \<Rightarrow> (PairKey \<times> (nat \<times> Outbound) list) option" where
  "drop_oldest [] = None"
| "drop_oldest (x # xs) =
     (case ob_key (snd x) of
        Some k \<Rightarrow> Some (k, xs)
      | None \<Rightarrow> map_option (\<lambda>(k, ys). (k, x # ys)) (drop_oldest xs))"

definition replace_bytes :: "nat \<Rightarrow> byte list \<Rightarrow> (nat \<times> Outbound) list \<Rightarrow> (nat \<times> Outbound) list" where
  "replace_bytes node fr =
     map (\<lambda>(n, ob). (n, if n = node then ob\<lparr>ob_bytes := fr\<rparr> else ob))"

definition makeRoomLocked ::
    "PairKey option \<Rightarrow> byte list \<Rightarrow> FrameChannel \<Rightarrow> bool \<times> FrameChannel" where
  "makeRoomLocked key fr c =
     (if length (outbox c) < kMaxOutboxFrames then (False, c)
      else case Option.bind key (m_find (coalescable c)) of
          Some node \<Rightarrow> (True, c\<lparr>outbox := replace_bytes node fr (outbox c)\<rparr>)
        | None \<Rightarrow>
            (case drop_oldest (outbox c) of
               Some (k, rest) \<Rightarrow>
                 (False, c\<lparr>coalescable := m_erase k (coalescable c), outbox := rest\<rparr>)
             | None \<Rightarrow> (False, c)))"

text \<open>\<^verbatim>\<open>close\<close> in its two steps: the exchange of the flag, then the locked part.\<close>

definition close_flag :: "FrameChannel \<Rightarrow> FrameChannel" where
  "close_flag c = c\<lparr>closed := True\<rparr>"

definition close_locked :: "FrameChannel \<Rightarrow> FrameChannel" where
  "close_locked c = c\<lparr>outbox := [], coalescable := m_empty\<rparr>"

definition channel_close :: "FrameChannel \<Rightarrow> FrameChannel" where
  "channel_close c = (if closed c then c else close_locked (close_flag c))"

definition push_outbound :: "Outbound \<Rightarrow> FrameChannel \<Rightarrow> FrameChannel" where
  "push_outbound ob c =
     c\<lparr>outbox := outbox c @ [(next_node c, ob)],
       next_node := Suc (next_node c),
       coalescable := (case ob_key ob of None \<Rightarrow> coalescable c
                       | Some k \<Rightarrow> m_assign k (next_node c) (coalescable c))\<rparr>"

text \<open>
  The locked part of \<^verbatim>\<open>send\<close>; the flag it returns is \<^verbatim>\<open>overfull\<close>. Spawning the drain only makes it
  runnable, so it is part of this step: the new drain is at the top of its loop.
\<close>

definition send_locked :: "Outbound \<Rightarrow> FrameChannel \<Rightarrow> bool \<times> FrameChannel" where
  "send_locked ob c =
     (case makeRoomLocked (ob_key ob) (ob_bytes ob) c of
        (True, c) \<Rightarrow> (False, c)
      | (False, c) \<Rightarrow>
          if length (outbox c) \<ge> kMaxOutboxFrames then (True, c)
          else let c = push_outbound ob c
               in (False, if writing c then c
                          else c\<lparr>writing := True, drains := drains c @ [DrainTop]\<rparr>))"

definition channel_send :: "byte list \<Rightarrow> PairKey option \<Rightarrow> FrameChannel \<Rightarrow> FrameChannel" where
  "channel_send fr key c =
     (if closed c then c
      else case send_locked \<lparr>ob_bytes = fr, ob_key = key\<rparr> c of
             (overfull, c) \<Rightarrow> if overfull then channel_close c else c)"

definition outboxSize :: "FrameChannel \<Rightarrow> nat" where
  "outboxSize c = length (outbox c)"

text \<open>
  The \<open>i\<close>-th running drain: at the top of its loop it either stops or takes the front frame and starts
  writing it; a completed write returns to the top, a failed one drops what is queued and stops.
\<close>

definition remove_nth :: "nat \<Rightarrow> 'a list \<Rightarrow> 'a list" where
  "remove_nth i xs = take i xs @ drop (Suc i) xs"

definition drain_top :: "nat \<Rightarrow> FrameChannel \<Rightarrow> FrameChannel" where
  "drain_top i c =
     (if outbox c = [] \<or> closed c then c\<lparr>writing := False, drains := remove_nth i (drains c)\<rparr>
      else let ob = snd (hd (outbox c))
           in c\<lparr>outbox := tl (outbox c),
                coalescable := (case ob_key ob of None \<Rightarrow> coalescable c
                                | Some k \<Rightarrow> m_erase k (coalescable c)),
                drains := (drains c)[i := DrainWriting ob]\<rparr>)"

definition drain_written :: "nat \<Rightarrow> Outbound \<Rightarrow> FrameChannel \<Rightarrow> FrameChannel" where
  "drain_written i ob c = c\<lparr>wire_out := wire_out c @ [ob], drains := (drains c)[i := DrainTop]\<rparr>"

definition drain_failed :: "nat \<Rightarrow> FrameChannel \<Rightarrow> FrameChannel" where
  "drain_failed i c = c\<lparr>outbox := [], coalescable := m_empty, writing := False,
                        drains := remove_nth i (drains c)\<rparr>"

text \<open>A drain left alone with a socket that accepts every write, for at most \<open>n\<close> frames.\<close>

fun run_drain :: "nat \<Rightarrow> FrameChannel \<Rightarrow> FrameChannel" where
  "run_drain 0 c = c"
| "run_drain (Suc n) c =
     (case drains c of
        [] \<Rightarrow> c
      | DrainWriting ob # _ \<Rightarrow> run_drain n (drain_written 0 ob c)
      | DrainTop # _ \<Rightarrow> run_drain n (drain_top 0 c))"

text \<open>
  The channels a run can reach. The first argument is the list of frames passed to \<open>send\<close>, the second
  says that no write has failed and no send has found the queue full of undroppable frames (after
  which the channel is closed).
\<close>

inductive ch_reach :: "Outbound list \<Rightarrow> bool \<Rightarrow> FrameChannel \<Rightarrow> bool" where
  start: "ch_reach [] True new_channel"
| dropped: "ch_reach sent ok c \<Longrightarrow> closed c \<Longrightarrow> ch_reach (sent @ [ob]) ok c"
| sent: "ch_reach sent ok c \<Longrightarrow> send_locked ob c = (overfull, c') \<Longrightarrow>
    ch_reach (sent @ [ob]) (ok \<and> \<not> overfull) c'"
| top: "ch_reach sent ok c \<Longrightarrow> i < length (drains c) \<Longrightarrow> drains c ! i = DrainTop \<Longrightarrow>
    ch_reach sent ok (drain_top i c)"
| written: "ch_reach sent ok c \<Longrightarrow> i < length (drains c) \<Longrightarrow> drains c ! i = DrainWriting ob \<Longrightarrow>
    ch_reach sent ok (drain_written i ob c)"
| failed: "ch_reach sent ok c \<Longrightarrow> i < length (drains c) \<Longrightarrow> drains c ! i = DrainWriting ob \<Longrightarrow>
    ch_reach sent False (drain_failed i c)"
| close_begin: "ch_reach sent ok c \<Longrightarrow> ch_reach sent ok (close_flag c)"
| close_end: "ch_reach sent ok c \<Longrightarrow> closed c \<Longrightarrow> ch_reach sent ok (close_locked c)"

text \<open>The channels to a peer that keeps up: every send finds room, and no write fails.\<close>

inductive keeps_up :: "Outbound list \<Rightarrow> FrameChannel \<Rightarrow> bool" where
  up_start: "keeps_up [] new_channel"
| up_sent: "keeps_up sent c \<Longrightarrow> length (outbox c) < kMaxOutboxFrames \<Longrightarrow> send_locked ob c = (overfull, c') \<Longrightarrow>
    keeps_up (sent @ [ob]) c'"
| up_top: "keeps_up sent c \<Longrightarrow> i < length (drains c) \<Longrightarrow> drains c ! i = DrainTop \<Longrightarrow> keeps_up sent (drain_top i c)"
| up_written: "keeps_up sent c \<Longrightarrow> i < length (drains c) \<Longrightarrow> drains c ! i = DrainWriting ob \<Longrightarrow>
    keeps_up sent (drain_written i ob c)"

subsection \<open>Observations\<close>

text \<open>Everything that has left or will leave the channel, in order: written, being written, queued.\<close>

definition in_flight :: "FrameChannel \<Rightarrow> Outbound list" where
  "in_flight c = concat (map (\<lambda>d. case d of DrainTop \<Rightarrow> [] | DrainWriting ob \<Rightarrow> [ob]) (drains c))"

definition stream :: "FrameChannel \<Rightarrow> Outbound list" where
  "stream c = wire_out c @ in_flight c @ map snd (outbox c)"

definition control :: "Outbound list \<Rightarrow> Outbound list" where
  "control obs = filter (\<lambda>ob. ob_key ob = None) obs"

definition updates_of :: "PairKey \<Rightarrow> Outbound list \<Rightarrow> Outbound list" where
  "updates_of k obs = filter (\<lambda>ob. ob_key ob = Some k) obs"

text \<open>The index entry of a key: the node is in the queue, carries that key, and is the last that does.\<close>

definition indexed :: "(nat \<times> Outbound) list \<Rightarrow> PairKey \<Rightarrow> nat \<Rightarrow> bool" where
  "indexed q k n \<longleftrightarrow> (\<exists>pre ob post. q = pre @ (n, ob) # post \<and> ob_key ob = Some k \<and>
      updates_of k (map snd post) = [])"

definition index_ok :: "FrameChannel \<Rightarrow> bool" where
  "index_ok c \<longleftrightarrow> distinct (map fst (outbox c)) \<and> (\<forall>n \<in> fst ` set (outbox c). n < next_node c) \<and>
     (\<forall>k n. m_find (coalescable c) k = Some n \<longrightarrow> indexed (outbox c) k n)"

definition ch_inv :: "FrameChannel \<Rightarrow> bool" where
  "ch_inv c \<longleftrightarrow> length (outbox c) \<le> kMaxOutboxFrames \<and> index_ok c \<and>
     length (drains c) = (if writing c then 1 else 0) \<and>
     (outbox c \<noteq> [] \<longrightarrow> writing c \<or> closed c)"

subsection \<open>What a locked send does\<close>

lemma drop_oldest_Some:
  "drop_oldest q = Some (k, rest) \<Longrightarrow>
     \<exists>pre n ob post. q = pre @ (n, ob) # post \<and> rest = pre @ post \<and> ob_key ob = Some k \<and>
       (\<forall>x \<in> set pre. ob_key (snd x) = None)"
proof (induction q arbitrary: rest)
  case (Cons x xs)
  show ?case
  proof (cases "ob_key (snd x)")
    case None
    with Cons.prems obtain ys where ys: "drop_oldest xs = Some (k, ys)" "rest = x # ys"
      by auto
    from Cons.IH [OF ys(1)] obtain pre n ob post
      where "xs = pre @ (n, ob) # post" "ys = pre @ post" "ob_key ob = Some k"
        "\<forall>x \<in> set pre. ob_key (snd x) = None" by blast
    then show ?thesis using None ys(2)
      by (intro exI [of _ "x # pre"] exI [of _ n] exI [of _ ob] exI [of _ post]) simp
  next
    case (Some j)
    then show ?thesis using Cons.prems
      by (intro exI [of _ "[]"] exI [of _ "fst x"] exI [of _ "snd x"] exI [of _ xs]) simp
  qed
qed simp

lemma drop_oldest_None: "drop_oldest q = None \<longleftrightarrow> (\<forall>x \<in> set q. ob_key (snd x) = None)"
  by (induction q) (auto split: option.splits)

definition start_drain :: "FrameChannel \<Rightarrow> FrameChannel" where
  "start_drain c = (if writing c then c else c\<lparr>writing := True, drains := drains c @ [DrainTop]\<rparr>)"

definition evict :: "PairKey \<Rightarrow> (nat \<times> Outbound) list \<Rightarrow> FrameChannel \<Rightarrow> FrameChannel" where
  "evict k q c = c\<lparr>coalescable := m_erase k (coalescable c), outbox := q\<rparr>"

lemma replace_bytes_distinct:
  assumes "distinct (map fst (pre @ (n, old) # post))"
  shows "replace_bytes n fr (pre @ (n, old) # post) = pre @ (n, old\<lparr>ob_bytes := fr\<rparr>) # post"
  using assms by (auto simp: replace_bytes_def intro!: map_idI) force+

lemma indexed_distinct:
  assumes "indexed q k n" "distinct (map fst q)"
  obtains pre old post where "q = pre @ (n, old) # post" "ob_key old = Some k"
    "updates_of k (map snd post) = []"
  using assms by (auto simp: indexed_def)

text \<open>A locked send replaces a queued frame of its key, appends, evicts and appends, or gives up.\<close>

lemma send_locked_cases [consumes 2, case_names replaced pushed evicted overfull]:
  assumes "send_locked ob c = (ov, c')" "ch_inv c"
  obtains (replaced) k n pre old post where "\<not> ov" "ob_key ob = Some k"
      "m_find (coalescable c) k = Some n" "outbox c = pre @ (n, old) # post" "ob_key old = Some k"
      "updates_of k (map snd post) = []" "c' = c\<lparr>outbox := pre @ (n, ob) # post\<rparr>"
  | (pushed) "\<not> ov" "length (outbox c) < kMaxOutboxFrames" "c' = start_drain (push_outbound ob c)"
  | (evicted) k n pre old post where "\<not> ov" "kMaxOutboxFrames \<le> length (outbox c)"
      "outbox c = pre @ (n, old) # post" "ob_key old = Some k"
      "\<forall>x \<in> set pre. ob_key (snd x) = None" "length (pre @ post) < kMaxOutboxFrames"
      "c' = start_drain (push_outbound ob (evict k (pre @ post) c))"
  | (overfull) "ov" "c' = c" "kMaxOutboxFrames \<le> length (outbox c)"
proof (cases "length (outbox c) < kMaxOutboxFrames")
  case True
  then show thesis using assms(1) that(2)
    by (auto simp: send_locked_def makeRoomLocked_def start_drain_def Let_def split: if_splits)
next
  case full: False
  show thesis
  proof (cases "Option.bind (ob_key ob) (m_find (coalescable c))")
    case (Some n)
    then obtain k where k: "ob_key ob = Some k" "m_find (coalescable c) k = Some n"
      by (cases "ob_key ob") auto
    with assms(2) have ix: "indexed (outbox c) k n" "distinct (map fst (outbox c))"
      by (simp_all add: ch_inv_def index_ok_def)
    from ix obtain pre old post where q: "outbox c = pre @ (n, old) # post"
      "ob_key old = Some k" "updates_of k (map snd post) = []" by (rule indexed_distinct)
    have "old\<lparr>ob_bytes := ob_bytes ob\<rparr> = ob" using q(2) k(1) by simp
    then have "replace_bytes n (ob_bytes ob) (outbox c) = pre @ (n, ob) # post"
      using ix(2) replace_bytes_distinct [of pre n old post "ob_bytes ob"] by (simp add: q(1))
    then show thesis using that(1) [OF _ k q] assms(1) full Some
      by (simp add: send_locked_def makeRoomLocked_def)
  next
    case None
    show thesis
    proof (cases "drop_oldest (outbox c)")
      case none: None
      then show thesis using that(4) assms(1) full None
        by (simp add: send_locked_def makeRoomLocked_def)
    next
      case (Some kr)
      obtain k rest where kr: "kr = (k, rest)" by (cases kr)
      from drop_oldest_Some [OF Some [unfolded kr]] obtain pre n old post
        where q: "outbox c = pre @ (n, old) # post" "rest = pre @ post" "ob_key old = Some k"
          "\<forall>x \<in> set pre. ob_key (snd x) = None" by blast
      have room: "makeRoomLocked (ob_key ob) (ob_bytes ob) c = (False, evict k rest c)"
        using full None Some kr by (simp add: makeRoomLocked_def evict_def)
      have ob: "outbox (evict k rest c) = rest" by (simp add: evict_def)
      have less: "length rest < kMaxOutboxFrames"
        using assms(2) q(1,2) by (simp add: ch_inv_def)
      then have "(ov, c') = (False, start_drain (push_outbound ob (evict k rest c)))"
        using assms(1) room ob by (simp add: send_locked_def start_drain_def Let_def)
      then show thesis using that(3) [OF _ _ q(1,3,4)] full less q(2) by simp
    qed
  qed
qed

subsection \<open>The invariant\<close>

lemma updates_of_simps [simp]:
  "updates_of k [] = []"
  "updates_of k (ob # obs) = (if ob_key ob = Some k then ob # updates_of k obs else updates_of k obs)"
  "updates_of k (xs @ ys) = updates_of k xs @ updates_of k ys"
  by (simp_all add: updates_of_def)

lemma control_simps [simp]:
  "control [] = []"
  "control (ob # obs) = (if ob_key ob = None then ob # control obs else control obs)"
  "control (xs @ ys) = control xs @ control ys"
  by (simp_all add: control_def)

lemma indexedI:
  "ob_key ob = Some k \<Longrightarrow> updates_of k (map snd post) = [] \<Longrightarrow> indexed (pre @ (n, ob) # post) k n"
  by (auto simp: indexed_def)

lemma indexed_snoc_new: "ob_key ob = Some k \<Longrightarrow> indexed (q @ [(n, ob)]) k n"
  unfolding indexed_def by (rule exI [of _ q]) simp

lemma indexed_snoc_other: "indexed q k n \<Longrightarrow> ob_key ob \<noteq> Some k \<Longrightarrow> indexed (q @ [(m, ob)]) k n"
  unfolding indexed_def by (elim exE) (rule_tac x = pre in exI, auto)

text \<open>Taking a node with another key out of the queue keeps the index entry of a key.\<close>

lemma indexed_remove:
  assumes "indexed (pre @ (m, old) # post) k n" "ob_key old \<noteq> Some k"
  shows "indexed (pre @ post) k n"
proof -
  from assms(1) obtain p ob q where eq: "pre @ (m, old) # post = p @ (n, ob) # q"
    and ob: "ob_key ob = Some k" "updates_of k (map snd q) = []" by (auto simp: indexed_def)
  from eq ob assms(2) have "(m, old) \<noteq> (n, ob)" by auto
  from eq consider (left) us where "pre = p @ us" "us @ (m, old) # post = (n, ob) # q"
    | (right) us where "p = pre @ us" "(m, old) # post = us @ (n, ob) # q"
    by (auto simp: append_eq_append_conv2)
  then show ?thesis
  proof cases
    case left
    with \<open>(m, old) \<noteq> (n, ob)\<close> obtain vs where "us = (n, ob) # vs" by (cases us) auto
    with left ob show ?thesis
      using indexedI [of ob k "vs @ post" p n] by (auto split: if_splits)
  next
    case right
    with \<open>(m, old) \<noteq> (n, ob)\<close> obtain vs where "us = (m, old) # vs" by (cases us) auto
    with right ob show ?thesis
      using indexedI [of ob k q "pre @ vs" n] by auto
  qed
qed

text \<open>Rewriting the bytes of a node changes no index entry.\<close>

lemma indexed_map_key:
  assumes "indexed q k n" "map (\<lambda>x. (fst x, ob_key (snd x))) q' = map (\<lambda>x. (fst x, ob_key (snd x))) q"
  shows "indexed q' k n"
proof -
  let ?f = "\<lambda>x. (fst x, ob_key (snd x))"
  from assms(1) obtain pre ob post where q: "q = pre @ (n, ob) # post" "ob_key ob = Some k"
    "updates_of k (map snd post) = []" by (auto simp: indexed_def)
  from assms(2) q(1) obtain pre' x post' where q': "q' = pre' @ x # post'" "?f x = (n, ob_key ob)"
    "map ?f post' = map ?f post" by (auto simp: map_eq_append_conv map_eq_Cons_conv)
  have "updates_of k (map snd post') = [] \<longleftrightarrow> Some k \<notin> snd ` set (map ?f post')"
    by (force simp: updates_of_def filter_empty_conv)
  also have "\<dots> \<longleftrightarrow> updates_of k (map snd post) = []"
    unfolding q'(3) by (force simp: updates_of_def filter_empty_conv)
  finally show ?thesis using q q' indexedI [of "snd x" k post' pre' n] by (cases x) auto
qed

lemma index_ok_push: "index_ok c \<Longrightarrow> index_ok (push_outbound ob c)"
  by (auto simp: index_ok_def push_outbound_def indexed_snoc_new indexed_snoc_other
      split: option.splits if_splits)

lemma index_ok_remove:
  assumes "index_ok c" "outbox c = pre @ (n, old) # post"
  shows "index_ok (c\<lparr>outbox := pre @ post, coalescable :=
      (case ob_key old of None \<Rightarrow> coalescable c | Some k \<Rightarrow> m_erase k (coalescable c))\<rparr>)"
proof -
  have "indexed (pre @ post) k m"
    if "m_find (coalescable c) k = Some m" "ob_key old \<noteq> Some k" for k m
    by (rule indexed_remove [of pre n old]) (use assms that in \<open>simp_all add: index_ok_def\<close>)
  then show ?thesis using assms by (auto simp: index_ok_def split: option.splits)
qed

lemma index_ok_evict:
  assumes "index_ok c" "outbox c = pre @ (n, old) # post" "ob_key old = Some k"
  shows "index_ok (evict k (pre @ post) c)"
  using index_ok_remove [OF assms(1,2)] assms(3) by (simp add: evict_def index_ok_def)

lemma ch_inv_send:
  assumes "send_locked ob c = (ov, c')" "ch_inv c"
  shows "ch_inv c'"
  using assms
proof (cases rule: send_locked_cases)
  case (replaced k n pre old post)
  have keys: "map (\<lambda>x. (fst x, ob_key (snd x))) (outbox c') = map (\<lambda>x. (fst x, ob_key (snd x))) (outbox c)"
    using replaced by simp
  have "indexed (outbox c') j m" if "m_find (coalescable c) j = Some m" for j m
    by (rule indexed_map_key [OF _ keys]) (use assms(2) that in \<open>simp add: ch_inv_def index_ok_def\<close>)
  then have "index_ok c'"
    using assms(2) replaced by (simp add: ch_inv_def index_ok_def)
  then show ?thesis using assms(2) replaced by (auto simp: ch_inv_def)
next
  case pushed
  have "index_ok (push_outbound ob c)"
    using assms(2) by (simp add: ch_inv_def index_ok_push)
  then show ?thesis using assms(2) pushed
    by (auto simp: ch_inv_def index_ok_def start_drain_def push_outbound_def)
next
  case (evicted k n pre old post)
  have "index_ok (push_outbound ob (evict k (pre @ post) c))"
    using assms(2) evicted by (intro index_ok_push index_ok_evict) (simp_all add: ch_inv_def)
  then show ?thesis using assms(2) evicted
    by (auto simp: ch_inv_def index_ok_def start_drain_def push_outbound_def evict_def)
next
  case overfull
  then show ?thesis using assms(2) by simp
qed

lemma ch_inv_single_drain:
  assumes "ch_inv c" "i < length (drains c)"
  obtains d where "i = 0" "drains c = [d]" "writing c"
  using assms by (cases "drains c") (auto simp: ch_inv_def split: if_splits)

lemma ch_inv_top:
  assumes "ch_inv c" "i < length (drains c)"
  shows "ch_inv (drain_top i c)"
proof -
  obtain d where d: "i = 0" "drains c = [d]" "writing c"
    using assms by (rule ch_inv_single_drain)
  show ?thesis
  proof (cases "outbox c = [] \<or> closed c")
    case True
    then show ?thesis using assms(1) d
      by (auto simp: drain_top_def ch_inv_def index_ok_def remove_nth_def)
  next
    case False
    then obtain n ob q where q: "outbox c = [] @ (n, ob) # q" by (cases "outbox c") auto
    have "index_ok (c\<lparr>outbox := [] @ q, coalescable :=
        (case ob_key ob of None \<Rightarrow> coalescable c | Some k \<Rightarrow> m_erase k (coalescable c))\<rparr>)"
      using assms(1) q by (intro index_ok_remove) (simp_all add: ch_inv_def)
    then show ?thesis using assms(1) d q False
      by (auto simp: drain_top_def ch_inv_def index_ok_def Let_def)
  qed
qed

lemma ch_inv_clear:
  assumes "ch_inv c"
  shows "ch_inv (close_locked c)" "ch_inv (close_flag c)" "ch_inv (channel_close c)"
  using assms by (auto simp: close_locked_def close_flag_def channel_close_def ch_inv_def index_ok_def)

lemma ch_inv_written:
  assumes "ch_inv c" "i < length (drains c)"
  shows "ch_inv (drain_written i ob c)"
  using assms by (auto simp: drain_written_def ch_inv_def index_ok_def)

lemma ch_inv_failed:
  assumes "ch_inv c" "i < length (drains c)"
  shows "ch_inv (drain_failed i c)"
proof -
  obtain d where "i = 0" "drains c = [d]" using assms by (rule ch_inv_single_drain)
  then show ?thesis using assms(1)
    by (simp add: drain_failed_def ch_inv_def index_ok_def remove_nth_def)
qed

lemmas ch_inv_steps = ch_inv_send ch_inv_top ch_inv_written ch_inv_failed ch_inv_clear

lemma ch_reach_inv: "ch_reach sent ok c \<Longrightarrow> ch_inv c"
proof (induction rule: ch_reach.induct)
  case start
  show ?case by (simp add: new_channel_def ch_inv_def index_ok_def)
qed (auto intro: ch_inv_steps)

subsection \<open>What the peer will receive\<close>

lemma in_flight_simps:
  "in_flight (c\<lparr>outbox := q\<rparr>) = in_flight c"
  "in_flight (push_outbound ob c) = in_flight c"
  "in_flight (start_drain c) = in_flight c"
  "in_flight (evict k q c) = in_flight c"
  by (simp_all add: in_flight_def push_outbound_def start_drain_def evict_def)

lemma stream_simps:
  "stream (c\<lparr>outbox := q\<rparr>) = wire_out c @ in_flight c @ map snd q"
  "stream (start_drain c) = stream c"
  "stream (push_outbound ob c) = stream c @ [ob]"
  "stream (evict k q c) = wire_out c @ in_flight c @ map snd q"
  by (simp_all add: stream_def in_flight_simps)
    (simp_all add: push_outbound_def start_drain_def evict_def)

text \<open>The steps of the one drain move a frame along the stream and change nothing of it.\<close>

lemma stream_drain_top:
  assumes "ch_inv c" "i < length (drains c)" "drains c ! i = DrainTop"
  shows "stream (drain_top i c) = stream c"
proof -
  obtain d where "i = 0" "drains c = [d]" using assms(1,2) by (rule ch_inv_single_drain)
  with assms(3) have "i = 0" "drains c = [DrainTop]" by simp_all
  then show ?thesis
    by (cases "outbox c") (auto simp: drain_top_def stream_def in_flight_def remove_nth_def Let_def)
qed

lemma stream_drain_written:
  assumes "ch_inv c" "i < length (drains c)" "drains c ! i = DrainWriting ob"
  shows "stream (drain_written i ob c) = stream c"
proof -
  obtain d where "i = 0" "drains c = [d]" using assms(1,2) by (rule ch_inv_single_drain)
  with assms(3) show ?thesis by (simp add: drain_written_def stream_def in_flight_def)
qed

lemma stream_close:
  "\<exists>lost. stream c = stream (close_locked c) @ lost" "stream (close_flag c) = stream c"
  by (auto simp: stream_def close_locked_def close_flag_def in_flight_def)

lemma stream_drain_failed:
  assumes "ch_inv c" "i < length (drains c)"
  shows "\<exists>lost. stream c = stream (drain_failed i c) @ lost"
proof -
  obtain d where "i = 0" "drains c = [d]" using assms by (rule ch_inv_single_drain)
  then show ?thesis by (auto simp: drain_failed_def stream_def in_flight_def remove_nth_def)
qed

lemma subseq_take_prefix: "subseq (xs @ ys) zs \<Longrightarrow> subseq xs zs"
  by (meson prefixI prefix_imp_subseq subseq_order.trans)

lemma stream_send_locked:
  assumes "send_locked ob c = (False, c')" "ch_inv c"
  shows "control (stream c') = control (stream c) @ control [ob]"
    and "ob_key ob = Some k \<Longrightarrow>
      \<exists>older. updates_of k (stream c') = older @ [ob] \<and> subseq older (updates_of k (stream c))"
    and "ob_key ob \<noteq> Some k \<Longrightarrow> subseq (updates_of k (stream c')) (updates_of k (stream c))"
proof -
  from assms have "control (stream c') = control (stream c) @ control [ob] \<and>
    (ob_key ob = Some k \<longrightarrow>
      (\<exists>older. updates_of k (stream c') = older @ [ob] \<and> subseq older (updates_of k (stream c)))) \<and>
    (ob_key ob \<noteq> Some k \<longrightarrow> subseq (updates_of k (stream c')) (updates_of k (stream c)))"
  proof (cases rule: send_locked_cases)
    case (replaced j n pre old post)
    have c': "stream c' = wire_out c @ in_flight c @ map snd pre @ ob # map snd post"
      using replaced(7) by (simp add: stream_simps)
    have c: "stream c = wire_out c @ in_flight c @ map snd pre @ old # map snd post"
      using replaced(4) by (simp add: stream_def)
    show ?thesis using replaced(2,5,6) by (auto simp: c c' simp flip: append_assoc)
  next
    case pushed
    then show ?thesis by (auto simp: stream_simps)
  next
    case (evicted j n pre old post)
    have c': "stream c' = wire_out c @ in_flight c @ map snd pre @ map snd post @ [ob]"
      using evicted(7) by (simp add: stream_simps)
    have c: "stream c = wire_out c @ in_flight c @ map snd pre @ old # map snd post"
      using evicted(3) by (simp add: stream_def)
    show ?thesis using evicted(4) by (auto simp: c c' subseq_append')
  qed simp
  then show "control (stream c') = control (stream c) @ control [ob]"
    and "ob_key ob = Some k \<Longrightarrow>
      \<exists>older. updates_of k (stream c') = older @ [ob] \<and> subseq older (updates_of k (stream c))"
    and "ob_key ob \<noteq> Some k \<Longrightarrow> subseq (updates_of k (stream c')) (updates_of k (stream c))"
    by blast+
qed

lemma closed_send_locked: "send_locked ob c = (ov, c') \<Longrightarrow> closed c' = closed c"
  by (auto simp: send_locked_def makeRoomLocked_def push_outbound_def Let_def
      split: if_splits option.splits prod.splits)

lemma overfull_unchanged: "send_locked ob c = (True, c') \<Longrightarrow> ch_inv c \<Longrightarrow> c' = c"
  by (erule send_locked_cases) auto

lemma updates_send_subseq:
  assumes "send_locked ob c = (ov, c')" "ch_inv c"
  shows "subseq (updates_of k (stream c')) (updates_of k (stream c) @ updates_of k [ob])"
proof (cases ov)
  case True
  then show ?thesis using overfull_unchanged assms by auto
next
  case False
  show ?thesis
  proof (cases "ob_key ob = Some k")
    case True
    then obtain older where "updates_of k (stream c') = older @ [ob]"
      "subseq older (updates_of k (stream c))"
      using stream_send_locked(2) assms False by metis
    then show ?thesis using True by (simp add: list_emb_append_mono)
  next
    case other: False
    then show ?thesis using stream_send_locked(3) [of ob c c' k] assms False by simp
  qed
qed

subsection \<open>The contract of a last-value queue\<close>

text \<open>
  What a sender relies on: as long as the queue is live, a frame without a key is appended and a frame
  with a key is the last of its key; nothing else is reordered.
\<close>

locale last_value_queue =
  fixes offer :: "Outbound \<Rightarrow> 's \<Rightarrow> 's"
    and content :: "'s \<Rightarrow> Outbound list"
    and inv :: "'s \<Rightarrow> bool"
    and live :: "'s \<Rightarrow> bool"
  assumes offer_inv: "inv s \<Longrightarrow> inv (offer ob s)"
    and offer_live: "live (offer ob s) \<Longrightarrow> live s"
    and offer_control: "inv s \<Longrightarrow> live (offer ob s) \<Longrightarrow>
      control (content (offer ob s)) = control (content s) @ control [ob]"
    and offer_updates: "inv s \<Longrightarrow> live (offer ob s) \<Longrightarrow>
      subseq (updates_of k (content (offer ob s))) (updates_of k (content s) @ updates_of k [ob])"
    and offer_newest: "inv s \<Longrightarrow> live (offer ob s) \<Longrightarrow> ob_key ob = Some k \<Longrightarrow>
      \<exists>older. updates_of k (content (offer ob s)) = older @ [ob]"
begin

lemma offers_inv: "inv s \<Longrightarrow> inv (fold offer obs s)"
  by (induction obs arbitrary: s) (auto intro: offer_inv)

lemma offers_live: "live (fold offer obs s) \<Longrightarrow> live s"
  by (induction obs arbitrary: s) (auto dest: offer_live)

lemma offers_control:
  "inv s \<Longrightarrow> live (fold offer obs s) \<Longrightarrow>
     control (content (fold offer obs s)) = control (content s) @ control obs"
proof (induction obs arbitrary: s)
  case (Cons ob obs)
  then have "live (offer ob s)" by (auto dest: offers_live)
  with Cons show ?case using Cons.IH [of "offer ob s"]
    by (simp add: offer_inv offer_control)
qed simp

lemma offers_updates:
  "inv s \<Longrightarrow> live (fold offer obs s) \<Longrightarrow>
     subseq (updates_of k (content (fold offer obs s))) (updates_of k (content s) @ updates_of k obs)"
proof (induction obs arbitrary: s)
  case (Cons ob obs)
  then have live: "live (offer ob s)" by (auto dest: offers_live)
  have "subseq (updates_of k (content (fold offer obs (offer ob s))))
      (updates_of k (content (offer ob s)) @ updates_of k obs)"
    using Cons by (simp add: offer_inv)
  moreover have "subseq (updates_of k (content (offer ob s)) @ updates_of k obs)
      ((updates_of k (content s) @ updates_of k [ob]) @ updates_of k obs)"
    using Cons.prems(1) live by (intro list_emb_append_mono offer_updates) auto
  moreover have "updates_of k (ob # obs) = updates_of k [ob] @ updates_of k obs" by simp
  ultimately show ?case by (metis append_assoc fold_simps(2) subseq_order.trans)
qed simp

end

definition offer_frame :: "Outbound \<Rightarrow> FrameChannel \<Rightarrow> FrameChannel" where
  "offer_frame ob = channel_send (ob_bytes ob) (ob_key ob)"

definition channel_live :: "FrameChannel \<Rightarrow> bool" where
  "channel_live c \<longleftrightarrow> \<not> closed c"

text \<open>A send that leaves the channel open is its locked part, and the channel was open before.\<close>

lemma offer_frame_live:
  assumes "channel_live (offer_frame ob c)"
  shows "channel_live c" "send_locked ob c = (False, offer_frame ob c)"
proof -
  obtain ov c' where s: "send_locked ob c = (ov, c')" by (cases "send_locked ob c")
  have ob: "\<lparr>ob_bytes = ob_bytes ob, ob_key = ob_key ob\<rparr> = ob" by simp
  from assms s closed_send_locked [OF s]
  show "channel_live c" "send_locked ob c = (False, offer_frame ob c)"
    unfolding offer_frame_def channel_send_def ob
    by (auto simp: channel_live_def channel_close_def
        close_flag_def close_locked_def split: if_splits)
qed

lemma offer_frame_inv: "ch_inv c \<Longrightarrow> ch_inv (offer_frame ob c)"
  by (auto simp: offer_frame_def channel_send_def intro: ch_inv_clear ch_inv_send split: prod.splits)

interpretation chan: last_value_queue offer_frame stream ch_inv channel_live
proof
  fix ob c k
  show "ch_inv c \<Longrightarrow> ch_inv (offer_frame ob c)" by (rule offer_frame_inv)
  show "channel_live (offer_frame ob c) \<Longrightarrow> channel_live c" by (rule offer_frame_live)
  assume "ch_inv c" "channel_live (offer_frame ob c)"
  note step = offer_frame_live(2) [OF this(2)] this(1)
  show "control (stream (offer_frame ob c)) = control (stream c) @ control [ob]"
    using step by (rule stream_send_locked)
  show "subseq (updates_of k (stream (offer_frame ob c)))
      (updates_of k (stream c) @ updates_of k [ob])"
    using step by (rule updates_send_subseq)
  show "ob_key ob = Some k \<Longrightarrow> \<exists>older. updates_of k (stream (offer_frame ob c)) = older @ [ob]"
    using stream_send_locked(2) [OF step] by blast
qed

subsection \<open>Every reachable channel\<close>

lemma stream_new_channel [simp]: "stream new_channel = []"
  by (simp add: stream_def new_channel_def in_flight_def)

lemma ch_reach_control_subseq: "ch_reach sent ok c \<Longrightarrow> subseq (control (stream c)) (control sent)"
proof (induction rule: ch_reach.induct)
  case (dropped sent ok c ob)
  then show ?case by (simp add: subseq_rev_drop_many)
next
  case (sent sent ok c ob overfull c')
  have inv: "ch_inv c" using sent.hyps(1) by (rule ch_reach_inv)
  show ?case
  proof (cases overfull)
    case True
    then have "c' = c" using overfull_unchanged sent.hyps(2) inv by auto
    then show ?thesis using sent.IH by (simp add: subseq_rev_drop_many)
  next
    case False
    then have "control (stream c') = control (stream c) @ control [ob]"
      using stream_send_locked(1) sent.hyps(2) inv by auto
    then show ?thesis using sent.IH by (simp add: list_emb_append_mono)
  qed
next
  case (failed sent ok c i ob)
  obtain lost where "stream c = stream (drain_failed i c) @ lost"
    using stream_drain_failed [OF ch_reach_inv] failed.hyps by blast
  then show ?case using failed.IH subseq_take_prefix by (metis control_simps(3))
next
  case (close_end sent ok c)
  obtain lost where "stream c = stream (close_locked c) @ lost" using stream_close(1) by blast
  then show ?case using close_end.IH subseq_take_prefix by (metis control_simps(3))
qed (simp_all add: stream_drain_top stream_drain_written stream_close(2) ch_reach_inv)

lemma ch_reach_updates_subseq:
  "ch_reach sent ok c \<Longrightarrow> subseq (updates_of k (stream c)) (updates_of k sent)"
proof (induction rule: ch_reach.induct)
  case (dropped sent ok c ob)
  then show ?case by (simp add: subseq_rev_drop_many)
next
  case (sent sent ok c ob overfull c')
  have "subseq (updates_of k (stream c')) (updates_of k (stream c) @ updates_of k [ob])"
    using updates_send_subseq sent.hyps ch_reach_inv by blast
  moreover have "subseq (updates_of k (stream c) @ updates_of k [ob]) (updates_of k (sent @ [ob]))"
    using sent.IH by (simp only: updates_of_simps(3)) (rule list_emb_append_mono, auto)
  ultimately show ?case by (rule subseq_order.trans)
next
  case (failed sent ok c i ob)
  obtain lost where "stream c = stream (drain_failed i c) @ lost"
    using stream_drain_failed [OF ch_reach_inv] failed.hyps by blast
  then show ?case using failed.IH subseq_take_prefix by (metis updates_of_simps(3))
next
  case (close_end sent ok c)
  obtain lost where "stream c = stream (close_locked c) @ lost" using stream_close(1) by blast
  then show ?case using close_end.IH subseq_take_prefix by (metis updates_of_simps(3))
qed (simp_all add: stream_drain_top stream_drain_written stream_close(2) ch_reach_inv)

lemma closed_drain [simp]:
  "closed (drain_top i c) = closed c" "closed (drain_written i ob c) = closed c"
  by (simp_all add: drain_top_def drain_written_def Let_def)

lemma ch_reach_control_eq: "ch_reach sent ok c \<Longrightarrow> ok \<Longrightarrow> \<not> closed c \<Longrightarrow> control (stream c) = control sent"
proof (induction rule: ch_reach.induct)
  case (sent sent ok c ob overfull c')
  then have "control (stream c') = control (stream c) @ control [ob]"
    using stream_send_locked(1) ch_reach_inv by auto
  then show ?case using sent closed_send_locked by auto
next
  case (top sent ok c i)
  then show ?case by (simp add: stream_drain_top ch_reach_inv)
qed (auto simp: stream_drain_written ch_reach_inv close_flag_def close_locked_def
      stream_close(2) [unfolded close_flag_def])

lemma ch_reach_send: "ch_reach sent ok c \<Longrightarrow> \<exists>ok'. ch_reach (sent @ [ob]) ok' (offer_frame ob c)"
proof -
  assume reach: "ch_reach sent ok c"
  obtain ov c' where step: "send_locked ob c = (ov, c')" by (cases "send_locked ob c")
  have ob: "\<lparr>ob_bytes = ob_bytes ob, ob_key = ob_key ob\<rparr> = ob" by simp
  have reach': "ch_reach (sent @ [ob]) (ok \<and> \<not> ov) c'" using reach step by (rule ch_reach.sent)
  moreover have "ch_reach (sent @ [ob]) (ok \<and> \<not> ov) (close_locked (close_flag c'))"
    by (intro ch_reach.close_end ch_reach.close_begin reach') (simp add: close_flag_def)
  moreover have "closed c \<Longrightarrow> ch_reach (sent @ [ob]) ok c" using reach by (rule ch_reach.dropped)
  ultimately show ?thesis using step
    unfolding offer_frame_def channel_send_def ob channel_close_def by auto
qed

subsection \<open>Progress of the drain\<close>

definition drain_steps :: "FrameChannel \<Rightarrow> nat" where
  "drain_steps c = 2 * length (outbox c) + (if drains c = [DrainTop] then 1 else 2)"

lemma run_drain_idle [simp]: "drains c = [] \<Longrightarrow> run_drain n c = c"
  by (cases n) simp_all

lemma run_drain_delivers:
  "ch_inv c \<Longrightarrow> \<not> closed c \<Longrightarrow> drains c \<noteq> [] \<Longrightarrow> drain_steps c \<le> n \<Longrightarrow>
     outbox (run_drain n c) = [] \<and> drains (run_drain n c) = [] \<and> wire_out (run_drain n c) = stream c"
proof (induction n arbitrary: c)
  case 0
  then show ?case by (simp add: drain_steps_def split: if_splits)
next
  case (Suc n)
  obtain d where d: "drains c = [d]"
    using Suc.prems(1,3) ch_inv_single_drain [of c 0] by auto
  show ?case
  proof (cases d)
    case DrainTop
    show ?thesis
    proof (cases "outbox c")
      case Nil
      with d DrainTop show ?thesis
        by (simp add: drain_top_def remove_nth_def stream_def in_flight_def)
    next
      case (Cons x q)
      have "ch_inv (drain_top 0 c)" "stream (drain_top 0 c) = stream c"
        using Suc.prems(1) d DrainTop by (simp_all add: ch_inv_top stream_drain_top)
      moreover have "drain_steps (drain_top 0 c) \<le> n" "drains (drain_top 0 c) \<noteq> []"
        using Suc.prems(2,4) d DrainTop Cons by (simp_all add: drain_steps_def drain_top_def Let_def)
      ultimately show ?thesis using Suc.IH [of "drain_top 0 c"] Suc.prems(2) d DrainTop by simp
    qed
  next
    case (DrainWriting ob)
    have "ch_inv (drain_written 0 ob c)" "stream (drain_written 0 ob c) = stream c"
      using Suc.prems(1) d DrainWriting by (simp_all add: ch_inv_written stream_drain_written)
    moreover have "drain_steps (drain_written 0 ob c) \<le> n" "drains (drain_written 0 ob c) \<noteq> []"
      "\<not> closed (drain_written 0 ob c)"
      using Suc.prems(2,4) d DrainWriting by (simp_all add: drain_steps_def drain_written_def)
    ultimately show ?thesis using Suc.IH [of "drain_written 0 ob c"] d DrainWriting by simp
  qed
qed

subsection \<open>Framing\<close>

text \<open>The bytes of a frame that can be sent, and the frames a peer reads from the bytes written.\<close>

definition frame_bytes :: "Frame \<Rightarrow> byte list" where
  "frame_bytes f = encodeHeader (fr_header f) @ fr_payload f"

definition sendable :: "Frame \<Rightarrow> bool" where
  "sendable f \<longleftrightarrow> h_type (fr_header f) \<noteq> MT_Invalid \<and> length (fr_payload f) \<le> kMaxPayload \<and>
     payload_length (fr_header f) = of_nat (length (fr_payload f))"

lemma frame_eq_frame_bytes:
  "frame ty payload sub = Inr bs \<Longrightarrow>
     bs = frame_bytes \<lparr>fr_header = \<lparr>h_type = ty, payload_length = of_nat (length payload),
       h_subscriber = sub\<rparr>, fr_payload = payload\<rparr>"
  by (simp add: frame_def frame_bytes_def split: if_splits)

lemma length_encodeHeader [simp]: "length (encodeHeader h) = kHeaderSize"
  by (simp add: encodeHeader_eq)

lemma channel_read_frame:
  assumes "sendable f"
  shows "channel_read (frame_bytes f @ rest) = Inr (f, rest)"
proof -
  have len: "unat (payload_length (fr_header f)) = length (fr_payload f)"
    using assms string_size_fits by (simp add: sendable_def)
  then have "decodeHeader (encodeHeader (fr_header f)) = Inr (fr_header f)"
    using assms by (simp add: decodeHeader_encodeHeader sendable_def)
  then show ?thesis using len
    by (simp add: channel_read_def async_read_def frame_bytes_def)
qed

lemma read_frames_concat:
  "list_all sendable fs \<Longrightarrow>
     read_frames (length fs) (concat (map frame_bytes fs) @ rest) = Inr (fs, rest)"
  by (induction fs) (simp_all add: channel_read_frame)

lemma async_read_Inr: "async_read n xs = Inr (a, b) \<Longrightarrow> length a = n \<and> xs = a @ b"
  by (auto simp: async_read_def split: if_splits)

lemma channel_read_parts:
  assumes "channel_read input = Inr (f, rest)"
  shows "async_read kHeaderSize input = Inr (take kHeaderSize input, drop kHeaderSize input)"
    "decodeHeader (take kHeaderSize input) = Inr (fr_header f)"
    "async_read (unat (payload_length (fr_header f))) (drop kHeaderSize input) = Inr (fr_payload f, rest)"
  using assms by (auto simp: channel_read_def async_read_def bindE_eq_Inr split: if_splits)

lemma channel_read_bounds:
  assumes "channel_read input = Inr (f, rest)"
  shows "length (fr_payload f) = unat (payload_length (fr_header f))"
    "length (fr_payload f) \<le> kMaxPayload" "h_type (fr_header f) \<noteq> MT_Invalid"
    "length input = kHeaderSize + length (fr_payload f) + length rest"
proof -
  note parts = channel_read_parts [OF assms]
  show "length (fr_payload f) = unat (payload_length (fr_header f))"
    using async_read_Inr [OF parts(3)] by simp
  then show "length (fr_payload f) \<le> kMaxPayload" "h_type (fr_header f) \<noteq> MT_Invalid"
    using decodeHeader_bounds [OF parts(2)] by simp_all
  show "length input = kHeaderSize + length (fr_payload f) + length rest"
    using async_read_Inr [OF parts(1)] async_read_Inr [OF parts(3)]
    by (metis add.assoc length_append)
qed

subsection \<open>Filling the queue\<close>

lemma send_locked_room:
  "length (outbox c) < kMaxOutboxFrames \<Longrightarrow> send_locked ob c = (False, start_drain (push_outbound ob c))"
  by (simp add: send_locked_def makeRoomLocked_def start_drain_def Let_def)

lemma start_drain_fields:
  "outbox (start_drain c) = outbox c" "closed (start_drain c) = closed c"
  "wire_out (start_drain c) = wire_out c" "next_node (start_drain c) = next_node c"
  "coalescable (start_drain c) = coalescable c"
  by (simp_all add: start_drain_def)

lemma fill_with_control:
  "list_all (\<lambda>ob. ob_key ob = None) obs \<Longrightarrow> length obs \<le> kMaxOutboxFrames \<Longrightarrow>
     \<exists>c. ch_reach obs True c \<and> \<not> closed c \<and> outbox c = zip [0..<length obs] obs \<and>
       next_node c = length obs \<and> wire_out c = [] \<and> in_flight c = [] \<and> coalescable c = m_empty"
proof (induction obs rule: rev_induct)
  case Nil
  show ?case
    by (rule exI [of _ new_channel]) (use ch_reach.start in \<open>simp add: new_channel_def in_flight_def\<close>)
next
  case (snoc ob obs)
  then obtain c where c: "ch_reach obs True c" "\<not> closed c" "outbox c = zip [0..<length obs] obs"
    "next_node c = length obs" "wire_out c = []" "in_flight c = []" "coalescable c = m_empty"
    by auto
  have step: "send_locked ob c = (False, start_drain (push_outbound ob c))"
    using c(3) snoc.prems(2) by (intro send_locked_room) simp
  have "ch_reach (obs @ [ob]) True (start_drain (push_outbound ob c))"
    using ch_reach.sent [OF c(1) step] by simp
  then show ?case using c snoc.prems(1)
    by (intro exI [of _ "start_drain (push_outbound ob c)"])
      (auto simp: in_flight_simps start_drain_fields, auto simp: push_outbound_def)
qed

lemma overtaken_removal:
  assumes ctl: "list_all (\<lambda>ob. ob_key ob = None) obs" and len: "length obs + 2 = kMaxOutboxFrames"
    and keys: "ob_key u1 = Some k" "ob_key rm = None" "ob_key u2 = Some k"
  shows "\<exists>c. ch_reach (obs @ [u1, rm, u2]) True c \<and> \<not> closed c \<and> stream c = obs @ [u2, rm]"
proof -
  from ctl len obtain c where c: "ch_reach obs True c" "\<not> closed c"
    "outbox c = zip [0..<length obs] obs" "next_node c = length obs" "wire_out c = []"
    "in_flight c = []" "coalescable c = m_empty"
    using fill_with_control [OF ctl] by auto
  define c1 where "c1 = start_drain (push_outbound u1 c)"
  define c2 where "c2 = start_drain (push_outbound rm c1)"
  have o1: "outbox c1 = outbox c @ [(length obs, u1)]" "closed c1 = closed c"
    "coalescable c1 = m_assign k (length obs) m_empty"
    using c(4,7) keys by (simp_all add: c1_def start_drain_def push_outbound_def)
  have o2: "outbox c2 = outbox c @ [(length obs, u1), (next_node c1, rm)]" "closed c2 = closed c"
    "coalescable c2 = coalescable c1"
    using o1 keys by (simp_all add: c2_def start_drain_def push_outbound_def)
  have s1: "send_locked u1 c = (False, c1)"
    unfolding c1_def using c(3) len by (intro send_locked_room) simp
  have s2: "send_locked rm c1 = (False, c2)"
    unfolding c2_def using o1 c(3) len by (intro send_locked_room) simp
  have reach: "ch_reach (obs @ [u1, rm]) True c2"
    using ch_reach.sent [OF ch_reach.sent [OF c(1) s1] s2] by simp
  obtain ov c3 where s3: "send_locked u2 c2 = (ov, c3)" by (cases "send_locked u2 c2")
  have full: "length (outbox c2) = kMaxOutboxFrames" using o2(1) c(3) len by simp
  have "distinct (map fst (outbox c2))"
    using ch_reach_inv [OF reach] by (simp add: ch_inv_def index_ok_def)
  then have rep: "replace_bytes (length obs) (ob_bytes u2) (outbox c2) =
      outbox c @ (length obs, u1\<lparr>ob_bytes := ob_bytes u2\<rparr>) # [(next_node c1, rm)]"
    using replace_bytes_distinct [of "outbox c" "length obs" u1 "[(next_node c1, rm)]"]
    by (simp add: o2(1))
  have u: "u1\<lparr>ob_bytes := ob_bytes u2\<rparr> = u2" using keys by simp
  have c3: "ov = False" "c3 = c2\<lparr>outbox := outbox c @ [(length obs, u2), (next_node c1, rm)]\<rparr>"
    using s3 full keys o1(3) o2(3) rep u by (simp_all add: send_locked_def makeRoomLocked_def)
  have "stream c3 = obs @ [u2, rm]"
    using c(3,5,6) by (simp add: c3(2) stream_simps c2_def c1_def in_flight_simps)
      (simp add: start_drain_def push_outbound_def)
  then show ?thesis using ch_reach.sent [OF reach s3] c3 o2(2) c(2) by auto
qed

subsection \<open>A peer that keeps up\<close>

lemma stream_push: "stream (start_drain (push_outbound ob c)) = stream c @ [ob]"
  by (simp add: stream_def in_flight_simps start_drain_fields) (simp add: push_outbound_def)

lemma keeps_up_stream: "keeps_up sent c \<Longrightarrow> ch_reach sent True c \<and> \<not> closed c \<and> stream c = sent"
proof (induction rule: keeps_up.induct)
  case up_start
  show ?case using ch_reach.start by (simp add: new_channel_def stream_def in_flight_def)
next
  case (up_sent sent c ob overfull c')
  then have "overfull = False" "c' = start_drain (push_outbound ob c)" by (simp_all add: send_locked_room)
  then show ?case using up_sent ch_reach.sent [of sent True c ob False c']
    by (simp add: stream_push start_drain_fields) (simp add: push_outbound_def)
next
  case (up_top sent c i)
  then have "\<not> closed (drain_top i c)" by (auto simp: drain_top_def Let_def split: list.splits)
  then show ?case using up_top ch_reach.top ch_reach_inv stream_drain_top by metis
next
  case (up_written sent c i ob)
  then have "\<not> closed (drain_written i ob c)" by (simp add: drain_written_def)
  then show ?case using up_written ch_reach.written ch_reach_inv stream_drain_written by metis
qed

lemma drop_oldest_after_control:
  "list_all (\<lambda>ob. ob_key (snd ob) = None) q \<Longrightarrow> ob_key (snd x) = Some k \<Longrightarrow> drop_oldest (q @ x # q') = Some (k, q @ q')"
  by (induction q) auto

lemma dropped_update:
  assumes ctl: "list_all (\<lambda>ob. ob_key ob = None) obs" and len: "length obs + 1 = kMaxOutboxFrames"
    and keys: "ob_key u1 = Some k1" "ob_key u2 = Some k2" "k1 \<noteq> k2"
  shows "\<exists>c. ch_reach (obs @ [u1, u2]) True c \<and> \<not> closed c \<and> stream c = obs @ [u2]"
proof -
  from ctl len obtain c where c: "ch_reach obs True c" "\<not> closed c"
    "outbox c = zip [0..<length obs] obs" "next_node c = length obs" "wire_out c = []"
    "in_flight c = []" "coalescable c = m_empty"
    using fill_with_control [OF ctl] by auto
  define c1 where "c1 = start_drain (push_outbound u1 c)"
  have o1: "outbox c1 = outbox c @ [(length obs, u1)]" "closed c1 = closed c" "wire_out c1 = []" "in_flight c1 = []"
    "coalescable c1 = m_assign k1 (length obs) m_empty"
    using c(4-7) keys(1) by (simp_all add: c1_def in_flight_simps start_drain_fields) (simp_all add: push_outbound_def)
  have s1: "send_locked u1 c = (False, c1)"
    unfolding c1_def using c(3) len by (intro send_locked_room) simp
  have reach: "ch_reach (obs @ [u1]) True c1" using ch_reach.sent [OF c(1) s1] by simp
  have "drop_oldest (outbox c1) = Some (k1, outbox c)"
    using drop_oldest_after_control [of "outbox c" "(length obs, u1)" k1 "[]"] ctl c(3) keys(1) o1(1)
    by (auto simp: list_all_length)
  moreover have "m_find (coalescable c1) k2 = None" using o1(5) keys(3) by simp
  ultimately have s2: "send_locked u2 c1 = (False, start_drain (push_outbound u2 (evict k1 (outbox c) c1)))"
    using o1(1) c(3) len keys(2)
    by (simp add: send_locked_def makeRoomLocked_def start_drain_def evict_def push_outbound_def Let_def)
  let ?c2 = "start_drain (push_outbound u2 (evict k1 (outbox c) c1))"
  have "stream ?c2 = obs @ [u2]" "closed ?c2 = closed c"
    using c(3) o1 by (simp_all add: stream_def in_flight_simps start_drain_fields)
      (simp_all add: push_outbound_def evict_def)
  then show ?thesis using ch_reach.sent [OF reach s2] c(2) by auto
qed

lemma drained_stream:
  assumes "ch_reach sent ok c" "\<not> closed c"
  shows "outbox (run_drain (2 * kMaxOutboxFrames + 2) c) = [] \<and>
    drains (run_drain (2 * kMaxOutboxFrames + 2) c) = [] \<and>
    wire_out (run_drain (2 * kMaxOutboxFrames + 2) c) = stream c"
proof (cases "drains c = []")
  case True
  then have "outbox c = []" using ch_reach_inv [OF assms(1)] assms(2)
    by (auto simp: ch_inv_def split: if_splits)
  then show ?thesis using True by (simp add: stream_def in_flight_def)
next
  case False
  have "drain_steps c \<le> 2 * kMaxOutboxFrames + 2"
    using ch_reach_inv [OF assms(1)] by (simp add: drain_steps_def ch_inv_def)
  with False run_drain_delivers [OF ch_reach_inv [OF assms(1)] assms(2)] show ?thesis by blast
qed

subsection \<open>Properties\<close>

text \<open>
  C15. In every reachable channel the queue is within its cap, every iterator of \<^verbatim>\<open>coalescable_\<close> points to
  a queued frame of its key and to the last such frame, at most one drain runs, and whatever is queued
  on an open channel has a drain that will write it.
\<close>

theorem channel_invariant:
  assumes "ch_reach sent ok c"
  shows "outboxSize c \<le> kMaxOutboxFrames \<and>
    (\<forall>k n. m_find (coalescable c) k = Some n \<longrightarrow> indexed (outbox c) k n) \<and>
    length (drains c) \<le> 1 \<and> (outbox c \<noteq> [] \<and> \<not> closed c \<longrightarrow> length (drains c) = 1)"
  using ch_reach_inv [OF assms] by (auto simp: ch_inv_def index_ok_def outboxSize_def)

text \<open>A channel on which a subscription frame and then an update were sent, used by the witnesses.\<close>

definition sample_ob :: "byte list \<Rightarrow> string option \<Rightarrow> Outbound" where
  "sample_ob bs key = \<lparr>ob_bytes = bs, ob_key = map_option (PairKey (I32 7)) key\<rparr>"

definition sample_channel :: FrameChannel where
  "sample_channel =
     start_drain (push_outbound (sample_ob [2] (Some ''x''))
       (start_drain (push_outbound (sample_ob [1] None) new_channel)))"

lemma sample_channel_reach:
  "ch_reach [sample_ob [1] None, sample_ob [2] (Some ''x'')] True sample_channel"
proof -
  have 1: "send_locked (sample_ob [1] None) new_channel =
      (False, start_drain (push_outbound (sample_ob [1] None) new_channel))"
    by (rule send_locked_room) (simp add: new_channel_def kMaxOutboxFrames_def)
  have 2: "send_locked (sample_ob [2] (Some ''x'')) (start_drain (push_outbound (sample_ob [1] None)
      new_channel)) = (False, sample_channel)"
    unfolding sample_channel_def
    by (rule send_locked_room)
      (simp add: new_channel_def kMaxOutboxFrames_def start_drain_def push_outbound_def)
  show ?thesis using ch_reach.sent [OF ch_reach.sent [OF ch_reach.start 1] 2] by simp
qed

lemma sample_channel_eq:
  "sample_channel = \<lparr>outbox = [(0, sample_ob [1] None), (1, sample_ob [2] (Some ''x''))],
     coalescable = m_assign (PairKey (I32 7) ''x'') 1 m_empty, writing = True, closed = False,
     drains = [DrainTop], wire_out = [], next_node = 2\<rparr>"
  by (simp add: sample_channel_def start_drain_def push_outbound_def new_channel_def sample_ob_def)

theorem channel_invariant_witness:
  "ch_reach [sample_ob [1] None, sample_ob [2] (Some ''x'')] True sample_channel \<and>
   outboxSize sample_channel \<le> kMaxOutboxFrames \<and> length (drains sample_channel) = 1"
  using channel_invariant [OF sample_channel_reach] sample_channel_reach
  by (simp add: sample_channel_eq)





text \<open>
  C24. A drain that is left alone with a socket that accepts its writes ends, with everything queued
  written in order: \<open>2 * kMaxOutboxFrames + 2\<close> steps are always enough.
\<close>

theorem drain_delivers:
  assumes "ch_reach sent ok c" "\<not> closed c"
  shows "outbox (run_drain (2 * kMaxOutboxFrames + 2) c) = [] \<and>
    drains (run_drain (2 * kMaxOutboxFrames + 2) c) = [] \<and>
    wire_out (run_drain (2 * kMaxOutboxFrames + 2) c) = stream c"
  using assms by (rule drained_stream)

theorem drain_delivers_witness:
  "wire_out (run_drain (2 * kMaxOutboxFrames + 2) sample_channel) =
     [sample_ob [1] None, sample_ob [2] (Some ''x'')]"
  using drain_delivers [OF sample_channel_reach]
  by (simp add: sample_channel_eq stream_def in_flight_def)

text \<open>
  C25. A peer that keeps up gets every frame. As long as each send finds room in the queue and no write fails, everything
  that was sent, update or not, is written exactly once and in order once the drain has run.
\<close>

theorem keeping_up_gets_everything:
  assumes "keeps_up sent c"
  shows "wire_out (run_drain (2 * kMaxOutboxFrames + 2) c) = sent"
proof -
  have c: "ch_reach sent True c" "\<not> closed c" "stream c = sent" using keeps_up_stream [OF assms] by simp_all
  then show ?thesis using drained_stream [OF c(1,2)] by simp
qed

theorem keeping_up_gets_everything_witness:
  "wire_out (run_drain (2 * kMaxOutboxFrames + 2)
       (snd (send_locked (sample_ob [2] (Some ''x'')) (snd (send_locked (sample_ob [1] (Some ''x'')) new_channel))))) =
     [sample_ob [1] (Some ''x''), sample_ob [2] (Some ''x'')]"
proof (rule keeping_up_gets_everything)
  let ?a = "sample_ob [1] (Some ''x'')" and ?b = "sample_ob [2] (Some ''x'')"
  have one: "keeps_up ([] @ [?a]) (snd (send_locked ?a new_channel))"
    by (rule up_sent [OF up_start _ prod.collapse [symmetric]]) (simp add: new_channel_def kMaxOutboxFrames_def)
  have "length (outbox (snd (send_locked ?a new_channel))) < kMaxOutboxFrames"
    by (simp add: send_locked_room new_channel_def kMaxOutboxFrames_def start_drain_fields)
      (simp add: push_outbound_def)
  from up_sent [OF one this prod.collapse [symmetric], of ?b]
  show "keeps_up [?a, ?b] (snd (send_locked ?b (snd (send_locked ?a new_channel))))" by simp
qed

text \<open>
  Coalescing in place can carry an update past a removal. Whenever the queue is two frames short
  of its cap with undroppable frames, the sends "update \<open>k\<close>, removal, update \<open>k\<close>" leave as "update \<open>k\<close>,
  removal": the peer ends without the pair although the owner published it last.
\<close>

lemma coalescing_overtakes_removal:
  assumes "list_all (\<lambda>ob. ob_key ob = None) obs" "length obs + 2 = kMaxOutboxFrames"
    and "ob_key u1 = Some k" "ob_key rm = None" "ob_key u2 = Some k"
  shows "\<exists>c. ch_reach (obs @ [u1, rm, u2]) True c \<and> \<not> closed c \<and> stream c = obs @ [u2, rm]"
  using assms by (rule overtaken_removal)

text \<open>
  C40. A full queue forgets values that nothing supersedes. When the queue holds one update, of \<open>k1\<close>, and is full, an
  update of another key \<open>k2\<close> takes its place: on a connection that stays open the peer gets neither the
  value of \<open>k1\<close> nor any later one, until \<open>k1\<close> is published again.
\<close>

theorem unsuperseded_update_dropped:
  assumes "list_all (\<lambda>ob. ob_key ob = None) obs" "length obs + 1 = kMaxOutboxFrames"
    and "ob_key u1 = Some k1" "ob_key u2 = Some k2" "k1 \<noteq> k2"
  shows "\<exists>c. ch_reach (obs @ [u1, u2]) True c \<and> \<not> closed c \<and> stream c = obs @ [u2]"
  using assms by (rule dropped_update)

theorem unsuperseded_update_dropped_witness:
  "\<exists>c. ch_reach (replicate 4095 (sample_ob [1] None) @
        [sample_ob [2] (Some ''x''), sample_ob [3] (Some ''y'')]) True c \<and>
     \<not> closed c \<and> stream c = replicate 4095 (sample_ob [1] None) @ [sample_ob [3] (Some ''y'')]"
  by (rule unsuperseded_update_dropped [where ?k1.0 = "PairKey (I32 7) ''x''" and ?k2.0 = "PairKey (I32 7) ''y''"])
    (simp_all add: sample_ob_def kMaxOutboxFrames_def list_all_iff)

text \<open>
  Framing is a round trip: from the concatenated bytes of any frames that \<^verbatim>\<open>frame\<close> can build, a peer's
  reads return exactly those frames and leave what follows them untouched; and whatever a read accepts
  has a known type and a payload of the announced length within the limit.
\<close>

lemma framing_roundtrip:
  "(list_all sendable fs \<longrightarrow>
     read_frames (length fs) (concat (map frame_bytes fs) @ rest) = Inr (fs, rest)) \<and>
   (channel_read input = Inr (f, after) \<longrightarrow>
     length (fr_payload f) = unat (payload_length (fr_header f)) \<and>
     length (fr_payload f) \<le> kMaxPayload \<and> h_type (fr_header f) \<noteq> MT_Invalid \<and>
     length input = kHeaderSize + length (fr_payload f) + length after)"
  using read_frames_concat channel_read_bounds by blast

definition sample_frame :: Frame where
  "sample_frame = \<lparr>fr_header = \<lparr>h_type = MT_Pair, payload_length = 2, h_subscriber = I32 (-1)\<rparr>,
                   fr_payload = [7, 9]\<rparr>"

end
