(* ===== verification/Client_Session.thy ===== *)
theory Client_Session
  imports Frame_Channel
begin

text \<open>
  \<^verbatim>\<open>ClientSession\<close> of \<^verbatim>\<open>src/client.cpp\<close>: one outbound connection to another component's server. Until the
  connection is up a session queues what it is asked to send, at most \<open>kMaxPendingFrames\<close> frames.

  The state is the members of the class and, for the coroutine \<^verbatim>\<open>run\<close>, where it is: connecting, sending
  on the frames \<^verbatim>\<open>connect\<close> found waiting, replaying subscriptions, or done. A critical section is one
  step, so a \<^verbatim>\<open>send\<close> of another thread may fall between two frames of the flush. Whether a connection
  attempt succeeds is the environment's choice of the step \<open>run_connected\<close>.

  Shown: the pending queue is bounded and holds the newest frames in order; a session that is left
  alone after connecting sends them first, in order, followed by the replayed subscriptions; a send
  that falls into the flush overtakes the frames that still wait.
\<close>

subsection \<open>State\<close>

definition kMaxPendingFrames :: nat where "kMaxPendingFrames = 1024"

datatype run_pc =
    Connecting
  | Flushing "Outbound list"
  | Replaying "Outbound list"
  | Idle

record ClientSession =
  host :: string
  port :: string
  endpoint_owner_id :: i32
  channel :: "FrameChannel option"
  pending :: "Outbound list"
  closing :: bool
  run_at :: run_pc

definition new_session :: "string \<Rightarrow> string \<Rightarrow> i32 \<Rightarrow> ClientSession" where
  "new_session h p owner =
     \<lparr>host = h, port = p, endpoint_owner_id = owner, channel = None, pending = [],
      closing = False, run_at = Connecting\<rparr>"

subsection \<open>Sending and closing\<close>

definition session_send_locked :: "Outbound \<Rightarrow> ClientSession \<Rightarrow> ClientSession" where
  "session_send_locked ob s =
     (case channel s of
        Some c \<Rightarrow> s\<lparr>channel := Some (channel_send (ob_bytes ob) (ob_key ob) c)\<rparr>
      | None \<Rightarrow>
          s\<lparr>pending := (if length (pending s) \<ge> kMaxPendingFrames then tl (pending s) else pending s)
                       @ [ob]\<rparr>)"

definition session_send :: "byte list \<Rightarrow> PairKey option \<Rightarrow> ClientSession \<Rightarrow> ClientSession" where
  "session_send fr key s =
     (if closing s then s else session_send_locked \<lparr>ob_bytes = fr, ob_key = key\<rparr> s)"

text \<open>
  \<^verbatim>\<open>close\<close> moves the channel out of the session and closes it; the closed channel, which a running
  flush may still hold, drops whatever is sent on it.
\<close>

definition session_close :: "ClientSession \<Rightarrow> ClientSession" where
  "session_close s = s\<lparr>closing := True, channel := None, pending := []\<rparr>"

subsection \<open>The coroutine\<close>

text \<open>
  A connection attempt that reached the peer: \<^verbatim>\<open>connect\<close> adopts the channel and takes the pending
  frames in one critical section, unless the session was closed meanwhile; then \<^verbatim>\<open>run\<close> ends.
\<close>

definition run_connected :: "ClientSession \<Rightarrow> ClientSession" where
  "run_connected s =
     (case run_at s of
        Connecting \<Rightarrow>
          if closing s then s\<lparr>run_at := Idle\<rparr>
          else s\<lparr>channel := Some new_channel, pending := [], run_at := Flushing (pending s)\<rparr>
      | _ \<Rightarrow> s)"

text \<open>
  The next step of a connected session: send one waiting frame straight on the channel, start the
  replay with the subscriptions that apply now, or send one of them as any other thread would.
\<close>

definition run_step :: "Outbound list \<Rightarrow> ClientSession \<Rightarrow> ClientSession" where
  "run_step subscriptions s =
     (case run_at s of
        Connecting \<Rightarrow> s
      | Flushing (ob # obs) \<Rightarrow>
          s\<lparr>channel := map_option (channel_send (ob_bytes ob) (ob_key ob)) (channel s),
            run_at := Flushing obs\<rparr>
      | Flushing [] \<Rightarrow> s\<lparr>run_at := Replaying subscriptions\<rparr>
      | Replaying (ob # obs) \<Rightarrow> (session_send (ob_bytes ob) (ob_key ob) s)\<lparr>run_at := Replaying obs\<rparr>
      | Replaying [] \<Rightarrow> s\<lparr>run_at := Idle\<rparr>
      | Idle \<Rightarrow> s)"

text \<open>
  One segment of the drain of the session's channel; the socket decides whether a write that is under way
  succeeds.
\<close>

definition channel_drain :: "bool \<Rightarrow> FrameChannel \<Rightarrow> FrameChannel" where
  "channel_drain succeeds c =
     (case drains c of
        [] \<Rightarrow> c
      | DrainTop # _ \<Rightarrow> drain_top 0 c
      | DrainWriting ob # _ \<Rightarrow> if succeeds then drain_written 0 ob c else drain_failed 0 c)"

definition session_drain :: "bool \<Rightarrow> ClientSession \<Rightarrow> ClientSession" where
  "session_drain succeeds s = s\<lparr>channel := map_option (channel_drain succeeds) (channel s)\<rparr>"

definition session_offer :: "Outbound \<Rightarrow> ClientSession \<Rightarrow> ClientSession" where
  "session_offer ob = session_send (ob_bytes ob) (ob_key ob)"

text \<open>A session whose channel is left to itself after the peer was reached.\<close>

fun run_steps :: "nat \<Rightarrow> Outbound list \<Rightarrow> ClientSession \<Rightarrow> ClientSession" where
  "run_steps 0 subscriptions s = s"
| "run_steps (Suc n) subscriptions s = run_steps n subscriptions (run_step subscriptions s)"

subsection \<open>The pending queue\<close>

definition session_inv :: "ClientSession \<Rightarrow> bool" where
  "session_inv s \<longleftrightarrow> length (pending s) \<le> kMaxPendingFrames \<and>
     (\<forall>c. channel s = Some c \<longrightarrow> ch_inv c \<and> pending s = []) \<and>
     (closing s \<longrightarrow> channel s = None) \<and> (run_at s = Connecting \<longrightarrow> channel s = None)"

lemma session_offer_simps:
  "closing s \<Longrightarrow> session_offer ob s = s"
  "\<not> closing s \<Longrightarrow> channel s = Some c \<Longrightarrow> session_offer ob s = s\<lparr>channel := Some (offer_frame ob c)\<rparr>"
  "\<not> closing s \<Longrightarrow> channel s = None \<Longrightarrow> session_offer ob s =
     s\<lparr>pending := (if length (pending s) \<ge> kMaxPendingFrames then tl (pending s) else pending s) @ [ob]\<rparr>"
  by (simp_all add: session_offer_def session_send_def session_send_locked_def offer_frame_def)

lemma session_inv_locked: "session_inv s \<Longrightarrow> session_inv (session_send_locked ob s)"
  by (cases "channel s")
    (auto simp: session_inv_def session_send_locked_def offer_frame_inv kMaxPendingFrames_def
      simp flip: offer_frame_def)

lemma session_inv_offer: "session_inv s \<Longrightarrow> session_inv (session_offer ob s)"
  by (auto simp: session_offer_def session_send_def intro: session_inv_locked)

lemma session_inv_close: "session_inv s \<Longrightarrow> session_inv (session_close s)"
  by (simp add: session_inv_def session_close_def)

lemma ch_inv_new_channel [simp]: "ch_inv new_channel"
  using ch_reach_inv [OF ch_reach.start] .

lemma session_inv_connected: "session_inv s \<Longrightarrow> session_inv (run_connected s)"
  by (auto simp: session_inv_def run_connected_def split: run_pc.splits)

lemma session_inv_step:
  assumes "session_inv s"
  shows "session_inv (run_step subs s)"
proof (cases "run_at s")
  case (Flushing obs)
  then show ?thesis using assms
    by (cases obs; cases "channel s")
      (auto simp: run_step_def session_inv_def offer_frame_inv simp flip: offer_frame_def)
next
  case (Replaying obs)
  show ?thesis
  proof (cases obs)
    case (Cons ob obs')
    have "session_inv (session_offer ob s)" using assms by (rule session_inv_offer)
    then show ?thesis using Replaying Cons
      by (auto simp: run_step_def session_inv_def simp flip: session_offer_def)
  qed (use assms Replaying in \<open>simp add: run_step_def session_inv_def\<close>)
qed (use assms in \<open>simp_all add: run_step_def\<close>)

lemma ch_inv_drain: "ch_inv c \<Longrightarrow> ch_inv (channel_drain succeeds c)"
  by (cases "drains c")
    (auto simp: channel_drain_def intro: ch_inv_top ch_inv_written ch_inv_failed split: drain_pc.splits)

lemma session_inv_drain: "session_inv s \<Longrightarrow> session_inv (session_drain succeeds s)"
  by (auto simp: session_inv_def session_drain_def ch_inv_drain)

text \<open>
  The states of a session. A send is its locked part: the test of \<^verbatim>\<open>closing_\<close> before it takes no lock, so
  a close may come between the two.
\<close>

inductive session_reach :: "ClientSession \<Rightarrow> bool" where
  start: "session_reach (new_session h p owner)"
| locked: "session_reach s \<Longrightarrow> session_reach (session_send_locked ob s)"
| close: "session_reach s \<Longrightarrow> session_reach (session_close s)"
| connected: "session_reach s \<Longrightarrow> session_reach (run_connected s)"
| step: "session_reach s \<Longrightarrow> session_reach (run_step subscriptions s)"
| drain: "session_reach s \<Longrightarrow> session_reach (session_drain succeeds s)"

lemma session_reach_inv: "session_reach s \<Longrightarrow> session_inv s"
proof (induction rule: session_reach.induct)
  case (start h p owner)
  show ?case by (simp add: session_inv_def new_session_def)
next
  case (locked s ob)
  show ?case using locked.IH by (rule session_inv_locked)
qed (auto intro: session_inv_close session_inv_connected session_inv_step session_inv_drain)

definition newest :: "nat \<Rightarrow> 'a list \<Rightarrow> 'a list" where
  "newest n xs = drop (length xs - n) xs"

lemma newest_append: "newest n (newest n xs @ ys) = newest n (xs @ ys)"
proof -
  have "newest n xs @ ys = drop (length xs - n) (xs @ ys)" by (simp add: newest_def)
  moreover have "length xs + length ys - (length xs - n) - n + (length xs - n) =
      length xs + length ys - n" by simp
  ultimately show ?thesis by (simp add: newest_def del: drop_append)
qed

lemma newest_all: "length xs \<le> n \<Longrightarrow> newest n xs = xs"
  by (simp add: newest_def)

lemma newest_snoc:
  assumes "length xs \<le> n" "0 < n"
  shows "(if length xs \<ge> n then tl xs else xs) @ [x] = newest n (xs @ [x])"
  using assms by (cases xs) (auto simp: newest_def)

lemma pending_offers:
  "\<not> closing s \<Longrightarrow> channel s = None \<Longrightarrow> length (pending s) \<le> kMaxPendingFrames \<Longrightarrow>
     fold session_offer obs s = s\<lparr>pending := newest kMaxPendingFrames (pending s @ obs)\<rparr>"
proof (induction obs arbitrary: s)
  case (Cons ob obs)
  have step: "session_offer ob s = s\<lparr>pending := newest kMaxPendingFrames (pending s @ [ob])\<rparr>"
    using Cons.prems newest_snoc [of "pending s" kMaxPendingFrames ob]
    by (simp add: session_offer_simps kMaxPendingFrames_def)
  have "length (newest kMaxPendingFrames (pending s @ [ob])) \<le> kMaxPendingFrames"
    by (simp add: newest_def)
  then show ?case using Cons.IH [of "session_offer ob s"] Cons.prems
    by (simp add: step newest_append)
qed (simp add: newest_all)

subsection \<open>The flush\<close>

lemma offers_stream_room:
  "ch_inv c \<Longrightarrow> \<not> closed c \<Longrightarrow> length (outbox c) + length obs \<le> kMaxOutboxFrames \<Longrightarrow>
     \<not> closed (fold offer_frame obs c) \<and> ch_inv (fold offer_frame obs c) \<and>
     stream (fold offer_frame obs c) = stream c @ obs \<and>
     length (outbox (fold offer_frame obs c)) = length (outbox c) + length obs"
proof (induction obs arbitrary: c)
  case (Cons ob obs)
  have ob: "\<lparr>ob_bytes = ob_bytes ob, ob_key = ob_key ob\<rparr> = ob" by simp
  have step: "offer_frame ob c = start_drain (push_outbound ob c)"
    using Cons.prems send_locked_room [of c ob]
    unfolding offer_frame_def channel_send_def ob by simp
  have "ch_inv (offer_frame ob c)" using Cons.prems(1) by (rule offer_frame_inv)
  moreover have "\<not> closed (offer_frame ob c)" "stream (offer_frame ob c) = stream c @ [ob]"
    "length (outbox (offer_frame ob c)) = Suc (length (outbox c))"
    using Cons.prems(2)
    by (simp_all add: step stream_simps start_drain_fields) (simp_all add: push_outbound_def)
  ultimately show ?case using Cons.IH [of "offer_frame ob c"] Cons.prems(3) by simp
qed simp

lemma run_steps_flush:
  "run_at s = Flushing obs \<Longrightarrow> channel s = Some c \<Longrightarrow>
     run_steps (length obs) subs s =
       s\<lparr>channel := Some (fold offer_frame obs c), run_at := Flushing []\<rparr>"
proof (induction obs arbitrary: s c)
  case (Cons ob obs)
  then show ?case
    using Cons.IH [of "run_step subs s" "offer_frame ob c"]
    by (simp add: run_step_def offer_frame_def)
qed simp

lemma run_steps_replay:
  "run_at s = Replaying obs \<Longrightarrow> channel s = Some c \<Longrightarrow> \<not> closing s \<Longrightarrow>
     run_steps (length obs) subs s =
       s\<lparr>channel := Some (fold offer_frame obs c), run_at := Replaying []\<rparr>"
proof (induction obs arbitrary: s c)
  case (Cons ob obs)
  have "run_step subs s = (session_offer ob s)\<lparr>run_at := Replaying obs\<rparr>"
    using Cons.prems by (simp add: run_step_def session_offer_def)
  also have "\<dots> = s\<lparr>channel := Some (offer_frame ob c), run_at := Replaying obs\<rparr>"
    using Cons.prems by (simp add: session_offer_simps)
  finally show ?case
    using Cons.IH [of "run_step subs s" "offer_frame ob c"] Cons.prems by simp
qed simp

lemma run_steps_add: "run_steps (m + n) subs s = run_steps n subs (run_steps m subs s)"
  by (induction m arbitrary: s) simp_all

lemma run_steps_all:
  assumes "run_at s = Flushing obs" "channel s = Some c" "\<not> closing s"
  shows "run_steps (length obs + 1 + length subs + 1) subs s =
    s\<lparr>channel := Some (fold offer_frame (obs @ subs) c), run_at := Idle\<rparr>"
proof -
  let ?s1 = "s\<lparr>channel := Some (fold offer_frame obs c), run_at := Flushing []\<rparr>"
  let ?s2 = "?s1\<lparr>run_at := Replaying subs\<rparr>"
  let ?s3 = "?s2\<lparr>channel := Some (fold offer_frame subs (fold offer_frame obs c)),
      run_at := Replaying []\<rparr>"
  have "run_steps (length obs) subs s = ?s1" using assms(1,2) by (rule run_steps_flush)
  moreover have "run_steps 1 subs ?s1 = ?s2" by (simp add: run_step_def)
  moreover have "run_steps (length subs) subs ?s2 = ?s3"
    using assms(3) by (intro run_steps_replay) simp_all
  moreover have "run_steps 1 subs ?s3 = ?s3\<lparr>run_at := Idle\<rparr>" by (simp add: run_step_def)
  ultimately show ?thesis by (simp only: run_steps_add) simp
qed

subsection \<open>Properties\<close>

text \<open>
  In every state a session can reach, whatever interleaving of sends, a close and the coroutine led
  there, at most \<open>kMaxPendingFrames\<close> frames are pending, none while a channel is adopted, the channel
  satisfies its invariant, and a closed session holds no channel.
\<close>

lemma session_invariant:
  assumes "session_reach s"
  shows "length (pending s) \<le> kMaxPendingFrames \<and>
    (\<forall>c. channel s = Some c \<longrightarrow> ch_inv c \<and> pending s = []) \<and> (closing s \<longrightarrow> channel s = None)"
  using session_reach_inv [OF assms] by (simp add: session_inv_def)

text \<open>
  C26. Frames sent to a component that cannot be reached yet are held in order, the newest
  \<open>kMaxPendingFrames\<close> of them; and once the connection is up and nobody else sends meanwhile, the
  coroutine ends with exactly these frames on the channel, in order, followed by the replayed
  subscriptions: none of them is lost or coalesced on the way.
\<close>

theorem connect_flushes_pending_in_order:
  assumes "length subs + kMaxPendingFrames \<le> kMaxOutboxFrames"
  shows "\<exists>c. run_steps (length (newest kMaxPendingFrames obs) + 1 + length subs + 1) subs
        (run_connected (fold session_offer obs (new_session h p owner))) =
      (new_session h p owner)\<lparr>channel := Some c, run_at := Idle\<rparr> \<and>
    stream c = newest kMaxPendingFrames obs @ subs \<and> \<not> closed c"
proof -
  let ?n = "newest kMaxPendingFrames obs"
  let ?s = "run_connected (fold session_offer obs (new_session h p owner))"
  have "fold session_offer obs (new_session h p owner) = (new_session h p owner)\<lparr>pending := ?n\<rparr>"
    using pending_offers [of "new_session h p owner" obs] by (simp add: new_session_def)
  then have s: "?s = (new_session h p owner)\<lparr>channel := Some new_channel, run_at := Flushing ?n\<rparr>"
    by (simp add: run_connected_def new_session_def)
  have "length (?n @ subs) \<le> kMaxOutboxFrames"
    using assms by (simp add: newest_def)
  then have "stream (fold offer_frame (?n @ subs) new_channel) = ?n @ subs"
    "\<not> closed (fold offer_frame (?n @ subs) new_channel)"
    using offers_stream_room [of new_channel "?n @ subs"]
    by (simp_all add: stream_new_channel) (simp_all add: new_channel_def)
  moreover have "run_steps (length ?n + 1 + length subs + 1) subs ?s =
      ?s\<lparr>channel := Some (fold offer_frame (?n @ subs) new_channel), run_at := Idle\<rparr>"
    using s by (intro run_steps_all) (simp_all add: new_session_def)
  ultimately show ?thesis using s by auto
qed

theorem connect_flushes_pending_in_order_witness:
  "\<exists>c. run_steps 4 [sample_ob [3] None]
        (run_connected (fold session_offer [sample_ob [2] (Some ''x'')] (new_session ''h'' ''p'' (I32 7)))) =
      (new_session ''h'' ''p'' (I32 7))\<lparr>channel := Some c, run_at := Idle\<rparr> \<and>
    stream c = [sample_ob [2] (Some ''x''), sample_ob [3] None] \<and> \<not> closed c"
  using connect_flushes_pending_in_order [of "[sample_ob [3] None]" "[sample_ob [2] (Some ''x'')]"
      "''h''" "''p''" "I32 7"]
  by (simp add: newest_def kMaxPendingFrames_def kMaxOutboxFrames_def numeral_eq_Suc)

text \<open>
  The comment in \<^verbatim>\<open>connect\<close> that what was queued "goes out first, in order" does not hold against
  another thread: \<^verbatim>\<open>channel_mutex_\<close> is released before the flush, so a frame sent between the adoption
  and the flush is ahead of every frame that was queued before it, whatever the frames are.
\<close>

lemma send_during_flush_overtakes:
  assumes "0 < length queued" "length queued \<le> kMaxPendingFrames"
  shows "\<exists>c. channel (run_steps (length queued) []
        (session_offer late (run_connected (fold session_offer queued (new_session h p owner))))) =
      Some c \<and> stream c = late # queued"
proof -
  let ?s = "session_offer late (run_connected (fold session_offer queued (new_session h p owner)))"
  have "fold session_offer queued (new_session h p owner) = (new_session h p owner)\<lparr>pending := queued\<rparr>"
    using pending_offers [of "new_session h p owner" queued] assms(2)
    by (simp add: new_session_def newest_all)
  then have s: "?s = (new_session h p owner)\<lparr>channel := Some (offer_frame late new_channel),
      run_at := Flushing queued\<rparr>"
    by (simp add: run_connected_def new_session_def session_offer_simps)
  have "length (late # queued) \<le> kMaxOutboxFrames"
    using assms(2) by (simp add: kMaxPendingFrames_def kMaxOutboxFrames_def)
  then have "stream (fold offer_frame (late # queued) new_channel) = late # queued"
    using offers_stream_room [of new_channel "late # queued"]
    by (simp add: stream_new_channel) (simp add: new_channel_def)
  moreover have "run_steps (length queued) [] ?s =
      ?s\<lparr>channel := Some (fold offer_frame queued (offer_frame late new_channel)), run_at := Flushing []\<rparr>"
    using s by (intro run_steps_flush) simp_all
  ultimately show ?thesis by simp
qed

end
