(* ===== verification/Pair_Space.thy ===== *)
theory Pair_Space
  imports Codec
begin

text \<open>
  \<^verbatim>\<open>include/srnp/PairSpace.h\<close> and \<^verbatim>\<open>src/PairSpace.cpp\<close>: every pair a component knows about, with the
  subscribers and callbacks the component keeps for it. Callbacks are opaque values of a type \<open>'cb\<close>; the
  space stores and returns them and never runs one. \<^verbatim>\<open>Clock::now()\<close> is the argument \<open>now\<close>. A returned
  reference to an entry is the key under which the caller finds it.

  \<open>ps_inv\<close> is the invariant that ties the four tables together: an entry sits under the key of its pair,
  subscriber lists have no duplicates, and a callback handle names exactly one registration. Every
  operation keeps it. The abstract view (\<open>published\<close>, \<open>subscribers_of\<close>) is what a component promises:
  placeholders are invisible, removing a pair keeps its subscribers, republishing reaches them again.
\<close>

subsection \<open>State\<close>

record 'cb PairEntry =
  pe_pair :: Pair
  subscribers :: "i32 list"
  callbacks :: "(CallbackHandle, 'cb) std_map"

record 'cb PairSpace =
  pairs :: "(PairKey, 'cb PairEntry) std_map"
  u_subscribers :: "i32 list"
  callback_owners :: "(CallbackHandle, PairKey) std_map"
  universal_callbacks :: "(CallbackHandle, 'cb) std_map"
  next_callback_handle :: CallbackHandle

definition empty_space :: "'cb PairSpace" where
  "empty_space = \<lparr>pairs = m_empty, u_subscribers = [], callback_owners = m_empty,
                  universal_callbacks = m_empty, next_callback_handle = kInvalidCallbackHandle\<rparr>"

subsection \<open>Lookups\<close>

definition find_entry :: "i32 \<Rightarrow> string \<Rightarrow> 'cb PairSpace \<Rightarrow> 'cb PairEntry option" where
  "find_entry owner key s = m_find (pairs s) (PairKey owner key)"

definition copyOf :: "i32 \<Rightarrow> string \<Rightarrow> 'cb PairSpace \<Rightarrow> Pair option" where
  "copyOf owner key s = map_option pe_pair (find_entry owner key s)"

definition getAllPairs :: "'cb PairSpace \<Rightarrow> (PairKey \<times> 'cb PairEntry) list" where
  "getAllPairs s = m_entries (pairs s)"

definition universalCallbacks :: "'cb PairSpace \<Rightarrow> 'cb list" where
  "universalCallbacks s = map snd (m_entries (universal_callbacks s))"

subsection \<open>Publishing and removing\<close>

definition addPair :: "TimePoint \<Rightarrow> Pair \<Rightarrow> 'cb PairSpace \<Rightarrow> 'cb PairSpace" where
  "addPair now p s =
     (case m_find (pairs s) (PairKey (getOwner p) (getKey p)) of
        None \<Rightarrow>
          s\<lparr>pairs := m_emplace (PairKey (getOwner p) (getKey p))
                       \<lparr>pe_pair = setWriteTime now p, subscribers = u_subscribers s,
                        callbacks = m_empty\<rparr> (pairs s)\<rparr>
      | Some existing \<Rightarrow>
          s\<lparr>pairs := m_assign (PairKey (getOwner p) (getKey p))
                       (existing\<lparr>pe_pair := setWriteTime now (setValue (getValue p)
                          (setType (getType p) (pe_pair existing)))\<rparr>) (pairs s)\<rparr>)"

definition removePair :: "i32 \<Rightarrow> string \<Rightarrow> 'cb PairSpace \<Rightarrow> 'cb PairSpace" where
  "removePair owner key s =
     (case m_find (pairs s) (PairKey owner key) of
        None \<Rightarrow> s
      | Some entry \<Rightarrow>
          if subscribers entry = [] \<and> m_entries (callbacks entry) = []
          then s\<lparr>pairs := m_erase (PairKey owner key) (pairs s)\<rparr>
          else s\<lparr>pairs := m_assign (PairKey owner key)
                   (entry\<lparr>pe_pair := setType PT_Invalid (setValue [] (pe_pair entry))\<rparr>) (pairs s)\<rparr>)"

text \<open>The placeholder both \<^verbatim>\<open>addCallback\<close> and \<^verbatim>\<open>addSubscription\<close> create for a key nobody published.\<close>

definition ensure_entry :: "TimePoint \<Rightarrow> i32 \<Rightarrow> string \<Rightarrow> 'cb PairSpace \<Rightarrow> 'cb PairSpace" where
  "ensure_entry now owner key s =
     (case find_entry owner key s of
        None \<Rightarrow> addPair now (new_pair owner key [] PT_Invalid) s
      | Some _ \<Rightarrow> s)"

subsection \<open>Callbacks\<close>

definition addCallback ::
    "TimePoint \<Rightarrow> i32 \<Rightarrow> string \<Rightarrow> 'cb \<Rightarrow> 'cb PairSpace \<Rightarrow> CallbackHandle \<times> 'cb PairSpace" where
  "addCallback now owner key cb s =
     (let h = next_callback_handle s + 1;
          s1 = s\<lparr>next_callback_handle := h,
                 callback_owners := m_emplace h (PairKey owner key) (callback_owners s)\<rparr>;
          s2 = ensure_entry now owner key s1
      in (h, s2\<lparr>pairs := m_update (PairKey owner key)
                  (\<lambda>e. e\<lparr>callbacks := m_emplace h cb (callbacks e)\<rparr>) (pairs s2)\<rparr>))"

definition addCallbackToAll :: "'cb \<Rightarrow> 'cb PairSpace \<Rightarrow> CallbackHandle \<times> 'cb PairSpace" where
  "addCallbackToAll cb s =
     (let h = next_callback_handle s + 1
      in (h, s\<lparr>next_callback_handle := h,
               universal_callbacks := m_emplace h cb (universal_callbacks s)\<rparr>))"

definition removeCallback :: "CallbackHandle \<Rightarrow> 'cb PairSpace \<Rightarrow> 'cb PairSpace" where
  "removeCallback h s =
     (case m_find (callback_owners s) h of
        None \<Rightarrow> s\<lparr>universal_callbacks := m_erase h (universal_callbacks s)\<rparr>
      | Some k \<Rightarrow>
          s\<lparr>pairs := m_update k (\<lambda>e. e\<lparr>callbacks := m_erase h (callbacks e)\<rparr>) (pairs s),
            callback_owners := m_erase h (callback_owners s)\<rparr>)"

subsection \<open>Subscriptions\<close>

definition push_new :: "'a \<Rightarrow> 'a list \<Rightarrow> 'a list" where
  "push_new x xs = (if x \<in> set xs then xs else xs @ [x])"

definition addSubscription ::
    "TimePoint \<Rightarrow> i32 \<Rightarrow> string \<Rightarrow> i32 \<Rightarrow> 'cb PairSpace \<Rightarrow> 'cb PairSpace" where
  "addSubscription now owner key subscriber s =
     (let s1 = ensure_entry now owner key s
      in s1\<lparr>pairs := m_update (PairKey owner key)
              (\<lambda>e. e\<lparr>subscribers := push_new subscriber (subscribers e)\<rparr>) (pairs s1)\<rparr>)"

definition removeSubscription :: "i32 \<Rightarrow> string \<Rightarrow> i32 \<Rightarrow> 'cb PairSpace \<Rightarrow> 'cb PairSpace" where
  "removeSubscription owner key subscriber s =
     (case find_entry owner key s of
        None \<Rightarrow> s
      | Some _ \<Rightarrow>
          s\<lparr>pairs := m_update (PairKey owner key)
              (\<lambda>e. e\<lparr>subscribers := removeAll subscriber (subscribers e)\<rparr>) (pairs s)\<rparr>)"

definition addSubscriptionToAll :: "i32 \<Rightarrow> 'cb PairSpace \<Rightarrow> 'cb PairSpace" where
  "addSubscriptionToAll subscriber s =
     (if subscriber \<in> set (u_subscribers s) then s
      else s\<lparr>u_subscribers := u_subscribers s @ [subscriber],
             pairs := m_each (\<lambda>e. e\<lparr>subscribers := push_new subscriber (subscribers e)\<rparr>) (pairs s)\<rparr>)"

definition removeSubscriptionToAll :: "i32 \<Rightarrow> 'cb PairSpace \<Rightarrow> 'cb PairSpace" where
  "removeSubscriptionToAll subscriber s =
     s\<lparr>u_subscribers := removeAll subscriber (u_subscribers s),
       pairs := m_each (\<lambda>e. e\<lparr>subscribers := removeAll subscriber (subscribers e)\<rparr>) (pairs s)\<rparr>"

subsection \<open>The abstract view\<close>

text \<open>
  What the rest of a component may observe: the published value and type under a key (\<open>None\<close> for a
  placeholder), and who is told when it changes.
\<close>

definition published :: "'cb PairSpace \<Rightarrow> PairKey \<Rightarrow> (string \<times> PairType) option" where
  "published s k =
     (case m_find (pairs s) k of
        None \<Rightarrow> None
      | Some e \<Rightarrow> if getType (pe_pair e) = PT_Invalid then None
                  else Some (getValue (pe_pair e), getType (pe_pair e)))"

definition subscribers_of :: "'cb PairSpace \<Rightarrow> PairKey \<Rightarrow> i32 list" where
  "subscribers_of s k =
     (case m_find (pairs s) k of None \<Rightarrow> u_subscribers s | Some e \<Rightarrow> subscribers e)"

definition callbacks_of :: "'cb PairSpace \<Rightarrow> PairKey \<Rightarrow> (CallbackHandle, 'cb) std_map" where
  "callbacks_of s k =
     (case m_find (pairs s) k of None \<Rightarrow> m_empty | Some e \<Rightarrow> callbacks e)"

definition entries_ok :: "'cb PairSpace \<Rightarrow> bool" where
  "entries_ok s \<longleftrightarrow> distinct (u_subscribers s) \<and>
     (\<forall>k e. m_find (pairs s) k = Some e \<longrightarrow> key_of (pe_pair e) = k \<and> distinct (subscribers e))"

definition handles_ok :: "'cb PairSpace \<Rightarrow> bool" where
  "handles_ok s \<longleftrightarrow>
     (\<forall>h k. m_find (callback_owners s) h = Some k \<longleftrightarrow> m_find (callbacks_of s k) h \<noteq> None) \<and>
     (\<forall>h. m_find (callback_owners s) h \<noteq> None \<longrightarrow> m_find (universal_callbacks s) h = None) \<and>
     (\<forall>h. m_find (callback_owners s) h \<noteq> None \<or> m_find (universal_callbacks s) h \<noteq> None \<longrightarrow>
          0 < h \<and> h \<le> next_callback_handle s)"

definition ps_inv :: "'cb PairSpace \<Rightarrow> bool" where
  "ps_inv s \<longleftrightarrow> entries_ok s \<and> handles_ok s"

text \<open>
  The specification a pair space implements, as a state of its own: the published values, the audience
  of every key, and those who asked for everything.
\<close>

record space_spec =
  spec_view :: "PairKey \<Rightarrow> (string \<times> PairType) option"
  spec_audience :: "PairKey \<Rightarrow> i32 list"
  spec_all :: "i32 list"

definition abs_space :: "'cb PairSpace \<Rightarrow> space_spec" where
  "abs_space s = \<lparr>spec_view = published s, spec_audience = subscribers_of s,
                  spec_all = u_subscribers s\<rparr>"

definition spec_publish :: "Pair \<Rightarrow> space_spec \<Rightarrow> space_spec" where
  "spec_publish p a = a\<lparr>spec_view := (spec_view a)
     (key_of p := if getType p = PT_Invalid then None else Some (getValue p, getType p))\<rparr>"

definition spec_retract :: "PairKey \<Rightarrow> space_spec \<Rightarrow> space_spec" where
  "spec_retract k a = a\<lparr>spec_view := (spec_view a)(k := None)\<rparr>"

definition spec_subscribe :: "PairKey \<Rightarrow> i32 \<Rightarrow> space_spec \<Rightarrow> space_spec" where
  "spec_subscribe k sub a = a\<lparr>spec_audience := (spec_audience a)(k := push_new sub (spec_audience a k))\<rparr>"

definition spec_unsubscribe :: "PairKey \<Rightarrow> i32 \<Rightarrow> space_spec \<Rightarrow> space_spec" where
  "spec_unsubscribe k sub a =
     a\<lparr>spec_audience := (spec_audience a)(k := removeAll sub (spec_audience a k))\<rparr>"

definition spec_subscribe_all :: "i32 \<Rightarrow> space_spec \<Rightarrow> space_spec" where
  "spec_subscribe_all sub a =
     (if sub \<in> set (spec_all a) then a
      else a\<lparr>spec_all := spec_all a @ [sub], spec_audience := (\<lambda>k. push_new sub (spec_audience a k))\<rparr>)"

definition spec_unsubscribe_all :: "i32 \<Rightarrow> space_spec \<Rightarrow> space_spec" where
  "spec_unsubscribe_all sub a =
     a\<lparr>spec_all := removeAll sub (spec_all a),
       spec_audience := (\<lambda>k. removeAll sub (spec_audience a k))\<rparr>"

subsection \<open>What each operation does to the entries\<close>

lemma find_addPair:
  "m_find (pairs (addPair now p s)) k =
     (if k = key_of p
      then Some (case m_find (pairs s) k of
          None \<Rightarrow> \<lparr>pe_pair = setWriteTime now p, subscribers = u_subscribers s, callbacks = m_empty\<rparr>
        | Some e \<Rightarrow> e\<lparr>pe_pair := setWriteTime now (setValue (getValue p)
                              (setType (getType p) (pe_pair e)))\<rparr>)
      else m_find (pairs s) k)"
  by (auto simp: addPair_def key_of_def split: option.splits)

lemma addPair_frame [simp]:
  "u_subscribers (addPair now p s) = u_subscribers s"
  "callback_owners (addPair now p s) = callback_owners s"
  "universal_callbacks (addPair now p s) = universal_callbacks s"
  "next_callback_handle (addPair now p s) = next_callback_handle s"
  by (simp_all add: addPair_def split: option.splits)

lemma m_entries_Nil_iff: "m_entries m = [] \<longleftrightarrow> m = m_empty"
  by (metis m_entries_simps(1) m_ext smap.find_entries)

lemma find_removePair:
  "m_find (pairs (removePair owner key s)) k =
     (if k = PairKey owner key
      then (case m_find (pairs s) k of
          None \<Rightarrow> None
        | Some e \<Rightarrow> if subscribers e = [] \<and> callbacks e = m_empty then None
                    else Some (e\<lparr>pe_pair := setType PT_Invalid (setValue [] (pe_pair e))\<rparr>))
      else m_find (pairs s) k)"
  by (auto simp: removePair_def m_entries_Nil_iff split: option.splits)

lemma removePair_frame [simp]:
  "u_subscribers (removePair owner key s) = u_subscribers s"
  "callback_owners (removePair owner key s) = callback_owners s"
  "universal_callbacks (removePair owner key s) = universal_callbacks s"
  "next_callback_handle (removePair owner key s) = next_callback_handle s"
  by (simp_all add: removePair_def split: option.splits)

lemma ensure_entry_frame [simp]:
  "u_subscribers (ensure_entry now owner key s) = u_subscribers s"
  "callback_owners (ensure_entry now owner key s) = callback_owners s"
  "universal_callbacks (ensure_entry now owner key s) = universal_callbacks s"
  "next_callback_handle (ensure_entry now owner key s) = next_callback_handle s"
  by (simp_all add: ensure_entry_def split: option.splits)

lemma find_ensure_entry:
  "m_find (pairs (ensure_entry now owner key s)) k =
     (if k = PairKey owner key \<and> m_find (pairs s) k = None
      then Some \<lparr>pe_pair = setWriteTime now (new_pair owner key [] PT_Invalid),
                 subscribers = u_subscribers s, callbacks = m_empty\<rparr>
      else m_find (pairs s) k)"
  by (auto simp: ensure_entry_def find_entry_def find_addPair split: option.splits)

subsection \<open>What each operation does to the abstract view\<close>

lemma published_addPair:
  "published (addPair now p s) =
     (published s)(key_of p := if getType p = PT_Invalid then None else Some (getValue p, getType p))"
  by (auto simp: fun_eq_iff published_def find_addPair pair_setters split: option.splits)

lemma subscribers_addPair: "subscribers_of (addPair now p s) = subscribers_of s"
  by (auto simp: fun_eq_iff subscribers_of_def find_addPair split: option.splits)

lemma callbacks_addPair: "callbacks_of (addPair now p s) = callbacks_of s"
  by (auto simp: fun_eq_iff callbacks_of_def find_addPair split: option.splits)

lemma published_removePair:
  "published (removePair owner key s) = (published s)(PairKey owner key := None)"
  by (auto simp: fun_eq_iff published_def find_removePair pair_setters split: option.splits)

lemma subscribers_removePair:
  "subscribers_of (removePair owner key s) k =
     (if k = PairKey owner key \<and> subscribers_of s k = [] \<and> callbacks_of s k = m_empty
      then u_subscribers s else subscribers_of s k)"
  by (auto simp: subscribers_of_def callbacks_of_def find_removePair split: option.splits)

lemma callbacks_removePair: "callbacks_of (removePair owner key s) = callbacks_of s"
  by (auto simp: fun_eq_iff callbacks_of_def find_removePair split: option.splits)

lemma published_ensure_entry: "published (ensure_entry now owner key s) = published s"
  by (auto simp: fun_eq_iff published_def find_ensure_entry pair_setters new_pair_def
      split: option.splits)

lemma subscribers_ensure_entry: "subscribers_of (ensure_entry now owner key s) = subscribers_of s"
  by (auto simp: fun_eq_iff subscribers_of_def find_ensure_entry split: option.splits)

lemma callbacks_ensure_entry: "callbacks_of (ensure_entry now owner key s) = callbacks_of s"
  by (auto simp: fun_eq_iff callbacks_of_def find_ensure_entry split: option.splits)

lemma published_addSubscription:
  "published (addSubscription now owner key sub s) = published s"
  by (auto simp: fun_eq_iff published_def addSubscription_def Let_def find_ensure_entry pair_setters
      new_pair_def split: option.splits)

lemma subscribers_addSubscription:
  "subscribers_of (addSubscription now owner key sub s) =
     (subscribers_of s)(PairKey owner key := push_new sub (subscribers_of s (PairKey owner key)))"
  by (auto simp: fun_eq_iff subscribers_of_def addSubscription_def Let_def find_ensure_entry
      split: option.splits)

lemma published_removeSubscription:
  "published (removeSubscription owner key sub s) = published s"
  by (auto simp: fun_eq_iff published_def removeSubscription_def split: option.splits)

lemma subscribers_removeSubscription:
  "m_find (pairs s) (PairKey owner key) \<noteq> None \<Longrightarrow>
   subscribers_of (removeSubscription owner key sub s) =
     (subscribers_of s)(PairKey owner key := removeAll sub (subscribers_of s (PairKey owner key)))"
  by (auto simp: fun_eq_iff subscribers_of_def removeSubscription_def find_entry_def
      split: option.splits)

lemma published_addSubscriptionToAll: "published (addSubscriptionToAll sub s) = published s"
  by (auto simp: fun_eq_iff published_def addSubscriptionToAll_def split: option.splits)

lemma subscribers_addSubscriptionToAll:
  "sub \<notin> set (u_subscribers s) \<Longrightarrow>
   subscribers_of (addSubscriptionToAll sub s) k = push_new sub (subscribers_of s k)"
  by (auto simp: subscribers_of_def addSubscriptionToAll_def push_new_def split: option.splits)

lemma published_removeSubscriptionToAll: "published (removeSubscriptionToAll sub s) = published s"
  by (auto simp: fun_eq_iff published_def removeSubscriptionToAll_def split: option.splits)

lemma subscribers_removeSubscriptionToAll:
  "subscribers_of (removeSubscriptionToAll sub s) k = removeAll sub (subscribers_of s k)"
  by (auto simp: subscribers_of_def removeSubscriptionToAll_def split: option.splits)

subsection \<open>Callback registrations\<close>

lemma callbacks_of_simps [simp]:
  "callbacks_of (s\<lparr>next_callback_handle := h\<rparr>) k = callbacks_of s k"
  "callbacks_of (s\<lparr>callback_owners := m\<rparr>) k = callbacks_of s k"
  "callbacks_of (s\<lparr>universal_callbacks := u\<rparr>) k = callbacks_of s k"
  "callbacks_of (s\<lparr>u_subscribers := us\<rparr>) k = callbacks_of s k"
  by (simp_all add: callbacks_of_def)

lemma callbacks_addCallback:
  "callbacks_of (snd (addCallback now owner key cb s)) =
     (callbacks_of s)(PairKey owner key :=
        m_emplace (next_callback_handle s + 1) cb (callbacks_of s (PairKey owner key)))"
  by (auto simp: fun_eq_iff callbacks_of_def addCallback_def Let_def find_ensure_entry
      split: option.splits)

lemma callbacks_removeCallback:
  "callbacks_of (removeCallback h s) k =
     (if m_find (callback_owners s) h = Some k then m_erase h (callbacks_of s k) else callbacks_of s k)"
  by (auto simp: callbacks_of_def removeCallback_def split: option.splits)

lemma callbacks_subscription_ops:
  "callbacks_of (addSubscription now owner key sub s) = callbacks_of s"
  "callbacks_of (removeSubscription owner key sub s) = callbacks_of s"
  "callbacks_of (addSubscriptionToAll sub s) = callbacks_of s"
  "callbacks_of (removeSubscriptionToAll sub s) = callbacks_of s"
  "callbacks_of (snd (addCallbackToAll cb s)) = callbacks_of s"
  by (auto simp: fun_eq_iff callbacks_of_def addSubscription_def removeSubscription_def Let_def
      addSubscriptionToAll_def removeSubscriptionToAll_def addCallbackToAll_def find_ensure_entry
      split: option.splits)

lemma subscription_ops_frame [simp]:
  "callback_owners (addSubscription now owner key sub s) = callback_owners s"
  "universal_callbacks (addSubscription now owner key sub s) = universal_callbacks s"
  "next_callback_handle (addSubscription now owner key sub s) = next_callback_handle s"
  "u_subscribers (addSubscription now owner key sub s) = u_subscribers s"
  "callback_owners (removeSubscription owner key sub s) = callback_owners s"
  "universal_callbacks (removeSubscription owner key sub s) = universal_callbacks s"
  "next_callback_handle (removeSubscription owner key sub s) = next_callback_handle s"
  "u_subscribers (removeSubscription owner key sub s) = u_subscribers s"
  "callback_owners (addSubscriptionToAll sub s) = callback_owners s"
  "universal_callbacks (addSubscriptionToAll sub s) = universal_callbacks s"
  "next_callback_handle (addSubscriptionToAll sub s) = next_callback_handle s"
  "callback_owners (removeSubscriptionToAll sub s) = callback_owners s"
  "universal_callbacks (removeSubscriptionToAll sub s) = universal_callbacks s"
  "next_callback_handle (removeSubscriptionToAll sub s) = next_callback_handle s"
  by (simp_all add: addSubscription_def removeSubscription_def addSubscriptionToAll_def Let_def
      removeSubscriptionToAll_def split: option.splits)

subsection \<open>The invariant is kept\<close>

lemma handles_ok_frame:
  "handles_ok s \<Longrightarrow> callbacks_of t = callbacks_of s \<Longrightarrow> callback_owners t = callback_owners s \<Longrightarrow>
   universal_callbacks t = universal_callbacks s \<Longrightarrow>
   next_callback_handle t = next_callback_handle s \<Longrightarrow> handles_ok t"
  by (simp add: handles_ok_def)

lemma distinct_push_new [simp]: "distinct (push_new x xs) \<longleftrightarrow> distinct xs"
  by (simp add: push_new_def)

lemma set_push_new [simp]: "set (push_new x xs) = insert x (set xs)"
  by (auto simp: push_new_def)

lemma entries_okD:
  "entries_ok s \<Longrightarrow> m_find (pairs s) k = Some e \<Longrightarrow> key_of (pe_pair e) = k \<and> distinct (subscribers e)"
  "entries_ok s \<Longrightarrow> distinct (u_subscribers s)"
  by (auto simp: entries_ok_def)

lemma key_of_update [simp]:
  "key_of (setWriteTime now (setValue v (setType t p))) = key_of p"
  "key_of (setType t (setValue v p)) = key_of p"
  by simp_all

lemma entries_ok_addPair: "entries_ok s \<Longrightarrow> entries_ok (addPair now p s)"
  by (auto simp: entries_ok_def find_addPair split: if_splits option.splits)

lemma entries_ok_removePair: "entries_ok s \<Longrightarrow> entries_ok (removePair owner key s)"
  by (auto simp: entries_ok_def find_removePair split: if_splits option.splits)

lemma entries_ok_ensure_entry: "entries_ok s \<Longrightarrow> entries_ok (ensure_entry now owner key s)"
  by (simp add: ensure_entry_def entries_ok_addPair split: option.splits)

text \<open>An update of one entry, or of all, that keeps the pair and keeps its subscribers distinct.\<close>

lemma entries_ok_update:
  assumes "entries_ok s" "\<And>e. pe_pair (f e) = pe_pair e"
    "\<And>e. distinct (subscribers e) \<Longrightarrow> distinct (subscribers (f e))"
  shows "entries_ok (s\<lparr>pairs := m_update k f (pairs s)\<rparr>)"
  using assms by (auto simp: entries_ok_def)

lemma entries_ok_each:
  assumes "entries_ok s" "\<And>e. pe_pair (f e) = pe_pair e"
    "\<And>e. distinct (subscribers e) \<Longrightarrow> distinct (subscribers (f e))" "distinct us"
  shows "entries_ok (s\<lparr>u_subscribers := us, pairs := m_each f (pairs s)\<rparr>)"
  using assms by (auto simp: entries_ok_def)

lemma entries_ok_irrelevant [simp]:
  "entries_ok (s\<lparr>next_callback_handle := h\<rparr>) = entries_ok s"
  "entries_ok (s\<lparr>callback_owners := m\<rparr>) = entries_ok s"
  "entries_ok (s\<lparr>universal_callbacks := u\<rparr>) = entries_ok s"
  by (simp_all add: entries_ok_def)

lemma ps_inv_empty: "ps_inv empty_space"
  by (simp add: ps_inv_def entries_ok_def handles_ok_def empty_space_def callbacks_of_def)

lemma ps_inv_addPair: "ps_inv s \<Longrightarrow> ps_inv (addPair now p s)"
  by (auto simp: ps_inv_def callbacks_addPair entries_ok_addPair elim: handles_ok_frame)

lemma ps_inv_removePair: "ps_inv s \<Longrightarrow> ps_inv (removePair owner key s)"
  by (auto simp: ps_inv_def callbacks_removePair entries_ok_removePair elim: handles_ok_frame)

lemma ps_inv_addSubscription: "ps_inv s \<Longrightarrow> ps_inv (addSubscription now owner key sub s)"
  by (auto simp: ps_inv_def callbacks_subscription_ops elim: handles_ok_frame)
    (simp add: addSubscription_def Let_def entries_ok_update entries_ok_ensure_entry)

lemma ps_inv_removeSubscription: "ps_inv s \<Longrightarrow> ps_inv (removeSubscription owner key sub s)"
  by (auto simp: ps_inv_def callbacks_subscription_ops elim: handles_ok_frame)
    (simp add: removeSubscription_def entries_ok_update distinct_removeAll split: option.splits)

lemma ps_inv_addSubscriptionToAll: "ps_inv s \<Longrightarrow> ps_inv (addSubscriptionToAll sub s)"
  by (auto simp: ps_inv_def callbacks_subscription_ops elim: handles_ok_frame)
    (simp add: addSubscriptionToAll_def entries_ok_each entries_okD)

lemma ps_inv_removeSubscriptionToAll: "ps_inv s \<Longrightarrow> ps_inv (removeSubscriptionToAll sub s)"
  by (auto simp: ps_inv_def callbacks_subscription_ops elim: handles_ok_frame)
    (simp add: removeSubscriptionToAll_def entries_ok_each entries_okD distinct_removeAll)

subsection \<open>Fresh handles\<close>

lemma word_increment:
  fixes n :: "'a::len word"
  assumes "n + 1 \<noteq> 0"
  shows "n < n + 1" "0 < n + 1" "h \<le> n \<Longrightarrow> h \<le> n + 1" "h \<le> n \<Longrightarrow> h \<noteq> n + 1"
proof -
  have "unat (n + 1) = Suc (unat n)"
    using assms unatSuc [of n] by (simp add: add.commute)
  then show lt: "n < n + 1" by (simp add: word_less_nat_alt)
  show "0 < n + 1" using assms by (simp add: word_neq_0_conv)
  show "h \<le> n \<Longrightarrow> h \<le> n + 1" "h \<le> n \<Longrightarrow> h \<noteq> n + 1"
    using lt by auto
qed

lemma fresh_handle:
  assumes "handles_ok s" "next_callback_handle s + 1 \<noteq> 0"
  shows "m_find (callback_owners s) (next_callback_handle s + 1) = None"
    "m_find (universal_callbacks s) (next_callback_handle s + 1) = None"
    "m_find (callbacks_of s k) (next_callback_handle s + 1) = None"
proof -
  let ?h = "next_callback_handle s + 1"
  have "\<not> ?h \<le> next_callback_handle s"
    using word_increment(1) [OF assms(2)] by simp
  then show owners: "m_find (callback_owners s) ?h = None" "m_find (universal_callbacks s) ?h = None"
    using assms(1) unfolding handles_ok_def by blast+
  then show "m_find (callbacks_of s k) ?h = None"
    using assms(1) unfolding handles_ok_def by (metis option.distinct(1))
qed

lemma addCallback_frame [simp]:
  "fst (addCallback now owner key cb s) = next_callback_handle s + 1"
  "next_callback_handle (snd (addCallback now owner key cb s)) = next_callback_handle s + 1"
  "callback_owners (snd (addCallback now owner key cb s)) =
     m_emplace (next_callback_handle s + 1) (PairKey owner key) (callback_owners s)"
  "universal_callbacks (snd (addCallback now owner key cb s)) = universal_callbacks s"
  "u_subscribers (snd (addCallback now owner key cb s)) = u_subscribers s"
  by (simp_all add: addCallback_def Let_def)

lemma removeCallback_frame [simp]:
  "next_callback_handle (removeCallback h s) = next_callback_handle s"
  "u_subscribers (removeCallback h s) = u_subscribers s"
  "callback_owners (removeCallback h s) = m_erase h (callback_owners s)"
  by (auto simp: removeCallback_def smap.erase_absent split: option.splits)

lemma published_addCallback: "published (snd (addCallback now owner key cb s)) = published s"
  by (auto simp: fun_eq_iff published_def addCallback_def Let_def find_ensure_entry pair_setters
      new_pair_def split: option.splits)

lemma subscribers_addCallback:
  "subscribers_of (snd (addCallback now owner key cb s)) = subscribers_of s"
  by (auto simp: fun_eq_iff subscribers_of_def addCallback_def Let_def find_ensure_entry
      split: option.splits)

lemma published_removeCallback: "published (removeCallback h s) = published s"
  by (auto simp: fun_eq_iff published_def removeCallback_def split: option.splits)

lemma subscribers_removeCallback: "subscribers_of (removeCallback h s) = subscribers_of s"
  by (auto simp: fun_eq_iff subscribers_of_def removeCallback_def split: option.splits)

lemma ps_inv_addCallback:
  assumes "ps_inv s" "next_callback_handle s + 1 \<noteq> 0"
  shows "ps_inv (snd (addCallback now owner key cb s))"
proof -
  let ?t = "snd (addCallback now owner key cb s)"
  have ok: "handles_ok s" using assms(1) by (simp add: ps_inv_def)
  note fresh = fresh_handle [OF ok assms(2)] and inc = word_increment [OF assms(2)]
  have "entries_ok ?t"
    using assms(1) by (simp add: addCallback_def Let_def ps_inv_def entries_ok_update
        entries_ok_ensure_entry)
  moreover have "handles_ok ?t"
    using ok fresh inc by (auto simp: handles_ok_def callbacks_addCallback)
  ultimately show ?thesis by (simp add: ps_inv_def)
qed

lemma ps_inv_addCallbackToAll:
  assumes "ps_inv s" "next_callback_handle s + 1 \<noteq> 0"
  shows "ps_inv (snd (addCallbackToAll cb s))"
proof -
  let ?t = "snd (addCallbackToAll cb s)"
  have ok: "handles_ok s" using assms(1) by (simp add: ps_inv_def)
  note fresh = fresh_handle [OF ok assms(2)] and inc = word_increment [OF assms(2)]
  have "handles_ok ?t"
    using ok fresh inc by (auto simp: handles_ok_def addCallbackToAll_def Let_def)
  moreover have "entries_ok ?t"
    using assms(1) by (simp add: ps_inv_def addCallbackToAll_def Let_def)
  ultimately show ?thesis by (simp add: ps_inv_def)
qed

lemma ps_inv_removeCallback: "ps_inv s \<Longrightarrow> ps_inv (removeCallback h s)"
proof -
  assume inv: "ps_inv s"
  then have ok: "handles_ok s" by (simp add: ps_inv_def)
  have "entries_ok (removeCallback h s)"
    using inv by (auto simp: ps_inv_def removeCallback_def entries_ok_update split: option.splits)
  moreover have "handles_ok (removeCallback h s)"
    using ok unfolding handles_ok_def callbacks_removeCallback removeCallback_frame
    by (auto simp: removeCallback_def split: option.splits)
  ultimately show ?thesis by (simp add: ps_inv_def)
qed

subsection \<open>The contract of a pair store\<close>

text \<open>
  What the server and the client rely on when they publish and retract: a view of the published values
  and an audience per key.
\<close>

locale pair_store =
  fixes publish :: "TimePoint \<Rightarrow> Pair \<Rightarrow> 's \<Rightarrow> 's"
    and retract :: "i32 \<Rightarrow> string \<Rightarrow> 's \<Rightarrow> 's"
    and view :: "'s \<Rightarrow> PairKey \<Rightarrow> (string \<times> PairType) option"
    and audience :: "'s \<Rightarrow> PairKey \<Rightarrow> i32 list"
  assumes view_publish: "view (publish now p s) = (view s)
      (key_of p := if getType p = PT_Invalid then None else Some (getValue p, getType p))"
    and audience_publish: "audience (publish now p s) = audience s"
    and view_retract: "view (retract owner key s) = (view s)(PairKey owner key := None)"
    and audience_retract: "audience s (PairKey owner key) \<noteq> [] \<Longrightarrow>
      audience (retract owner key s) = audience s"
begin

lemma republish_audience:
  "audience s (PairKey owner key) \<noteq> [] \<Longrightarrow>
   audience (publish now p (retract owner key s)) = audience s"
  by (simp add: audience_publish audience_retract)

lemma last_write_wins:
  assumes "\<forall>(now, p) \<in> set later. key_of p \<noteq> key_of q" "getType q \<noteq> PT_Invalid"
  shows "view (fold (\<lambda>(now, p). publish now p) (earlier @ (t, q) # later) s) (key_of q) =
    Some (getValue q, getType q)"
proof -
  have "view (fold (\<lambda>(now, p). publish now p) later u) (key_of q) = view u (key_of q)" for u
    using assms(1) by (induction later arbitrary: u) (auto simp: view_publish)
  then show ?thesis using assms(2) by (simp add: view_publish)
qed

end

interpretation space: pair_store addPair removePair published subscribers_of
  by unfold_locales
    (auto simp: published_addPair subscribers_addPair published_removePair subscribers_removePair)

subsection \<open>The entry a publication leaves\<close>

lemma addPair_entry:
  assumes "ps_inv s"
  obtains e where "m_find (pairs (addPair now p s)) (key_of p) = Some e"
    "key_of (pe_pair e) = key_of p" "getValue (pe_pair e) = getValue p"
    "getType (pe_pair e) = getType p" "getWriteTime (pe_pair e) = now"
    "subscribers e = subscribers_of s (key_of p)" "distinct (subscribers e)"
    "callbacks e = callbacks_of s (key_of p)"
proof -
  obtain e where e: "m_find (pairs (addPair now p s)) (key_of p) = Some e"
    by (simp add: find_addPair)
  have "key_of (pe_pair e) = key_of p \<and> distinct (subscribers e)"
    using ps_inv_addPair [OF assms, of now p] e by (auto simp: ps_inv_def entries_ok_def)
  moreover have "getValue (pe_pair e) = getValue p" "getType (pe_pair e) = getType p"
    "getWriteTime (pe_pair e) = now" "subscribers e = subscribers_of s (key_of p)"
    "callbacks e = callbacks_of s (key_of p)"
    using e by (auto simp: find_addPair pair_setters subscribers_of_def callbacks_of_def
        split: option.splits)
  ultimately show thesis using e that by blast
qed

subsection \<open>Reachable pair spaces\<close>

text \<open>
  Any sequence of calls a component may make. The guard on the two registrations says the 64-bit
  handle counter has not been used up.
\<close>

inductive ps_reach :: "'cb PairSpace \<Rightarrow> bool" where
  start: "ps_reach empty_space"
| add_pair: "ps_reach s \<Longrightarrow> ps_reach (addPair now p s)"
| remove_pair: "ps_reach s \<Longrightarrow> ps_reach (removePair owner key s)"
| add_callback: "ps_reach s \<Longrightarrow> next_callback_handle s + 1 \<noteq> 0 \<Longrightarrow>
    ps_reach (snd (addCallback now owner key cb s))"
| add_callback_to_all: "ps_reach s \<Longrightarrow> next_callback_handle s + 1 \<noteq> 0 \<Longrightarrow>
    ps_reach (snd (addCallbackToAll cb s))"
| remove_callback: "ps_reach s \<Longrightarrow> ps_reach (removeCallback h s)"
| add_subscription: "ps_reach s \<Longrightarrow> ps_reach (addSubscription now owner key sub s)"
| remove_subscription: "ps_reach s \<Longrightarrow> ps_reach (removeSubscription owner key sub s)"
| add_subscription_to_all: "ps_reach s \<Longrightarrow> ps_reach (addSubscriptionToAll sub s)"
| remove_subscription_to_all: "ps_reach s \<Longrightarrow> ps_reach (removeSubscriptionToAll sub s)"

lemmas ps_inv_intros = ps_inv_empty ps_inv_addPair ps_inv_removePair ps_inv_addCallback
  ps_inv_addCallbackToAll ps_inv_removeCallback ps_inv_addSubscription ps_inv_removeSubscription
  ps_inv_addSubscriptionToAll ps_inv_removeSubscriptionToAll

lemma ps_reach_ps_inv: "ps_reach s \<Longrightarrow> ps_inv s"
  by (induction rule: ps_reach.induct) (simp_all add: ps_inv_intros)

subsection \<open>Properties\<close>

text \<open>
  C14. In every pair space a component can build, each entry is stored under the key of its own pair, no
  subscriber is listed twice, and the callback tables agree: a handle is registered against a key exactly
  when that key's entry holds a callback under it, is never also a universal handle, and is a number
  already handed out.
\<close>

theorem pair_space_invariant:
  assumes "ps_reach s"
  shows "(\<forall>k e. m_find (pairs s) k = Some e \<longrightarrow>
            key_of (pe_pair e) = k \<and> distinct (subscribers e)) \<and>
    (\<forall>h k. m_find (callback_owners s) h = Some k \<longleftrightarrow> m_find (callbacks_of s k) h \<noteq> None) \<and>
    (\<forall>h k. m_find (callback_owners s) h = Some k \<longrightarrow> m_find (universal_callbacks s) h = None \<and>
            0 < h \<and> h \<le> next_callback_handle s)"
  using ps_reach_ps_inv [OF assms] unfolding ps_inv_def entries_ok_def handles_ok_def by blast

theorem pair_space_invariant_witness:
  "let s = snd (addCallback 5 (I32 1000) ''k'' True (addPair 4 (new_pair (I32 1000) ''k'' ''v'' PT_String)
             (empty_space :: bool PairSpace)))
   in m_find (callback_owners s) 1 = Some (PairKey (I32 1000) ''k'') \<and>
      m_find (callbacks_of s (PairKey (I32 1000) ''k'')) 1 \<noteq> None"
proof -
  let ?s = "snd (addCallback 5 (I32 1000) ''k'' True (addPair 4 (new_pair (I32 1000) ''k'' ''v'' PT_String)
             (empty_space :: bool PairSpace)))"
  have "ps_reach ?s"
    by (intro ps_reach.intros) (simp add: empty_space_def kInvalidCallbackHandle_def)
  then have "\<forall>h k. m_find (callback_owners ?s) h = Some k \<longleftrightarrow> m_find (callbacks_of ?s k) h \<noteq> None"
    by (rule pair_space_invariant [THEN conjunct2, THEN conjunct1])
  moreover have "m_find (callback_owners ?s) 1 = Some (PairKey (I32 1000) ''k'')"
    by (simp add: empty_space_def kInvalidCallbackHandle_def)
  ultimately show ?thesis by (simp only: Let_def) blast
qed

text \<open>
  Removing a pair makes it unreadable but keeps everyone who was registered: its subscribers and its
  callbacks are the same afterwards, and publishing the key again reaches them with the new value.
\<close>

lemma removal_keeps_registrations:
  assumes "subscribers_of s (PairKey owner key) \<noteq> []"
  shows "published (removePair owner key s) (PairKey owner key) = None \<and>
    callbacks_of (removePair owner key s) = callbacks_of s \<and>
    subscribers_of (addPair now (new_pair owner key v PT_String) (removePair owner key s)) =
      subscribers_of s \<and>
    published (addPair now (new_pair owner key v PT_String) (removePair owner key s))
      (PairKey owner key) = Some (v, PT_String)"
  using space.republish_audience [OF assms]
  by (simp add: published_removePair callbacks_removePair published_addPair) (simp add: new_pair_def)

lemma addSubscriptionToAll_idle [simp]:
  "sub \<in> set (u_subscribers s) \<Longrightarrow> addSubscriptionToAll sub s = s"
  by (simp add: addSubscriptionToAll_def)

lemma u_subscribers_ToAll [simp]:
  "u_subscribers (addSubscriptionToAll sub s) = push_new sub (u_subscribers s)"
  "u_subscribers (removeSubscriptionToAll sub s) = removeAll sub (u_subscribers s)"
  by (simp_all add: addSubscriptionToAll_def removeSubscriptionToAll_def push_new_def)

lemma abs_addSubscriptionToAll:
  "abs_space (addSubscriptionToAll sub s) = spec_subscribe_all sub (abs_space s)"
proof (cases "sub \<in> set (u_subscribers s)")
  case True
  then show ?thesis by (simp add: spec_subscribe_all_def abs_space_def)
next
  case False
  then show ?thesis
    by (auto simp: abs_space_def spec_subscribe_all_def published_addSubscriptionToAll push_new_def
        fun_eq_iff subscribers_addSubscriptionToAll)
qed



lemma cancel_addCallback:
  assumes "handles_ok s" "next_callback_handle s + 1 \<noteq> 0"
  shows "callbacks_of (removeCallback (next_callback_handle s + 1)
           (snd (addCallback now owner key cb s))) = callbacks_of s"
    "universal_callbacks (removeCallback (next_callback_handle s + 1)
           (snd (addCallback now owner key cb s))) = universal_callbacks s"
proof -
  note fresh = fresh_handle [OF assms]
  show "callbacks_of (removeCallback (next_callback_handle s + 1)
           (snd (addCallback now owner key cb s))) = callbacks_of s"
    using fresh by (auto simp: fun_eq_iff callbacks_removeCallback callbacks_addCallback m_erase_emplace)
  show "universal_callbacks (removeCallback (next_callback_handle s + 1)
           (snd (addCallback now owner key cb s))) = universal_callbacks s"
    using fresh by (simp add: removeCallback_def)
qed

lemma cancel_addCallbackToAll:
  assumes "handles_ok s" "next_callback_handle s + 1 \<noteq> 0"
  shows "callbacks_of (removeCallback (next_callback_handle s + 1) (snd (addCallbackToAll cb s))) =
      callbacks_of s"
    "universal_callbacks (removeCallback (next_callback_handle s + 1) (snd (addCallbackToAll cb s))) =
      universal_callbacks s"
  using fresh_handle [OF assms]
  by (simp_all add: fun_eq_iff callbacks_removeCallback addCallbackToAll_def Let_def removeCallback_def
      m_erase_emplace)

text \<open>
  Cancelling a callback with the handle its registration returned undoes the registration exactly:
  every key, and the list of universal callbacks, has the callbacks it had before, whatever else was
  registered. A universal registration is undone the same way.
\<close>

lemma cancel_callback_undoes_register:
  assumes "ps_reach s" "next_callback_handle s + 1 \<noteq> 0"
  shows "(case addCallback now owner key cb s of (h, t) \<Rightarrow>
        callbacks_of (removeCallback h t) = callbacks_of s \<and>
        universalCallbacks (removeCallback h t) = universalCallbacks s) \<and>
    (case addCallbackToAll cb s of (h, t) \<Rightarrow>
        callbacks_of (removeCallback h t) = callbacks_of s \<and>
        universalCallbacks (removeCallback h t) = universalCallbacks s)"
proof -
  have ok: "handles_ok s" using ps_reach_ps_inv [OF assms(1)] by (simp add: ps_inv_def)
  have "fst (addCallbackToAll cb s) = next_callback_handle s + 1"
    by (simp add: addCallbackToAll_def Let_def)
  then show ?thesis
    using cancel_addCallback [OF ok assms(2)] cancel_addCallbackToAll [OF ok assms(2)]
    by (simp add: case_prod_beta universalCallbacks_def)
qed

text \<open>
  Once a component has asked for everything, it is in the audience of every key of the space, and
  stays there however many pairs are published afterwards, known keys or new ones.
\<close>

lemma wildcard_covers_later_pairs:
  assumes "sub \<notin> set (u_subscribers s)"
  shows "sub \<in> set (subscribers_of (fold (\<lambda>(now, p). addPair now p) ps (addSubscriptionToAll sub s)) k)"
proof -
  have "subscribers_of (fold (\<lambda>(now, p). addPair now p) ps t) = subscribers_of t" for t :: "'a PairSpace"
    by (induction ps arbitrary: t) (auto simp: subscribers_addPair)
  then show ?thesis
    using assms by (simp add: subscribers_addSubscriptionToAll)
qed

end
