(* ===== verification/Meta_Value.thy ===== *)
theory Meta_Value
  imports Pair_Types
begin

text \<open>
  The text of a meta-pair, \<^verbatim>\<open>"(META <owner> <key>)"\<close>: how \<^verbatim>\<open>Client::setMetaPair\<close> writes it
  (\<^verbatim>\<open>src/client.cpp\<close>), how the client reads it back, and the second reader the meta-pair trackers have
  (\<^verbatim>\<open>src/meta_pair_callback.cpp\<close>), with the splitting into words both share.

  The lemmas give decimal numbers a round trip and compute what either reader returns on a written
  value, for every owner and key: the key comes back exactly when it is a single word.
\<close>

subsection \<open>Splitting into words\<close>

text \<open>\<^verbatim>\<open>std::views::split\<close> at a single character.\<close>

fun views_split :: "char \<Rightarrow> string \<Rightarrow> string list" where
  "views_split sep [] = [[]]"
| "views_split sep (c # cs) =
     (if c = sep then [] # views_split sep cs
      else (c # hd (views_split sep cs)) # tl (views_split sep cs))"

definition is_paren :: "char \<Rightarrow> bool" where
  "is_paren c \<longleftrightarrow> c = CHR ''('' \<or> c = CHR '')''"

definition strip_parens :: "string \<Rightarrow> string" where
  "strip_parens w = rev (dropWhile is_paren (rev (dropWhile is_paren w)))"

definition extractStrings :: "string \<Rightarrow> string list" where
  "extractStrings text = filter (\<lambda>w. w \<noteq> []) (map strip_parens (views_split CHR '' '' text))"

subsection \<open>Writing and reading\<close>

definition kNullMeta :: string where "kNullMeta = ''(META -1 NULL)''"

definition format_meta :: "i32 \<Rightarrow> string \<Rightarrow> string" where
  "format_meta owner key = ''(META '' @ show_int (ival owner) @ '' '' @ key @ '')''"

definition parseInt :: "string \<Rightarrow> i32 option" where
  "parseInt text =
     (case from_chars text of
        Parsed v rest \<Rightarrow> if rest = [] then Some v else None
      | _ \<Rightarrow> None)"

definition parseMetaValue :: "string \<Rightarrow> PairKey option" where
  "parseMetaValue value =
     (case extractStrings value of
        [tag, owner, key] \<Rightarrow>
          if tag \<noteq> ''META'' then None
          else (case parseInt owner of None \<Rightarrow> None | Some n \<Rightarrow> Some (PairKey n key))
      | _ \<Rightarrow> None)"

definition tracker_parseMetaValue :: "string \<Rightarrow> PairKey option" where
  "tracker_parseMetaValue value =
     (case extractStrings value of
        [tag, owner, key] \<Rightarrow>
          if tag \<noteq> ''META'' then None
          else (case from_chars owner of
                  Parsed n rest \<Rightarrow>
                    if n = kAnyOwner \<and> key = ''NULL'' then None else Some (PairKey n key)
                | _ \<Rightarrow> None)
      | _ \<Rightarrow> None)"

subsection \<open>Decimal numbers\<close>

lemma is_digit_digit_char [simp]: "d < 10 \<Longrightarrow> is_digit (digit_char d)"
  by (simp add: is_digit_def digit_char_def)

lemma digit_val_digit_char [simp]: "d < 10 \<Longrightarrow> digit_val (digit_char d) = d"
  by (simp add: digit_val_def digit_char_def)

lemma show_nat_digits: "list_all is_digit (show_nat n)"
  by (induction n rule: show_nat.induct) (subst show_nat.simps, simp)

lemma show_nat_nonempty [simp]: "show_nat n \<noteq> []"
  by (subst show_nat.simps) simp

lemma digits_val_snoc: "digits_val (ds @ [c]) = 10 * digits_val ds + digit_val c"
  by (simp add: digits_val_def)

lemma digits_val_show_nat [simp]: "digits_val (show_nat n) = n"
proof (induction n rule: show_nat.induct)
  case (1 n)
  show ?case
  proof (cases "n < 10")
    case True
    then show ?thesis by (subst show_nat.simps) (simp add: digits_val_def)
  next
    case False
    then show ?thesis using 1 by (subst show_nat.simps) (simp add: digits_val_snoc)
  qed
qed

lemma digit_not_special: "is_digit c \<Longrightarrow> c \<noteq> CHR ''-'' \<and> c \<noteq> CHR '' '' \<and> \<not> is_paren c"
  by (auto simp: is_digit_def is_paren_def)

lemma takeWhile_digits:
  assumes "list_all is_digit ds" "rest = [] \<or> \<not> is_digit (hd rest)"
  shows "takeWhile is_digit (ds @ rest) = ds" "dropWhile is_digit (ds @ rest) = rest"
  using assms by (induction ds) (cases rest; simp)+

lemma from_chars_show_int:
  assumes "rest = [] \<or> \<not> is_digit (hd rest)" "INT_MIN \<le> k" "k \<le> INT_MAX"
  shows "from_chars (show_int k @ rest) = Parsed (i32_of k) rest"
proof -
  have hd: "\<not> (case show_nat n @ rest of [] \<Rightarrow> False | c # _ \<Rightarrow> c = CHR ''-'')" for n
    using show_nat_digits [of n] digit_not_special by (cases "show_nat n") fastforce+
  show ?thesis
  proof (cases "k < 0")
    case True
    then show ?thesis using assms
      by (simp add: from_chars_def show_int_def takeWhile_digits [OF show_nat_digits] Let_def)
  next
    case False
    then show ?thesis using assms hd [of "nat k"]
      by (auto simp: from_chars_def show_int_def takeWhile_digits [OF show_nat_digits] Let_def)
  qed
qed

lemma parseInt_show_int [simp]: "parseInt (show_int (ival x)) = Some x"
  using from_chars_show_int [of "[]" "ival x"] ival_range [of x] by (simp add: parseInt_def)

subsection \<open>Words\<close>

lemma views_split_nonempty [simp]: "views_split sep s \<noteq> []"
  by (induction s) auto

lemma views_split_word: "sep \<notin> set w \<Longrightarrow> views_split sep w = [w]"
  by (induction w) auto

lemma views_split_cons: "sep \<notin> set w \<Longrightarrow> views_split sep (w @ sep # rest) = w # views_split sep rest"
  by (induction w) auto

lemma views_split_snoc:
  "x \<noteq> sep \<Longrightarrow> views_split sep (s @ [x]) =
     butlast (views_split sep s) @ [last (views_split sep s) @ [x]]"
proof (induction s)
  case (Cons c s)
  obtain w ws where "views_split sep s = w # ws" by (cases "views_split sep s") auto
  with Cons show ?case by (auto simp: hd_append)
qed simp

lemma dropWhile_snoc: "dropWhile P (xs @ [x]) = (if \<forall>y \<in> set xs. P y then dropWhile P [x] else dropWhile P xs @ [x])"
  by (induction xs) auto

lemma strip_parens_snoc: "is_paren x \<Longrightarrow> strip_parens (w @ [x]) = strip_parens w"
  by (auto simp: strip_parens_def dropWhile_snoc dropWhile_eq_Nil_conv [THEN iffD2])

lemma strip_parens_Cons: "is_paren x \<Longrightarrow> strip_parens (x # w) = strip_parens w"
  by (simp add: strip_parens_def)

lemma strip_parens_id:
  assumes "w \<noteq> []" "\<not> is_paren (hd w)" "\<not> is_paren (last w)"
  shows "strip_parens w = w"
proof -
  have "dropWhile is_paren w = w" using assms by (cases w) auto
  moreover have "dropWhile is_paren (rev w) = rev w"
    using assms by (cases w rule: rev_cases) auto
  ultimately show ?thesis by (simp add: strip_parens_def)
qed

lemma extractStrings_cons:
  "CHR '' '' \<notin> set w \<Longrightarrow>
     extractStrings (w @ CHR '' '' # rest) =
       (if strip_parens w = [] then [] else [strip_parens w]) @ extractStrings rest"
  by (simp add: extractStrings_def views_split_cons)

lemma extractStrings_close: "extractStrings (key @ '')'') = extractStrings key"
proof -
  obtain ws w where ws: "views_split CHR '' '' key = ws @ [w]"
    by (cases "views_split CHR '' '' key" rule: rev_cases) auto
  then show ?thesis
    by (simp add: extractStrings_def views_split_snoc strip_parens_snoc is_paren_def)
qed

lemma show_int_word:
  "CHR '' '' \<notin> set (show_int k)" "strip_parens (show_int k) = show_int k" "show_int k \<noteq> []"
proof -
  have digits: "\<forall>c \<in> set (show_nat n). c \<noteq> CHR '' '' \<and> \<not> is_paren c" for n
    using show_nat_digits [of n] digit_not_special by (auto simp: list_all_iff)
  then have all: "\<forall>c \<in> set (show_int k). c \<noteq> CHR '' '' \<and> \<not> is_paren c"
    by (auto simp: show_int_def is_paren_def)
  show ne: "show_int k \<noteq> []" by (simp add: show_int_def)
  show "CHR '' '' \<notin> set (show_int k)" using all by auto
  show "strip_parens (show_int k) = show_int k" using all ne by (intro strip_parens_id) auto
qed

lemma extractStrings_format_meta:
  "extractStrings (format_meta owner key) = ''META'' # show_int (ival owner) # extractStrings key"
proof -
  have "format_meta owner key =
      ''(META'' @ CHR '' '' # (show_int (ival owner) @ CHR '' '' # (key @ '')''))"
    by (simp add: format_meta_def)
  moreover have "strip_parens ''(META'' = ''META''"
    by (simp add: strip_parens_def is_paren_def)
  ultimately show ?thesis
    by (simp only:) (subst extractStrings_cons, simp, subst extractStrings_cons,
        simp_all add: show_int_word extractStrings_close)
qed

lemma extractStrings_word:
  "key \<noteq> [] \<Longrightarrow> CHR '' '' \<notin> set key \<Longrightarrow> \<not> is_paren (hd key) \<Longrightarrow> \<not> is_paren (last key) \<Longrightarrow>
     extractStrings key = [key]"
  by (simp add: extractStrings_def views_split_word strip_parens_id)

subsection \<open>Properties\<close>

text \<open>
  C30. What \<^verbatim>\<open>setMetaPair\<close> writes is read back by both readers with the owner intact, for every owner id
  and key; the key comes back as its one word, and a key that does not consist of exactly one word
  (parentheses at its ends aside) makes the value unreadable. The tracker's reader differs only on the
  null target.
\<close>

theorem meta_value_roundtrip:
  "parseMetaValue (format_meta owner key) =
     (case extractStrings key of [w] \<Rightarrow> Some (PairKey owner w) | _ \<Rightarrow> None) \<and>
   tracker_parseMetaValue (format_meta owner key) =
     (case extractStrings key of
        [w] \<Rightarrow> if owner = kAnyOwner \<and> w = ''NULL'' then None else Some (PairKey owner w)
      | _ \<Rightarrow> None)"
  using from_chars_show_int [of "[]" "ival owner"] ival_range [of owner]
  by (simp add: parseMetaValue_def tracker_parseMetaValue_def extractStrings_format_meta
      split: list.splits)

text \<open>
  A key with no space in it and no parenthesis at either end survives the trip through a meta-pair
  unchanged.
\<close>

lemma meta_key_survives:
  "key \<noteq> [] \<and> CHR '' '' \<notin> set key \<and> \<not> is_paren (hd key) \<and> \<not> is_paren (last key) \<longrightarrow>
     parseMetaValue (format_meta owner key) = Some (PairKey owner key)"
  by (auto simp: parseMetaValue_def extractStrings_format_meta extractStrings_word)

text \<open>
  The two readers disagree: the tracker accepts an owner field with trailing garbage, which the
  client rejects, and then follows the pair of the leading number; and \<^verbatim>\<open>(META -1 NULL)\<close> names no
  target for the tracker while the client reads it as the pair \<open>NULL\<close> of owner \<open>-1\<close>.
\<close>

lemma meta_readers_disagree:
  "parseMetaValue ''(META 12abc k)'' = None \<and>
   tracker_parseMetaValue ''(META 12abc k)'' = Some (PairKey (I32 12) ''k'') \<and>
   parseMetaValue kNullMeta = Some (PairKey kAnyOwner ''NULL'') \<and>
   tracker_parseMetaValue kNullMeta = None"
  by (simp add: parseMetaValue_def tracker_parseMetaValue_def extractStrings_def strip_parens_def
      is_paren_def parseInt_def from_chars_def is_digit_def digits_val_def digit_val_def Let_def
      INT_MIN_def INT_MAX_def i32_of_def
      kNullMeta_def kAnyOwner_def)

end
