(* ===== verification/Client.thy ===== *)
theory Client
  imports Client_Session Pair_Space Meta_Value
begin

text \<open>
  \<^verbatim>\<open>Client\<close> of \<^verbatim>\<open>include/srnp/client.h\<close> and \<^verbatim>\<open>src/client.cpp\<close>: the half of a component that holds the
  connections to the other components and that the public functions call.

  A \<^verbatim>\<open>ClientSessionPtr\<close> is an index into \<open>objects\<close>, the session objects created so far; \<^verbatim>\<open>sessions_\<close> maps an
  owner to such an index, so a session that the map forgets still exists and keeps its connection. The
  pair space is shared with the server, so the operations work on a \<open>Node\<close>, the two together with the
  log of callback invocations. \<open>callback_strand\<close> holds what \<^verbatim>\<open>notifyLocal\<close> posted and has not run yet.

  An operation may throw while what it did before stays done, so it returns a result and a state:
  \<open>'a result \<times> state\<close>. A \<^verbatim>\<open>std::mutex\<close> section is atomic here; the comment on each operation's lock in
  the source says which parts form one.
\<close>

subsection \<open>State\<close>

record SubscriptionRecord =
  sr_owner :: i32
  sr_key :: string

record 'cb Client =
  owner_id :: i32
  ready :: bool
  sessions :: "(i32, nat) std_map"
  objects :: "ClientSession list"
  components :: "(i32, ComponentInfo) std_map"
  subscriptions :: "(SubscriptionHandle, SubscriptionRecord) std_map"
  next_subscription_handle :: SubscriptionHandle
  callback_strand :: "(Pair \<times> 'cb list) list"

record 'cb Node =
  node_space :: "'cb PairSpace"
  node_client :: "'cb Client"
  node_calls :: "(Pair \<times> 'cb) list"

definition new_client :: "'cb Client" where
  "new_client = \<lparr>owner_id = kAnyOwner, ready = False, sessions = m_empty, objects = [],
     components = m_empty, subscriptions = m_empty,
     next_subscription_handle = kInvalidSubscriptionHandle, callback_strand = []\<rparr>"

definition new_node :: "'cb Node" where
  "new_node = \<lparr>node_space = empty_space, node_client = new_client, node_calls = []\<rparr>"

subsection \<open>Sessions\<close>

definition update_object :: "nat \<Rightarrow> (ClientSession \<Rightarrow> ClientSession) \<Rightarrow> 'cb Client \<Rightarrow> 'cb Client" where
  "update_object sid f c = c\<lparr>objects := (objects c)[sid := f (objects c ! sid)]\<rparr>"

definition sessionFor :: "i32 \<Rightarrow> 'cb Client \<Rightarrow> nat option" where
  "sessionFor owner c = m_find (sessions c) owner"

definition allSessions :: "'cb Client \<Rightarrow> nat list" where
  "allSessions c = map snd (m_entries (sessions c))"

definition addSession :: "ComponentInfo \<Rightarrow> 'cb Client \<Rightarrow> 'cb Client" where
  "addSession info c =
     c\<lparr>objects := objects c @ [new_session (ci_ip info) (ci_port info) (ci_owner info)],
       sessions := m_assign (ci_owner info) (length (objects c)) (sessions c),
       components := m_assign (ci_owner info) info (components c)\<rparr>"

definition removeSession :: "i32 \<Rightarrow> 'cb Client \<Rightarrow> 'cb Client" where
  "removeSession owner c =
     (let c1 = c\<lparr>sessions := m_erase owner (sessions c), components := m_erase owner (components c)\<rparr>
      in case m_find (sessions c) owner of
           None \<Rightarrow> c1
         | Some sid \<Rightarrow> update_object sid session_close c1)"

definition client_close :: "'cb Client \<Rightarrow> 'cb Client" where
  "client_close c =
     fold (\<lambda>sid. update_object sid session_close) (allSessions c) (c\<lparr>sessions := m_empty\<rparr>)"

definition onWelcome :: "MasterMessage \<Rightarrow> 'cb Client \<Rightarrow> 'cb Client" where
  "onWelcome welcome c =
     (fold addSession (mm_all_components welcome) (c\<lparr>owner_id := mm_owner welcome\<rparr>))\<lparr>ready := True\<rparr>"

definition onComponentUpdate :: "UpdateComponents \<Rightarrow> 'cb Client \<Rightarrow> 'cb Client" where
  "onComponentUpdate update c =
     (case uc_operation update of
        Op_Add \<Rightarrow> addSession (uc_component update) c
      | Op_Remove \<Rightarrow> removeSession (ci_owner (uc_component update)) c)"

subsection \<open>Fanning out\<close>

definition send_to :: "byte list \<Rightarrow> PairKey option \<Rightarrow> i32 \<Rightarrow> 'cb Client \<Rightarrow> 'cb Client" where
  "send_to payload key subscriber c =
     (case sessionFor subscriber c of
        None \<Rightarrow> c
      | Some sid \<Rightarrow> update_object sid (session_send payload key) c)"

definition fanOutPair :: "Pair \<Rightarrow> i32 list \<Rightarrow> 'cb Client \<Rightarrow> 'cb Client result" where
  "fanOutPair p subs c =
     bindE (frameOf encode_Pair MT_PairUpdate p) (\<lambda>payload.
       Inr (fold (send_to payload (Some (PairKey (getOwner p) (getKey p)))) subs c))"

definition fanOutRemoval :: "RemovePairRequest \<Rightarrow> i32 list \<Rightarrow> 'cb Client \<Rightarrow> 'cb Client result" where
  "fanOutRemoval request subs c =
     bindE (frameOf encode_RemovePairRequest MT_PairRemoved request) (\<lambda>payload.
       Inr (fold (send_to payload None) subs c))"

definition notifyLocal :: "Pair \<Rightarrow> 'cb list \<Rightarrow> 'cb Client \<Rightarrow> 'cb Client" where
  "notifyLocal snapshot cbs c =
     (if cbs = [] then c else c\<lparr>callback_strand := callback_strand c @ [(snapshot, cbs)]\<rparr>)"

text \<open>The strand runs the oldest posted notification.\<close>

definition run_strand :: "'cb Node \<Rightarrow> 'cb Node" where
  "run_strand n =
     (case callback_strand (node_client n) of
        [] \<Rightarrow> n
      | (snapshot, cbs) # rest \<Rightarrow>
          n\<lparr>node_client := (node_client n)\<lparr>callback_strand := rest\<rparr>,
            node_calls := node_calls n @ map (Pair snapshot) cbs\<rparr>)"

subsection \<open>Publishing and removing\<close>

text \<open>The callbacks an update of an entry runs: the universal ones, then those of the pair.\<close>

definition callbacks_for :: "'cb PairSpace \<Rightarrow> 'cb PairEntry \<Rightarrow> 'cb list" where
  "callbacks_for s e = universalCallbacks s @ map snd (m_entries (callbacks e))"

definition client_setPair ::
    "TimePoint \<Rightarrow> string \<Rightarrow> string \<Rightarrow> PairType \<Rightarrow> 'cb Node \<Rightarrow> bool result \<times> 'cb Node" where
  "client_setPair now key value ty n =
     (let c = node_client n
      in if \<not> ready c then (Inr False, n)
         else let s = addPair now (new_pair (owner_id c) key value ty) (node_space n);
                  n1 = n\<lparr>node_space := s\<rparr>
              in case find_entry (owner_id c) key s of
                   None \<Rightarrow> (Inr True, n1)
                 | Some e \<Rightarrow>
                     (case (if subscribers e \<noteq> [] then fanOutPair (pe_pair e) (subscribers e) c
                            else Inr c) of
                        Inl err \<Rightarrow> (Inl err, n1)
                      | Inr c1 \<Rightarrow>
                          (Inr True, n1\<lparr>node_client := notifyLocal (pe_pair e) (callbacks_for s e) c1\<rparr>)))"

definition client_setRemotePair ::
    "i32 \<Rightarrow> string \<Rightarrow> string \<Rightarrow> PairType \<Rightarrow> 'cb Node \<Rightarrow> bool result \<times> 'cb Node" where
  "client_setRemotePair owner key value ty n =
     (case sessionFor owner (node_client n) of
        None \<Rightarrow> (Inr False, n)
      | Some sid \<Rightarrow>
          (case frameOf encode_Pair MT_Pair (new_pair owner key value ty) of
             Inl err \<Rightarrow> (Inl err, n)
           | Inr fr \<Rightarrow>
               (Inr True,
                n\<lparr>node_client := update_object sid (session_send fr None) (node_client n)\<rparr>)))"

definition client_removePair :: "string \<Rightarrow> 'cb Node \<Rightarrow> bool result \<times> 'cb Node" where
  "client_removePair key n =
     (let c = node_client n
      in if \<not> ready c then (Inr False, n)
         else case find_entry (owner_id c) key (node_space n) of
             None \<Rightarrow> (Inr True, n)
           | Some e \<Rightarrow>
               let n1 = n\<lparr>node_space := removePair (owner_id c) key (node_space n)\<rparr>
               in if subscribers e = [] then (Inr True, n1)
                  else case fanOutRemoval \<lparr>rp_owner = owner_id c, rp_key = key\<rparr> (subscribers e) c of
                      Inl err \<Rightarrow> (Inl err, n1)
                    | Inr c1 \<Rightarrow> (Inr True, n1\<lparr>node_client := c1\<rparr>))"

definition client_removeRemotePair :: "i32 \<Rightarrow> string \<Rightarrow> 'cb Node \<Rightarrow> bool result \<times> 'cb Node" where
  "client_removeRemotePair owner key n =
     (if owner = owner_id (node_client n) then client_removePair key n
      else case sessionFor owner (node_client n) of
          None \<Rightarrow> (Inr False, n)
        | Some sid \<Rightarrow>
            (case frameOf encode_RemovePairRequest MT_RemovePair \<lparr>rp_owner = owner, rp_key = key\<rparr> of
               Inl err \<Rightarrow> (Inl err, n)
             | Inr fr \<Rightarrow>
                 (Inr True,
                  n\<lparr>node_client := update_object sid (session_send fr None) (node_client n)\<rparr>)))"

subsection \<open>Reading and meta-pairs\<close>

definition client_getPair :: "i32 \<Rightarrow> string \<Rightarrow> 'cb Node \<Rightarrow> Pair option" where
  "client_getPair owner key n =
     (case copyOf owner key (node_space n) of
        None \<Rightarrow> None
      | Some p \<Rightarrow> if getType p = PT_Invalid then None else Some p)"

definition client_getPairIndirectly :: "i32 \<Rightarrow> string \<Rightarrow> 'cb Node \<Rightarrow> Pair option" where
  "client_getPairIndirectly metaowner metakey n =
     (case client_getPair metaowner metakey n of
        None \<Rightarrow> None
      | Some metapair \<Rightarrow>
          (case parseMetaValue (getValue metapair) of
             None \<Rightarrow> None
           | Some target \<Rightarrow> client_getPair (pk_owner target) (pk_key target) n))"

definition client_setPairIndirectly ::
    "TimePoint \<Rightarrow> i32 \<Rightarrow> string \<Rightarrow> string \<Rightarrow> 'cb Node \<Rightarrow> bool result \<times> 'cb Node" where
  "client_setPairIndirectly now metaowner metakey value n =
     (case client_getPair metaowner metakey n of
        None \<Rightarrow> (Inr False, n)
      | Some metapair \<Rightarrow>
          (case parseMetaValue (getValue metapair) of
             None \<Rightarrow> (Inr False, n)
           | Some target \<Rightarrow>
               if pk_owner target = owner_id (node_client n)
               then client_setPair now (pk_key target) value PT_String n
               else client_setRemotePair (pk_owner target) (pk_key target) value PT_String n))"

definition client_setMetaPair ::
    "TimePoint \<Rightarrow> i32 \<Rightarrow> string \<Rightarrow> i32 \<Rightarrow> string \<Rightarrow> 'cb Node \<Rightarrow> bool result \<times> 'cb Node" where
  "client_setMetaPair now meta_owner meta_key owner key n =
     (if meta_owner = owner_id (node_client n)
      then client_setPair now meta_key (format_meta owner key) PT_String n
      else client_setRemotePair meta_owner meta_key (format_meta owner key) PT_String n)"

definition client_initMetaPair ::
    "TimePoint \<Rightarrow> i32 \<Rightarrow> string \<Rightarrow> 'cb Node \<Rightarrow> bool result \<times> 'cb Node" where
  "client_initMetaPair now meta_owner meta_key n =
     (if meta_owner = owner_id (node_client n)
      then client_setPair now meta_key kNullMeta PT_Meta n
      else client_setRemotePair meta_owner meta_key kNullMeta PT_Meta n)"

subsection \<open>Callbacks\<close>

definition client_registerCallback ::
    "TimePoint \<Rightarrow> i32 \<Rightarrow> string \<Rightarrow> 'cb \<Rightarrow> 'cb Node \<Rightarrow> CallbackHandle \<times> 'cb Node" where
  "client_registerCallback now owner key cb n =
     (case (if key = kWildcardKey then addCallbackToAll cb (node_space n)
            else addCallback now owner key cb (node_space n)) of
        (h, s) \<Rightarrow> (h, n\<lparr>node_space := s\<rparr>))"

definition client_cancelCallback :: "CallbackHandle \<Rightarrow> 'cb Node \<Rightarrow> 'cb Node" where
  "client_cancelCallback h n = n\<lparr>node_space := removeCallback h (node_space n)\<rparr>"

subsection \<open>Subscriptions\<close>

definition subscriptionsFor :: "i32 \<Rightarrow> 'cb Client \<Rightarrow> SubscriptionRecord list" where
  "subscriptionsFor owner c =
     filter (\<lambda>r. sr_owner r = kAnyOwner \<or> sr_owner r = owner) (map snd (m_entries (subscriptions c)))"

definition subscription_frame :: "i32 \<Rightarrow> string \<Rightarrow> i32 \<Rightarrow> bool \<Rightarrow> byte list result" where
  "subscription_frame owner key subscriber registering =
     frameOf encode_Subscription MT_Subscription
       \<lparr>sub_key = key, sub_owner_id = owner, sub_subscriber = subscriber, sub_registering = registering\<rparr>"

fun send_subscriptions :: "nat list \<Rightarrow> string \<Rightarrow> bool \<Rightarrow> 'cb Client \<Rightarrow> bool result \<times> 'cb Client" where
  "send_subscriptions [] key registering c = (Inr True, c)"
| "send_subscriptions (sid # sids) key registering c =
     (case subscription_frame (endpoint_owner_id (objects c ! sid)) key (owner_id c) registering of
        Inl err \<Rightarrow> (Inl err, c)
      | Inr fr \<Rightarrow> send_subscriptions sids key registering (update_object sid (session_send fr None) c))"

definition sendSubscription :: "i32 \<Rightarrow> string \<Rightarrow> bool \<Rightarrow> 'cb Client \<Rightarrow> bool result \<times> 'cb Client" where
  "sendSubscription owner key registering c =
     (if owner \<noteq> kAnyOwner
      then case sessionFor owner c of
             None \<Rightarrow> (Inr False, c)
           | Some sid \<Rightarrow>
               (case subscription_frame owner key (owner_id c) registering of
                  Inl err \<Rightarrow> (Inl err, c)
                | Inr fr \<Rightarrow> (Inr True, update_object sid (session_send fr None) c))
      else send_subscriptions (allSessions c) key registering c)"

definition registerSubscription ::
    "i32 \<Rightarrow> string \<Rightarrow> 'cb Client \<Rightarrow> SubscriptionHandle result \<times> 'cb Client" where
  "registerSubscription owner key c =
     (if list_ex (\<lambda>(h, r). sr_owner r = owner \<and> sr_key r = key) (m_entries (subscriptions c))
      then (Inr kInvalidSubscriptionHandle, c)
      else let h = next_subscription_handle c + 1;
               c1 = c\<lparr>next_subscription_handle := h,
                      subscriptions := m_emplace h \<lparr>sr_owner = owner, sr_key = key\<rparr> (subscriptions c)\<rparr>
           in case sendSubscription owner key True c1 of
                (Inl err, c2) \<Rightarrow> (Inl err, c2)
              | (Inr _, c2) \<Rightarrow> (Inr h, c2))"

definition cancelSubscription_key :: "i32 \<Rightarrow> string \<Rightarrow> 'cb Client \<Rightarrow> unit result \<times> 'cb Client" where
  "cancelSubscription_key owner key c =
     (case List.find (\<lambda>(h, r). sr_owner r = owner \<and> sr_key r = key) (m_entries (subscriptions c)) of
        None \<Rightarrow> (Inr (), c)
      | Some (h, _) \<Rightarrow>
          (case sendSubscription owner key False (c\<lparr>subscriptions := m_erase h (subscriptions c)\<rparr>) of
             (Inl err, c2) \<Rightarrow> (Inl err, c2)
           | (Inr _, c2) \<Rightarrow> (Inr (), c2)))"

text \<open>The overloads without an owner.\<close>

definition registerSubscription_any :: "string \<Rightarrow> 'cb Client \<Rightarrow> SubscriptionHandle result \<times> 'cb Client" where
  "registerSubscription_any key = registerSubscription kAnyOwner key"

definition cancelSubscription_any :: "string \<Rightarrow> 'cb Client \<Rightarrow> unit result \<times> 'cb Client" where
  "cancelSubscription_any key = cancelSubscription_key kAnyOwner key"

definition cancelSubscription :: "SubscriptionHandle \<Rightarrow> 'cb Client \<Rightarrow> unit result \<times> 'cb Client" where
  "cancelSubscription h c =
     (case m_find (subscriptions c) h of
        None \<Rightarrow> (Inr (), c)
      | Some r \<Rightarrow>
          (case sendSubscription (sr_owner r) (sr_key r) False
                  (c\<lparr>subscriptions := m_erase h (subscriptions c)\<rparr>) of
             (Inl err, c2) \<Rightarrow> (Inl err, c2)
           | (Inr _, c2) \<Rightarrow> (Inr (), c2)))"

subsection \<open>The sessions' coroutines\<close>

text \<open>
  The frames \<^verbatim>\<open>sendSubscriptionsFor\<close> sends: one per applicable record, a wildcard record addressed to
  the endpoint. A frame that cannot be built ends the coroutine, with its exception dropped.
\<close>

fun ok_prefix :: "'a result list \<Rightarrow> 'a list" where
  "ok_prefix (Inr x # rs) = x # ok_prefix rs"
| "ok_prefix _ = []"

definition replay_frames :: "i32 \<Rightarrow> 'cb Client \<Rightarrow> Outbound list" where
  "replay_frames owner c =
     map (\<lambda>fr. \<lparr>ob_bytes = fr, ob_key = None\<rparr>)
       (ok_prefix (map (\<lambda>r. subscription_frame
          (if sr_owner r = kAnyOwner then owner else sr_owner r) (sr_key r) (owner_id c) True)
          (subscriptionsFor owner c)))"

definition client_connected :: "nat \<Rightarrow> 'cb Client \<Rightarrow> 'cb Client" where
  "client_connected sid c = update_object sid run_connected c"

definition client_run_step :: "nat \<Rightarrow> 'cb Client \<Rightarrow> 'cb Client" where
  "client_run_step sid c =
     update_object sid (run_step (replay_frames (endpoint_owner_id (objects c ! sid)) c)) c"

definition client_drain :: "nat \<Rightarrow> bool \<Rightarrow> 'cb Client \<Rightarrow> 'cb Client" where
  "client_drain sid succeeds c = update_object sid (session_drain succeeds) c"

subsection \<open>The invariant\<close>

definition sessions_ok :: "'cb Client \<Rightarrow> bool" where
  "sessions_ok c \<longleftrightarrow>
     (\<forall>owner sid. m_find (sessions c) owner = Some sid \<longrightarrow>
        sid < length (objects c) \<and> endpoint_owner_id (objects c ! sid) = owner \<and>
        m_find (components c) owner \<noteq> None) \<and>
     list_all session_inv (objects c)"

definition subscriptions_ok :: "'cb Client \<Rightarrow> bool" where
  "subscriptions_ok c \<longleftrightarrow>
     (\<forall>h r. m_find (subscriptions c) h = Some r \<longrightarrow> 0 < h \<and> h \<le> next_subscription_handle c) \<and>
     (\<forall>h h' r. m_find (subscriptions c) h = Some r \<and> m_find (subscriptions c) h' = Some r \<longrightarrow> h = h')"

definition client_inv :: "'cb Client \<Rightarrow> bool" where
  "client_inv c \<longleftrightarrow> sessions_ok c \<and> subscriptions_ok c"

lemma session_drain_fields [simp]:
  "endpoint_owner_id (session_drain succeeds s) = endpoint_owner_id s"
  by (simp add: session_drain_def)

lemma session_fields [simp]:
  "endpoint_owner_id (session_send fr key s) = endpoint_owner_id s"
  "endpoint_owner_id (session_close s) = endpoint_owner_id s"
  "endpoint_owner_id (run_connected s) = endpoint_owner_id s"
  "endpoint_owner_id (run_step subs s) = endpoint_owner_id s"
  by (auto simp: session_send_def session_send_locked_def session_close_def run_connected_def
      run_step_def split: option.splits run_pc.splits list.splits)

lemma session_inv_send: "session_inv s \<Longrightarrow> session_inv (session_send fr key s)"
  by (simp add: session_send_def session_inv_locked)

lemmas session_inv_ops = session_inv_send session_inv_close session_inv_connected session_inv_step session_inv_drain

lemma update_object_frame [simp]:
  "owner_id (update_object sid f c) = owner_id c" "ready (update_object sid f c) = ready c"
  "sessions (update_object sid f c) = sessions c" "components (update_object sid f c) = components c"
  "subscriptions (update_object sid f c) = subscriptions c"
  "next_subscription_handle (update_object sid f c) = next_subscription_handle c"
  "callback_strand (update_object sid f c) = callback_strand c"
  "length (objects (update_object sid f c)) = length (objects c)"
  by (simp_all add: update_object_def)

lemma objects_update [simp]:
  "sid < length (objects c) \<Longrightarrow>
     objects (update_object sid f c) ! j = (if j = sid then f (objects c ! sid) else objects c ! j)"
  by (simp add: update_object_def)

lemma endpoint_update:
  assumes "\<And>s. endpoint_owner_id (f s) = endpoint_owner_id s"
  shows "endpoint_owner_id (objects (update_object sid f c) ! j) = endpoint_owner_id (objects c ! j)"
  using assms by (cases "sid < length (objects c)")
    (simp_all add: update_object_def nth_list_update list_update_beyond)

lemma sessions_ok_update:
  assumes "sessions_ok c" "\<And>s. session_inv s \<Longrightarrow> session_inv (f s)"
    "\<And>s. endpoint_owner_id (f s) = endpoint_owner_id s"
  shows "sessions_ok (update_object sid f c)"
proof -
  have "list_all session_inv (objects (update_object sid f c))"
    using assms(1,2) by (cases "sid < length (objects c)")
      (auto simp: sessions_ok_def list_all_length update_object_def nth_list_update)
  moreover have "endpoint_owner_id (objects (update_object sid f c) ! j) = endpoint_owner_id (objects c ! j)"
    for j using assms(3) by (rule endpoint_update)
  ultimately show ?thesis using assms(1) by (simp add: sessions_ok_def)
qed

lemma client_inv_update:
  assumes "client_inv c" "\<And>s. session_inv s \<Longrightarrow> session_inv (f s)"
    "\<And>s. endpoint_owner_id (f s) = endpoint_owner_id s"
  shows "client_inv (update_object sid f c)"
  using assms sessions_ok_update [of c f sid] by (simp add: client_inv_def subscriptions_ok_def)

lemma client_inv_send_on: "client_inv c \<Longrightarrow> client_inv (update_object sid (session_send fr key) c)"
  by (rule client_inv_update) (auto intro: session_inv_ops)

lemma client_inv_fold:
  "client_inv c \<Longrightarrow> (\<And>x c. client_inv c \<Longrightarrow> client_inv (f x c)) \<Longrightarrow> client_inv (fold f xs c)"
  by (induction xs arbitrary: c) auto

lemma client_inv_send_to: "client_inv c \<Longrightarrow> client_inv (send_to payload key sub c)"
  by (simp add: send_to_def client_inv_send_on split: option.splits)

lemma client_inv_fanOutPair: "client_inv c \<Longrightarrow> fanOutPair p subs c = Inr c' \<Longrightarrow> client_inv c'"
  by (auto simp: fanOutPair_def bindE_eq_Inr intro!: client_inv_fold client_inv_send_to)

lemma client_inv_fanOutRemoval: "client_inv c \<Longrightarrow> fanOutRemoval r subs c = Inr c' \<Longrightarrow> client_inv c'"
  by (auto simp: fanOutRemoval_def bindE_eq_Inr intro!: client_inv_fold client_inv_send_to)

lemma session_inv_new [simp]: "session_inv (new_session h p owner)"
  by (simp add: session_inv_def new_session_def)

lemma client_inv_addSession: "client_inv c \<Longrightarrow> client_inv (addSession info c)"
proof -
  assume inv: "client_inv c"
  have "sessions_ok (addSession info c)"
    unfolding sessions_ok_def
  proof (intro conjI allI impI)
    fix owner sid
    assume find: "m_find (sessions (addSession info c)) owner = Some sid"
    show "sid < length (objects (addSession info c))"
      "endpoint_owner_id (objects (addSession info c) ! sid) = owner"
      "m_find (components (addSession info c)) owner \<noteq> None"
      using find inv
      by (fastforce simp: client_inv_def sessions_ok_def addSession_def nth_append new_session_def
          split: if_splits)+
  qed (use inv in \<open>simp add: client_inv_def sessions_ok_def addSession_def\<close>)
  then show ?thesis using inv by (simp add: client_inv_def subscriptions_ok_def addSession_def)
qed

lemma sessions_ok_forget:
  "sessions_ok c \<Longrightarrow> (\<And>j. j \<noteq> owner \<Longrightarrow> m_find comps j = m_find (components c) j) \<Longrightarrow>
     sessions_ok (c\<lparr>sessions := m_erase owner (sessions c), components := comps\<rparr>)"
  by (auto simp: sessions_ok_def)

lemma client_inv_removeSession: "client_inv c \<Longrightarrow> client_inv (removeSession owner c)"
proof -
  assume inv: "client_inv c"
  let ?c = "c\<lparr>sessions := m_erase owner (sessions c), components := m_erase owner (components c)\<rparr>"
  have "client_inv ?c"
    using inv sessions_ok_forget [of c owner "m_erase owner (components c)"]
    by (simp add: client_inv_def subscriptions_ok_def)
  then show ?thesis
    by (auto simp: removeSession_def Let_def intro!: client_inv_update session_inv_ops
        split: option.splits)
qed

lemma client_inv_close: "client_inv c \<Longrightarrow> client_inv (client_close c)"
  unfolding client_close_def
  by (rule client_inv_fold, simp add: client_inv_def sessions_ok_def subscriptions_ok_def)
    (rule client_inv_update, auto intro: session_inv_ops)

lemma client_inv_irrelevant [simp]:
  "client_inv (c\<lparr>owner_id := i\<rparr>) \<longleftrightarrow> client_inv c" "client_inv (c\<lparr>ready := b\<rparr>) \<longleftrightarrow> client_inv c"
  "client_inv (c\<lparr>callback_strand := q\<rparr>) \<longleftrightarrow> client_inv c"
  by (simp_all add: client_inv_def sessions_ok_def subscriptions_ok_def)

lemma client_inv_onWelcome: "client_inv c \<Longrightarrow> client_inv (onWelcome w c)"
  by (simp add: onWelcome_def client_inv_fold client_inv_addSession)

lemma client_inv_onComponentUpdate: "client_inv c \<Longrightarrow> client_inv (onComponentUpdate u c)"
  by (simp add: onComponentUpdate_def client_inv_addSession client_inv_removeSession
      split: Operation.splits)

lemma client_inv_notifyLocal: "client_inv c \<Longrightarrow> client_inv (notifyLocal p cbs c)"
  by (simp add: notifyLocal_def)

lemma client_inv_send_subscriptions:
  "client_inv c \<Longrightarrow> client_inv (snd (send_subscriptions sids key registering c))"
  by (induction sids key registering c rule: send_subscriptions.induct)
    (auto simp: client_inv_send_on split: sum.splits)

lemma client_inv_sendSubscription:
  "client_inv c \<Longrightarrow> client_inv (snd (sendSubscription owner key registering c))"
  by (auto simp: sendSubscription_def client_inv_send_subscriptions client_inv_send_on
      split: option.splits sum.splits)

lemma client_inv_forget_subscription:
  "client_inv c \<Longrightarrow> client_inv (c\<lparr>subscriptions := m_erase h (subscriptions c)\<rparr>)"
  by (auto simp: client_inv_def sessions_ok_def subscriptions_ok_def split: if_splits)

lemma client_inv_registerSubscription:
  assumes "client_inv c" "next_subscription_handle c + 1 \<noteq> 0"
  shows "client_inv (snd (registerSubscription owner key c))"
proof (cases "list_ex (\<lambda>(h, r). sr_owner r = owner \<and> sr_key r = key) (m_entries (subscriptions c))")
  case True
  then show ?thesis using assms(1) by (simp add: registerSubscription_def)
next
  case False
  let ?h = "next_subscription_handle c + 1"
  let ?c = "c\<lparr>next_subscription_handle := ?h,
      subscriptions := m_emplace ?h \<lparr>sr_owner = owner, sr_key = key\<rparr> (subscriptions c)\<rparr>"
  have fresh: "m_find (subscriptions c) h \<noteq> Some \<lparr>sr_owner = owner, sr_key = key\<rparr>" for h
    using False by (auto simp: list_ex_iff simp flip: smap.mem_entries_iff)
  have old: "0 < h \<and> h \<le> next_subscription_handle c" if "m_find (subscriptions c) h = Some r" for h r
    using assms(1) that by (auto simp: client_inv_def subscriptions_ok_def)
  have "subscriptions_ok ?c"
    using assms fresh old word_increment [OF assms(2)]
    by (fastforce simp: client_inv_def subscriptions_ok_def split: if_splits)
  then have "client_inv ?c" using assms(1) by (simp add: client_inv_def sessions_ok_def)
  then have "client_inv (snd (sendSubscription owner key True ?c))"
    by (rule client_inv_sendSubscription)
  then show ?thesis using False
    by (auto simp: registerSubscription_def Let_def split: prod.splits sum.splits)
qed

lemma client_inv_cancelSubscription:
  assumes "client_inv c"
  shows "client_inv (snd (cancelSubscription h c))" "client_inv (snd (cancelSubscription_key owner key c))"
proof -
  have *: "client_inv (snd (sendSubscription o1 k1 False (c\<lparr>subscriptions := m_erase h1 (subscriptions c)\<rparr>)))"
    for o1 k1 h1
    using assms by (intro client_inv_sendSubscription client_inv_forget_subscription)
  show "client_inv (snd (cancelSubscription h c))"
    using assms * by (auto simp: cancelSubscription_def split: option.splits prod.splits sum.splits)
      (metis snd_conv)+
  show "client_inv (snd (cancelSubscription_key owner key c))"
    using assms * by (auto simp: cancelSubscription_key_def split: option.splits prod.splits sum.splits)
      (metis snd_conv)+
qed

subsection \<open>What a session will deliver\<close>

definition session_out :: "ClientSession \<Rightarrow> Outbound list" where
  "session_out s = (case channel s of Some c \<Rightarrow> stream c | None \<Rightarrow> pending s)"

definition session_live :: "ClientSession \<Rightarrow> bool" where
  "session_live s \<longleftrightarrow> \<not> closing s \<and> (\<forall>c. channel s = Some c \<longrightarrow> \<not> closed c)"

text \<open>An update sent on a live session is the last one of its key that the peer will get from it.\<close>

lemma session_send_newest:
  assumes "session_inv s" "session_live (session_send fr (Some k) s)"
  shows "\<exists>older. updates_of k (session_out (session_send fr (Some k) s)) =
    older @ [\<lparr>ob_bytes = fr, ob_key = Some k\<rparr>]"
proof -
  let ?ob = "\<lparr>ob_bytes = fr, ob_key = Some k\<rparr>"
  have s: "session_send fr (Some k) s = session_offer ?ob s" by (simp add: session_offer_def)
  have live: "\<not> closing s"
    using assms(2) by (auto simp: session_live_def session_send_def)
  show ?thesis
  proof (cases "channel s")
    case None
    then show ?thesis using live by (simp add: s session_offer_simps session_out_def)
  next
    case (Some c)
    then have "ch_inv c" "channel_live (offer_frame ?ob c)"
      using assms live
      by (simp_all add: session_inv_def session_live_def channel_live_def s session_offer_simps)
    then show ?thesis using chan.offer_newest [of c ?ob k] live Some
      by (simp add: s session_offer_simps session_out_def)
  qed
qed

lemma send_to_frame [simp]:
  "owner_id (send_to payload key sub c) = owner_id c" "ready (send_to payload key sub c) = ready c"
  "sessions (send_to payload key sub c) = sessions c"
  "components (send_to payload key sub c) = components c"
  "subscriptions (send_to payload key sub c) = subscriptions c"
  "next_subscription_handle (send_to payload key sub c) = next_subscription_handle c"
  "callback_strand (send_to payload key sub c) = callback_strand c"
  "length (objects (send_to payload key sub c)) = length (objects c)"
  by (simp_all add: send_to_def split: option.splits)

lemma fold_send_to_frame [simp]:
  "owner_id (fold (send_to payload key) subs c) = owner_id c"
  "ready (fold (send_to payload key) subs c) = ready c"
  "sessions (fold (send_to payload key) subs c) = sessions c"
  "components (fold (send_to payload key) subs c) = components c"
  "subscriptions (fold (send_to payload key) subs c) = subscriptions c"
  "next_subscription_handle (fold (send_to payload key) subs c) = next_subscription_handle c"
  "callback_strand (fold (send_to payload key) subs c) = callback_strand c"
  "length (objects (fold (send_to payload key) subs c)) = length (objects c)"
  by (induction subs arbitrary: c) simp_all

lemma sessions_inj:
  "sessions_ok c \<Longrightarrow> m_find (sessions c) o1 = Some sid \<Longrightarrow> m_find (sessions c) o2 = Some sid \<Longrightarrow> o1 = o2"
  unfolding sessions_ok_def by metis

text \<open>Fanning out sends on the session of each listed subscriber once, and on no other session.\<close>

lemma objects_send_to:
  "sessions_ok c \<Longrightarrow>
     objects (send_to payload key sub c) ! sid =
       (if m_find (sessions c) sub = Some sid then session_send payload key (objects c ! sid)
        else objects c ! sid)"
  by (auto simp: send_to_def sessionFor_def sessions_ok_def split: option.splits)

lemma sessions_ok_send_to: "sessions_ok c \<Longrightarrow> sessions_ok (send_to payload key sub c)"
  by (auto simp: send_to_def intro!: sessions_ok_update session_inv_ops split: option.splits)

lemma objects_fold_send_to:
  "sessions_ok c \<Longrightarrow> distinct subs \<Longrightarrow>
     objects (fold (send_to payload key) subs c) ! sid =
       (if \<exists>sub \<in> set subs. m_find (sessions c) sub = Some sid
        then session_send payload key (objects c ! sid) else objects c ! sid)"
proof (induction subs arbitrary: c)
  case (Cons sub subs)
  have ok: "sessions_ok (send_to payload key sub c)"
    using Cons.prems(1) by (rule sessions_ok_send_to)
  have "\<not> (\<exists>sub' \<in> set subs. m_find (sessions c) sub' = Some sid)"
    if "m_find (sessions c) sub = Some sid"
    using that Cons.prems sessions_inj by fastforce
  then show ?case using Cons.IH [OF ok] Cons.prems by (auto simp: objects_send_to)
qed simp

subsection \<open>The contract the server relies on\<close>

text \<open>
  The interface \<^verbatim>\<open>LocalClient\<close> (\<^verbatim>\<open>include/srnp/local_client.h\<close>): what the server half of a component may
  assume of the client half. Fanning out either fails before anything is sent or sends the same frame
  once to each listed peer; a welcome makes the client ready under the assigned id.
\<close>

locale local_client =
  fixes fan_pair :: "Pair \<Rightarrow> i32 list \<Rightarrow> 'c \<Rightarrow> 'c result"
    and fan_removal :: "RemovePairRequest \<Rightarrow> i32 list \<Rightarrow> 'c \<Rightarrow> 'c result"
    and on_welcome :: "MasterMessage \<Rightarrow> 'c \<Rightarrow> 'c"
    and peer_update :: "UpdateComponents \<Rightarrow> 'c \<Rightarrow> 'c"
    and inv :: "'c \<Rightarrow> bool"
    and peer :: "'c \<Rightarrow> i32 \<Rightarrow> ClientSession option"
    and identity :: "'c \<Rightarrow> i32 \<times> bool"
  assumes fan_pair_inv: "inv c \<Longrightarrow> fan_pair p subs c = Inr c' \<Longrightarrow> inv c'"
    and fan_removal_inv: "inv c \<Longrightarrow> fan_removal r subs c = Inr c' \<Longrightarrow> inv c'"
    and welcome_inv: "inv c \<Longrightarrow> inv (on_welcome w c)"
    and peer_update_inv: "inv c \<Longrightarrow> inv (peer_update u c)"
    and fan_pair_fails: "fan_pair p subs c = Inl e \<longleftrightarrow> frameOf encode_Pair MT_PairUpdate p = Inl e"
    and fan_pair_sends: "inv c \<Longrightarrow> distinct subs \<Longrightarrow> fan_pair p subs c = Inr c' \<Longrightarrow>
      \<exists>fr. frameOf encode_Pair MT_PairUpdate p = Inr fr \<and>
        peer c' j = (if j \<in> set subs then map_option (session_send fr (Some (key_of p))) (peer c j)
                     else peer c j)"
    and fan_removal_sends: "inv c \<Longrightarrow> distinct subs \<Longrightarrow> fan_removal r subs c = Inr c' \<Longrightarrow>
      \<exists>fr. frameOf encode_RemovePairRequest MT_PairRemoved r = Inr fr \<and>
        peer c' j = (if j \<in> set subs then map_option (session_send fr None) (peer c j)
                     else peer c j)"
    and fan_identity: "fan_pair p subs c = Inr c' \<Longrightarrow> identity c' = identity c"
    and welcome_identity: "identity (on_welcome w c) = (mm_owner w, True)"
begin

lemma update_reaches_peer:
  assumes "inv c" "distinct subs" "fan_pair p subs c = Inr c'" "j \<in> set subs" "peer c j = Some s"
  obtains fr where "frameOf encode_Pair MT_PairUpdate p = Inr fr"
    "peer c' j = Some (session_send fr (Some (key_of p)) s)"
  using fan_pair_sends [OF assms(1,2,3), of j] assms(4,5) that by auto

lemma others_untouched:
  "inv c \<Longrightarrow> distinct subs \<Longrightarrow> fan_pair p subs c = Inr c' \<Longrightarrow> j \<notin> set subs \<Longrightarrow> peer c' j = peer c j"
  using fan_pair_sends [of c subs p c' j] by auto

end

definition peer_session :: "'cb Client \<Rightarrow> i32 \<Rightarrow> ClientSession option" where
  "peer_session c owner = map_option (nth (objects c)) (m_find (sessions c) owner)"

definition client_identity :: "'cb Client \<Rightarrow> i32 \<times> bool" where
  "client_identity c = (owner_id c, ready c)"

lemma table_session_inv: "client_inv c \<Longrightarrow> peer_session c j = Some s \<Longrightarrow> session_inv s"
  by (auto simp: client_inv_def sessions_ok_def peer_session_def list_all_length)

lemma peer_session_fold_send_to:
  assumes "client_inv c" "distinct subs"
  shows "peer_session (fold (send_to payload key) subs c) j =
    (if j \<in> set subs then map_option (session_send payload key) (peer_session c j)
     else peer_session c j)"
proof (cases "m_find (sessions c) j")
  case (Some sid)
  have ok: "sessions_ok c" using assms(1) by (simp add: client_inv_def)
  then have "(\<exists>sub \<in> set subs. m_find (sessions c) sub = Some sid) \<longleftrightarrow> j \<in> set subs"
    using Some sessions_inj by blast
  then show ?thesis using Some ok assms(2) by (simp add: peer_session_def objects_fold_send_to)
qed (simp add: peer_session_def)

lemma fold_addSession_identity [simp]:
  "owner_id (fold addSession infos c) = owner_id c" "ready (fold addSession infos c) = ready c"
  by (induction infos arbitrary: c) (simp_all add: addSession_def)

interpretation own_client: local_client
  fanOutPair fanOutRemoval onWelcome onComponentUpdate client_inv peer_session client_identity
proof
  fix c c' :: "'a Client" and p subs r j
  show "client_inv c \<Longrightarrow> fanOutPair p subs c = Inr c' \<Longrightarrow> client_inv c'"
    by (rule client_inv_fanOutPair)
  show "client_inv c \<Longrightarrow> fanOutRemoval r subs c = Inr c' \<Longrightarrow> client_inv c'"
    by (rule client_inv_fanOutRemoval)
  show "client_inv c \<Longrightarrow> client_inv (onWelcome w c)" for w by (rule client_inv_onWelcome)
  show "client_inv c \<Longrightarrow> client_inv (onComponentUpdate u c)" for u
    by (rule client_inv_onComponentUpdate)
  show "fanOutPair p subs c = Inl e \<longleftrightarrow> frameOf encode_Pair MT_PairUpdate p = Inl e" for e
    by (simp add: fanOutPair_def bindE_eq_Inl)
  show "fanOutPair p subs c = Inr c' \<Longrightarrow> client_identity c' = client_identity c"
    by (auto simp: fanOutPair_def bindE_eq_Inr client_identity_def)
  show "client_identity (onWelcome w c) = (mm_owner w, True)" for w
    by (simp add: client_identity_def onWelcome_def)
  assume inv: "client_inv c" "distinct subs"
  show "fanOutPair p subs c = Inr c' \<Longrightarrow> \<exists>fr. frameOf encode_Pair MT_PairUpdate p = Inr fr \<and>
      peer_session c' j = (if j \<in> set subs
        then map_option (session_send fr (Some (key_of p))) (peer_session c j) else peer_session c j)"
    using inv by (auto simp: fanOutPair_def bindE_eq_Inr peer_session_fold_send_to key_of_def)
  show "fanOutRemoval r subs c = Inr c' \<Longrightarrow>
      \<exists>fr. frameOf encode_RemovePairRequest MT_PairRemoved r = Inr fr \<and>
      peer_session c' j = (if j \<in> set subs
        then map_option (session_send fr None) (peer_session c j) else peer_session c j)"
    using inv by (auto simp: fanOutRemoval_def bindE_eq_Inr peer_session_fold_send_to)
qed

subsection \<open>Publishing\<close>

definition node_inv :: "'cb Node \<Rightarrow> bool" where
  "node_inv n \<longleftrightarrow> ps_inv (node_space n) \<and> client_inv (node_client n)"

lemma node_invD: "node_inv n \<Longrightarrow> ps_inv (node_space n)" "node_inv n \<Longrightarrow> client_inv (node_client n)"
  by (simp_all add: node_inv_def)

text \<open>A publication of a ready client: the entry it leaves, and the two ways it can end.\<close>

lemma setPair_cases:
  assumes "node_inv n" "ready (node_client n)"
  obtains e where
    "m_find (pairs (addPair now (new_pair (owner_id (node_client n)) key value ty) (node_space n)))
       (PairKey (owner_id (node_client n)) key) = Some e"
    "key_of (pe_pair e) = PairKey (owner_id (node_client n)) key"
    "getValue (pe_pair e) = value" "getType (pe_pair e) = ty" "getWriteTime (pe_pair e) = now"
    "subscribers e = subscribers_of (node_space n) (PairKey (owner_id (node_client n)) key)"
    "distinct (subscribers e)"
    "callbacks e = callbacks_of (node_space n) (PairKey (owner_id (node_client n)) key)"
    "client_setPair now key value ty n =
      (let s = addPair now (new_pair (owner_id (node_client n)) key value ty) (node_space n)
       in case (if subscribers e \<noteq> [] then fanOutPair (pe_pair e) (subscribers e) (node_client n)
                else Inr (node_client n)) of
            Inl err \<Rightarrow> (Inl err, n\<lparr>node_space := s\<rparr>)
          | Inr c \<Rightarrow> (Inr True, n\<lparr>node_space := s,
                        node_client := notifyLocal (pe_pair e) (callbacks_for s e) c\<rparr>))"
proof -
  let ?p = "new_pair (owner_id (node_client n)) key value ty"
  have k: "key_of ?p = PairKey (owner_id (node_client n)) key" by simp
  obtain e where e: "m_find (pairs (addPair now ?p (node_space n))) (key_of ?p) = Some e"
    "key_of (pe_pair e) = key_of ?p" "getValue (pe_pair e) = getValue ?p"
    "getType (pe_pair e) = getType ?p" "getWriteTime (pe_pair e) = now"
    "subscribers e = subscribers_of (node_space n) (key_of ?p)" "distinct (subscribers e)"
    "callbacks e = callbacks_of (node_space n) (key_of ?p)"
    using addPair_entry [OF node_invD(1) [OF assms(1)], of now ?p] .
  show thesis
    by (rule that [of e])
      (use e assms(2) in \<open>simp_all add: k, simp_all add: client_setPair_def find_entry_def new_pair_def
         Let_def split: sum.splits\<close>)
qed

lemma peer_session_notifyLocal [simp]: "peer_session (notifyLocal p cbs c) = peer_session c"
  by (simp add: notifyLocal_def peer_session_def fun_eq_iff)

lemma client_getPair_eq:
  "client_getPair owner key n =
     (case m_find (pairs (node_space n)) (PairKey owner key) of
        None \<Rightarrow> None
      | Some e \<Rightarrow> if getType (pe_pair e) = PT_Invalid then None else Some (pe_pair e))"
  by (simp add: client_getPair_def copyOf_def find_entry_def split: option.splits)

lemma fan_if_sends:
  assumes "client_inv c" "distinct subs"
    and "(if subs \<noteq> [] then fanOutPair p subs c else Inr c) = Inr c'"
  shows "if j \<in> set subs
      then \<exists>fr. frameOf encode_Pair MT_PairUpdate p = Inr fr \<and>
        peer_session c' j = map_option (session_send fr (Some (key_of p))) (peer_session c j)
      else peer_session c' j = peer_session c j"
    and "callback_strand c' = callback_strand c"
proof -
  show "if j \<in> set subs
      then \<exists>fr. frameOf encode_Pair MT_PairUpdate p = Inr fr \<and>
        peer_session c' j = map_option (session_send fr (Some (key_of p))) (peer_session c j)
      else peer_session c' j = peer_session c j"
  proof (cases "subs = []")
    case False
    then have "fanOutPair p subs c = Inr c'" using assms(3) by simp
    from own_client.fan_pair_sends [OF assms(1,2) this, of j] show ?thesis by auto
  qed (use assms(3) in simp)
  show "callback_strand c' = callback_strand c"
    using assms(3) by (auto simp: fanOutPair_def bindE_eq_Inr split: if_splits)
qed

lemma setPair_effect:
  assumes "node_inv n" "ready (node_client n)" "client_setPair now key value ty n = (Inr True, n')"
    and "k = PairKey (owner_id (node_client n)) key"
  shows "\<exists>p. key_of p = k \<and> getValue p = value \<and> getType p = ty \<and> getWriteTime p = now \<and>
    published (node_space n') =
      (published (node_space n))(k := if ty = PT_Invalid then None else Some (value, ty)) \<and>
    client_getPair (owner_id (node_client n)) key n' = (if ty = PT_Invalid then None else Some p) \<and>
    subscribers_of (node_space n') = subscribers_of (node_space n) \<and>
    (\<forall>j. if j \<in> set (subscribers_of (node_space n) k)
         then \<exists>fr. frameOf encode_Pair MT_PairUpdate p = Inr fr \<and>
           peer_session (node_client n') j =
             map_option (session_send fr (Some k)) (peer_session (node_client n) j)
         else peer_session (node_client n') j = peer_session (node_client n) j) \<and>
    callback_strand (node_client n') = callback_strand (node_client n) @
      (case universalCallbacks (node_space n) @ map snd (m_entries (callbacks_of (node_space n) k)) of
         [] \<Rightarrow> [] | cbs \<Rightarrow> [(p, cbs)])"
proof -
  let ?c = "node_client n" and ?s = "addPair now (new_pair (owner_id (node_client n)) key value ty) (node_space n)"
  obtain e where e: "m_find (pairs ?s) k = Some e" "key_of (pe_pair e) = k"
    "getValue (pe_pair e) = value" "getType (pe_pair e) = ty" "getWriteTime (pe_pair e) = now"
    "subscribers e = subscribers_of (node_space n) k" "distinct (subscribers e)"
    "callbacks e = callbacks_of (node_space n) k"
    and res: "client_setPair now key value ty n =
      (let s = ?s in case (if subscribers e \<noteq> [] then fanOutPair (pe_pair e) (subscribers e) ?c else Inr ?c) of
            Inl err \<Rightarrow> (Inl err, n\<lparr>node_space := s\<rparr>)
          | Inr c \<Rightarrow> (Inr True, n\<lparr>node_space := s,
                        node_client := notifyLocal (pe_pair e) (callbacks_for s e) c\<rparr>))"
    using setPair_cases [OF assms(1,2), of now key "value" ty] unfolding assms(4) by blast
  obtain c where c: "(if subscribers e \<noteq> [] then fanOutPair (pe_pair e) (subscribers e) ?c else Inr ?c) = Inr c"
    and n': "n' = n\<lparr>node_space := ?s, node_client := notifyLocal (pe_pair e) (callbacks_for ?s e) c\<rparr>"
    using res assms(3) by (auto simp: Let_def split: sum.splits)
  note fan = fan_if_sends [OF node_invD(2) [OF assms(1)] e(7) c, unfolded e(2)]
  have "callbacks_for ?s e = universalCallbacks (node_space n) @ map snd (m_entries (callbacks e))"
    by (simp add: callbacks_for_def universalCallbacks_def)
  then have "callback_strand (node_client n') = callback_strand ?c @
      (case universalCallbacks (node_space n) @ map snd (m_entries (callbacks_of (node_space n) k)) of
         [] \<Rightarrow> [] | cbs \<Rightarrow> [(pe_pair e, cbs)])"
    using fan(2) e(8) by (auto simp: n' notifyLocal_def split: list.splits)
  moreover have "client_getPair (owner_id ?c) key n' = (if ty = PT_Invalid then None else Some (pe_pair e))"
    using e(1,4) assms(4) by (simp add: n' client_getPair_eq)
  moreover have "published (node_space n') =
      (published (node_space n))(k := if ty = PT_Invalid then None else Some (value, ty))"
    using assms(4) by (simp add: n' published_addPair, simp add: new_pair_def)
  ultimately show ?thesis using e fan(1)
    by (intro exI [of _ "pe_pair e"]) (simp add: n' subscribers_addPair)
qed


text \<open>
  A component with id 5 that knows one peer, component 7, which subscribed to its key \<open>k\<close>.
\<close>

definition sample_client :: "nat Client" where
  "sample_client = onWelcome \<lparr>mm_owner = I32 5,
     mm_all_components = [\<lparr>ci_owner = I32 7, ci_ip = ''h'', ci_port = ''p''\<rparr>]\<rparr> new_client"

definition sample_node :: "nat Node" where
  "sample_node = \<lparr>node_space = addSubscription 0 (I32 5) ''k'' (I32 7) empty_space,
     node_client = sample_client, node_calls = []\<rparr>"

lemma client_inv_new [simp]: "client_inv new_client"
  by (simp add: client_inv_def sessions_ok_def subscriptions_ok_def new_client_def)

lemma sample_node_facts [simp]:
  "node_inv sample_node" "ready (node_client sample_node)" "owner_id (node_client sample_node) = I32 5"
  "subscribers_of (node_space sample_node) (PairKey (I32 5) ''k'') = [I32 7]"
  "peer_session (node_client sample_node) (I32 7) = Some (new_session ''h'' ''p'' (I32 7))"
proof -
  show "node_inv sample_node"
    by (simp add: node_inv_def sample_node_def sample_client_def client_inv_onWelcome
        ps_inv_addSubscription ps_inv_empty)
  show "subscribers_of (node_space sample_node) (PairKey (I32 5) ''k'') = [I32 7]"
    by (simp add: sample_node_def subscribers_addSubscription push_new_def subscribers_of_def
        empty_space_def)
qed (simp_all add: sample_node_def sample_client_def onWelcome_def peer_session_def addSession_def
      new_client_def)

lemma setPair_succeeds:
  assumes "node_inv n" "ready (node_client n)" "29 + length key + length value \<le> kMaxPayload"
  shows "fst (client_setPair now key value ty n) = Inr True"
proof -
  obtain e where e: "key_of (pe_pair e) = PairKey (owner_id (node_client n)) key"
    "getValue (pe_pair e) = value"
    and res: "client_setPair now key value ty n =
      (let s = addPair now (new_pair (owner_id (node_client n)) key value ty) (node_space n)
       in case (if subscribers e \<noteq> [] then fanOutPair (pe_pair e) (subscribers e) (node_client n)
                else Inr (node_client n)) of
            Inl err \<Rightarrow> (Inl err, n\<lparr>node_space := s\<rparr>)
          | Inr c \<Rightarrow> (Inr True, n\<lparr>node_space := s,
                        node_client := notifyLocal (pe_pair e) (callbacks_for s e) c\<rparr>))"
    using setPair_cases [OF assms(1,2), of now key "value" ty] by blast
  have "getKey (pe_pair e) = key" using e(1) by (simp add: key_of_def)
  then obtain fr where "frameOf encode_Pair MT_PairUpdate (pe_pair e) = Inr fr"
    using assms(3) e(2) frameOf_Pair_ok_iff by metis
  then show ?thesis by (simp add: res Let_def fanOutPair_def)
qed


text \<open>
  A value that is too large to frame is stored all the same: when the key has a subscriber,
  \<^verbatim>\<open>setPair\<close> throws after the pair space was changed, no session has been sent anything and no callback
  is posted. Every later reader of the component sees the value, no subscriber ever does.
\<close>

lemma setPair_over_limit_is_stored:
  assumes "node_inv n" "ready (node_client n)"
    and "subscribers_of (node_space n) (PairKey (owner_id (node_client n)) key) \<noteq> []"
    and "kMaxPayload < 29 + length key + length value" "ty \<noteq> PT_Invalid"
  shows "\<exists>err n'. client_setPair now key value ty n = (Inl err, n') \<and>
    published (node_space n') (PairKey (owner_id (node_client n)) key) = Some (value, ty) \<and>
    node_client n' = node_client n"
proof -
  let ?s = "addPair now (new_pair (owner_id (node_client n)) key value ty) (node_space n)"
  obtain e where e: "key_of (pe_pair e) = PairKey (owner_id (node_client n)) key"
    "getValue (pe_pair e) = value"
    "subscribers e = subscribers_of (node_space n) (PairKey (owner_id (node_client n)) key)"
    and res: "client_setPair now key value ty n =
      (let s = ?s in case (if subscribers e \<noteq> []
             then fanOutPair (pe_pair e) (subscribers e) (node_client n) else Inr (node_client n)) of
            Inl err \<Rightarrow> (Inl err, n\<lparr>node_space := s\<rparr>)
          | Inr c \<Rightarrow> (Inr True, n\<lparr>node_space := s,
                        node_client := notifyLocal (pe_pair e) (callbacks_for s e) c\<rparr>))"
    using setPair_cases [OF assms(1,2), of now key "value" ty] by blast
  have "getKey (pe_pair e) = key" using e(1) by (simp add: key_of_def)
  then obtain err where "frameOf encode_Pair MT_PairUpdate (pe_pair e) = Inl err"
    using assms(4) e(2) frameOf_Pair_fails_iff by metis
  then have "client_setPair now key value ty n = (Inl err, n\<lparr>node_space := ?s\<rparr>)"
    using assms(3) e(3) by (simp add: res Let_def fanOutPair_def)
  moreover have "published ?s (PairKey (owner_id (node_client n)) key) = Some (value, ty)"
    using assms(5) by (simp add: published_addPair, simp add: new_pair_def)
  ultimately show ?thesis by simp
qed

subsection \<open>Removing\<close>

text \<open>
  C27. A successful \<^verbatim>\<open>removePair\<close> makes the pair unreadable and changes no other published value or
  callback; everyone subscribed to the key is sent the same removal frame once, which is not droppable,
  and nobody else is sent anything. Removing a key that has no entry succeeds and does nothing.
\<close>

theorem removePair_retracts:
  assumes "node_inv n" "ready (node_client n)" "client_removePair key n = (Inr True, n')"
    and "k = PairKey (owner_id (node_client n)) key"
  shows "published (node_space n') = (published (node_space n))(k := None) \<and>
    client_getPair (owner_id (node_client n)) key n' = None \<and>
    callbacks_of (node_space n') = callbacks_of (node_space n) \<and>
    (m_find (pairs (node_space n)) k = None \<longrightarrow> n' = n) \<and>
    (\<forall>e j. m_find (pairs (node_space n)) k = Some e \<longrightarrow>
       (if j \<in> set (subscribers e)
        then \<exists>fr. frameOf encode_RemovePairRequest MT_PairRemoved
               \<lparr>rp_owner = owner_id (node_client n), rp_key = key\<rparr> = Inr fr \<and>
             peer_session (node_client n') j =
               map_option (session_send fr None) (peer_session (node_client n) j)
        else peer_session (node_client n') j = peer_session (node_client n) j))"
proof (cases "m_find (pairs (node_space n)) k")
  case None
  then have "n' = n"
    using assms(2,3,4) by (auto simp: client_removePair_def find_entry_def)
  moreover have "published (node_space n) k = None" using None by (simp add: published_def)
  ultimately show ?thesis using None assms(4) by (auto simp: client_getPair_eq)
next
  case (Some e)
  let ?r = "\<lparr>rp_owner = owner_id (node_client n), rp_key = key\<rparr>"
  have space: "node_space n' = removePair (owner_id (node_client n)) key (node_space n)"
    and cl: "subscribers e = [] \<and> node_client n' = node_client n \<or>
      fanOutRemoval ?r (subscribers e) (node_client n) = Inr (node_client n')"
    using Some assms(2,3,4)
    by (auto simp: client_removePair_def find_entry_def Let_def split: if_splits sum.splits)
  have dist: "distinct (subscribers e)"
    using node_invD(1) [OF assms(1)] Some by (auto simp: ps_inv_def entries_ok_def)
  have "published (node_space n') = (published (node_space n))(k := None)"
    using assms(4) by (simp add: space published_removePair)
  moreover have "client_getPair (owner_id (node_client n)) key n' = None"
    using assms(4) Some by (simp add: client_getPair_eq space find_removePair pair_setters)
  moreover have "if j \<in> set (subscribers e)
      then \<exists>fr. frameOf encode_RemovePairRequest MT_PairRemoved ?r = Inr fr \<and>
        peer_session (node_client n') j =
          map_option (session_send fr None) (peer_session (node_client n) j)
      else peer_session (node_client n') j = peer_session (node_client n) j" for j
    using cl own_client.fan_removal_sends
      [OF node_invD(2) [OF assms(1)] dist, of ?r "node_client n'" j] by auto
  ultimately show ?thesis
    using Some by (simp add: space callbacks_removePair)
qed

theorem removePair_retracts_witness:
  "\<exists>n' fr. client_removePair ''k'' sample_node = (Inr True, n') \<and>
     client_getPair (I32 5) ''k'' n' = None \<and>
     peer_session (node_client n') (I32 7) =
       Some (session_send fr None (new_session ''h'' ''p'' (I32 7)))"
proof -
  obtain e where e: "m_find (pairs (node_space sample_node)) (PairKey (I32 5) ''k'') = Some e"
    "subscribers e = [I32 7]"
    by (simp add: sample_node_def addSubscription_def find_ensure_entry empty_space_def push_new_def
        Let_def)
  obtain fr where "frameOf encode_RemovePairRequest MT_PairRemoved
      \<lparr>rp_owner = I32 5, rp_key = ''k''\<rparr> = Inr fr"
    by (simp add: frameOf_def encode_RemovePairRequest_eq fits_def kMaxPayload_def frame_def
        string_bytes_def)
  then obtain n' where n': "client_removePair ''k'' sample_node = (Inr True, n')"
    using e by (simp add: client_removePair_def find_entry_def fanOutRemoval_def Let_def)
  note t = removePair_retracts [OF sample_node_facts(1,2) n' refl]
  have "\<exists>fr. peer_session (node_client n') (I32 7) =
      Some (session_send fr None (new_session ''h'' ''p'' (I32 7)))"
    using t [THEN conjunct2, THEN conjunct2, THEN conjunct2, THEN conjunct2, rule_format, of e "I32 7"] e
    by auto
  then show ?thesis using t n' by simp
qed

subsection \<open>Meta-pairs\<close>

lemma setPair_space:
  "ready (node_client n) \<Longrightarrow> node_space (snd (client_setPair now key v ty n)) =
     addPair now (new_pair (owner_id (node_client n)) key v ty) (node_space n)"
  by (simp add: client_setPair_def Let_def split: option.splits sum.splits)

lemma new_pair_value: "getValue (new_pair owner key v ty) = v" "getType (new_pair owner key v ty) = ty"
  by (simp_all add: new_pair_def)

text \<open>
  C29. Indirection works end to end: after \<^verbatim>\<open>setMetaPair\<close> on one of the component's own meta-pairs, with a
  target key that is one word, reading through the meta-pair is reading the target, and writing through
  it is \<^verbatim>\<open>setPair\<close> on the target when the component owns it and \<^verbatim>\<open>setRemotePair\<close> otherwise.
\<close>

theorem meta_pair_indirection:
  assumes "node_inv n" "ready (node_client n)" "me = owner_id (node_client n)"
    and "client_setMetaPair now me mk owner key n = (Inr True, n1)" "extractStrings key = [w]"
  shows "client_getPairIndirectly me mk n1 = client_getPair owner w n1 \<and>
    client_setPairIndirectly later me mk v n1 =
      (if owner = owner_id (node_client n1) then client_setPair later w v PT_String n1
       else client_setRemotePair owner w v PT_String n1)"
proof -
  have set: "client_setPair now mk (format_meta owner key) PT_String n = (Inr True, n1)"
    using assms(3,4) by (simp add: client_setMetaPair_def)
  have "node_space n1 = addPair now (new_pair me mk (format_meta owner key) PT_String) (node_space n)"
    using setPair_space [OF assms(2), of now mk "format_meta owner key" PT_String] set assms(3) by simp
  then obtain e where e: "m_find (pairs (node_space n1)) (PairKey me mk) = Some e"
    "getValue (pe_pair e) = format_meta owner key" "getType (pe_pair e) = PT_String"
    using addPair_entry [OF node_invD(1) [OF assms(1)], of now
        "new_pair me mk (format_meta owner key) PT_String"]
    by (metis key_of_new_pair new_pair_value)
  have "client_getPair me mk n1 = Some (pe_pair e)"
    using e by (simp add: client_getPair_eq)
  moreover have "parseMetaValue (format_meta owner key) = Some (PairKey owner w)"
    using assms(5) by (simp add: parseMetaValue_def extractStrings_format_meta)
  ultimately show ?thesis using e(2)
    by (simp add: client_getPairIndirectly_def client_setPairIndirectly_def)
qed

theorem meta_pair_indirection_witness:
  "\<exists>n1. client_setMetaPair 1 (I32 5) ''m'' (I32 9) ''pose'' sample_node = (Inr True, n1) \<and>
     client_getPairIndirectly (I32 5) ''m'' n1 = client_getPair (I32 9) ''pose'' n1"
proof -
  have "length (format_meta (I32 9) ''pose'') = 13"
    by (simp add: format_meta_def show_int_def) (subst show_nat.simps, simp)
  then have "fst (client_setPair 1 ''m'' (format_meta (I32 9) ''pose'') PT_String sample_node) = Inr True"
    by (intro setPair_succeeds) (simp_all add: kMaxPayload_def)
  then obtain n1 where n1: "client_setMetaPair 1 (I32 5) ''m'' (I32 9) ''pose'' sample_node = (Inr True, n1)"
    by (metis client_setMetaPair_def prod.collapse sample_node_facts(3))
  have w: "extractStrings ''pose'' = [''pose'']"
    by (rule extractStrings_word) (simp_all add: is_paren_def)
  show ?thesis
    using meta_pair_indirection [OF sample_node_facts(1,2) _ n1 w] n1 by simp
qed

subsection \<open>Subscriptions\<close>

lemma send_subscriptions_frame [simp]:
  "subscriptions (snd (send_subscriptions sids key registering c)) = subscriptions c"
  "next_subscription_handle (snd (send_subscriptions sids key registering c)) = next_subscription_handle c"
  by (induction sids key registering c rule: send_subscriptions.induct) (auto split: sum.splits)

lemma sendSubscription_frame [simp]:
  "subscriptions (snd (sendSubscription owner key registering c)) = subscriptions c"
  "next_subscription_handle (snd (sendSubscription owner key registering c)) = next_subscription_handle c"
  by (simp_all add: sendSubscription_def split: option.splits sum.splits)

definition subscription_request :: "i32 \<Rightarrow> string \<Rightarrow> i32 \<Rightarrow> bool \<Rightarrow> Frame" where
  "subscription_request owner key subscriber registering =
     \<lparr>fr_header = \<lparr>h_type = MT_Subscription, payload_length = of_nat (13 + length key),
        h_subscriber = I32 (-1)\<rparr>,
      fr_payload = string_bytes key @ le_bytes (i32_bits owner) @ le_bytes (i32_bits subscriber) @
        le_bytes (if registering then 1 else 0 :: u8)\<rparr>"

definition subscription_bytes :: "i32 \<Rightarrow> string \<Rightarrow> i32 \<Rightarrow> bool \<Rightarrow> byte list" where
  "subscription_bytes owner key subscriber registering =
     frame_bytes (subscription_request owner key subscriber registering)"

lemma subscription_frame_ok:
  "13 + length key \<le> kMaxPayload \<Longrightarrow>
     subscription_frame owner key subscriber registering =
       Inr (subscription_bytes owner key subscriber registering)"
  by (simp add: subscription_frame_def frameOf_def encode_Subscription_eq fits_def frame_def
      subscription_bytes_def subscription_request_def frame_bytes_def string_bytes_def)

lemma subscription_frame_Inr:
  assumes "subscription_frame owner key subscriber registering = Inr fr"
  shows "fr = subscription_bytes owner key subscriber registering" "13 + length key \<le> kMaxPayload"
proof -
  show fits: "13 + length key \<le> kMaxPayload"
    using assms by (simp add: subscription_frame_def frameOf_def encode_Subscription_eq frame_def string_bytes_def
        split: if_splits)
  show "fr = subscription_bytes owner key subscriber registering"
    using assms subscription_frame_ok [OF fits] by simp
qed

lemma read_subscription_request:
  "13 + length key \<le> kMaxPayload \<Longrightarrow>
     channel_read (subscription_bytes owner key subscriber registering @ rest) =
       Inr (subscription_request owner key subscriber registering, rest)"
  unfolding subscription_bytes_def
  by (rule channel_read_frame) (simp add: sendable_def subscription_request_def string_bytes_def)

lemma find_unique:
  "x \<in> set xs \<Longrightarrow> P x \<Longrightarrow> (\<And>y. y \<in> set xs \<Longrightarrow> P y \<Longrightarrow> y = x) \<Longrightarrow> List.find P xs = Some x"
proof (cases "List.find P xs")
  case None
  then show "x \<in> set xs \<Longrightarrow> P x \<Longrightarrow> ?thesis" by (auto simp: find_None_iff)
next
  case (Some y)
  then have "y \<in> set xs" "P y" by (auto simp: find_Some_iff)
  then show "(\<And>y. y \<in> set xs \<Longrightarrow> P y \<Longrightarrow> y = x) \<Longrightarrow> ?thesis" using Some by blast
qed

lemma registerSubscription_result:
  assumes "client_inv c" "next_subscription_handle c + 1 \<noteq> 0"
    and "registerSubscription owner key c = (Inr h, c1)" "h \<noteq> kInvalidSubscriptionHandle"
  shows "h = next_subscription_handle c + 1" "m_find (subscriptions c) h = None"
    "subscriptions c1 = m_assign h \<lparr>sr_owner = owner, sr_key = key\<rparr> (subscriptions c)"
proof -
  let ?h = "next_subscription_handle c + 1"
  have "\<not> ?h \<le> next_subscription_handle c" using word_increment(1) [OF assms(2)] by simp
  then have none: "m_find (subscriptions c) ?h = None"
    using assms(1) unfolding client_inv_def subscriptions_ok_def by (metis not_Some_eq)
  let ?c = "c\<lparr>next_subscription_handle := ?h,
      subscriptions := m_emplace ?h \<lparr>sr_owner = owner, sr_key = key\<rparr> (subscriptions c)\<rparr>"
  have "h = ?h" "c1 = snd (sendSubscription owner key True ?c)"
    using assms(3,4) by (auto simp: registerSubscription_def Let_def split: if_splits prod.splits sum.splits)
  then show "h = next_subscription_handle c + 1" "m_find (subscriptions c) h = None"
    "subscriptions c1 = m_assign h \<lparr>sr_owner = owner, sr_key = key\<rparr> (subscriptions c)"
    using none by (simp_all add: m_emplace_def)
qed

text \<open>
  A successful \<^verbatim>\<open>registerSubscription\<close> returns a handle never in use, refuses to register the same
  subscription twice, and cancelling by that handle, or by owner and key, leaves exactly the
  subscriptions held before.
\<close>

lemma cancel_subscription_undoes_register:
  assumes "client_inv c" "next_subscription_handle c + 1 \<noteq> 0"
    and "registerSubscription owner key c = (Inr h, c1)" "h \<noteq> kInvalidSubscriptionHandle"
  shows "m_find (subscriptions c) h = None \<and>
    registerSubscription owner key c1 = (Inr kInvalidSubscriptionHandle, c1) \<and>
    subscriptions (snd (cancelSubscription h c1)) = subscriptions c \<and>
    subscriptions (snd (cancelSubscription_key owner key c1)) = subscriptions c"
proof -
  note r = registerSubscription_result [OF assms]
  let ?r = "\<lparr>sr_owner = owner, sr_key = key\<rparr>"
  have find: "m_find (subscriptions c1) h = Some ?r" by (simp add: r(3))
  have inv: "client_inv c1"
    using client_inv_registerSubscription [OF assms(1,2), of owner key] assms(3) by simp
  have uniq: "h' = h" if "(h', r') \<in> set (m_entries (subscriptions c1))"
    "sr_owner r' = owner" "sr_key r' = key" for h' r'
    using inv find that by (auto simp: smap.mem_entries_iff client_inv_def subscriptions_ok_def)
  have mem: "(h, ?r) \<in> set (m_entries (subscriptions c1))" using find by (simp add: smap.mem_entries_iff)
  have restored: "m_erase h (subscriptions c1) = subscriptions c"
    using r(2) by (simp add: r(3) smap.erase_assign smap.erase_absent)
  have "registerSubscription owner key c1 = (Inr kInvalidSubscriptionHandle, c1)"
    using mem by (force simp: registerSubscription_def list_ex_iff)
  moreover obtain res c2
    where send: "sendSubscription owner key False (c1\<lparr>subscriptions := subscriptions c\<rparr>) = (res, c2)"
    by fastforce
  then have "subscriptions c2 = subscriptions c"
    using sendSubscription_frame(1) [of owner key False "c1\<lparr>subscriptions := subscriptions c\<rparr>"] by simp
  moreover have "List.find (\<lambda>(h, r). sr_owner r = owner \<and> sr_key r = key)
      (m_entries (subscriptions c1)) = Some (h, ?r)"
  proof (rule find_unique)
    fix y assume y: "y \<in> set (m_entries (subscriptions c1))" "case y of (h, r) \<Rightarrow> sr_owner r = owner \<and> sr_key r = key"
    then have "fst y = h" using uniq [of "fst y" "snd y"] by (simp add: case_prod_beta)
    then show "y = (h, ?r)"
      using y(1) find by (cases y) (simp add: smap.mem_entries_iff)
  qed (use mem in simp_all)
  ultimately show ?thesis using r(2) find
    by (cases res) (simp_all add: cancelSubscription_def cancelSubscription_key_def restored send)
qed

subsection \<open>Replaying subscriptions\<close>

lemma ok_prefix_all: "ok_prefix (map (\<lambda>x. Inr (f x)) xs) = map f xs"
  by (induction xs) simp_all

definition wants :: "'cb Client \<Rightarrow> i32 \<Rightarrow> string \<Rightarrow> bool" where
  "wants c owner key \<longleftrightarrow>
     (\<exists>h r. m_find (subscriptions c) h = Some r \<and> sr_key r = key \<and>
            (sr_owner r = kAnyOwner \<or> sr_owner r = owner))"

lemma subscriptionsFor_iff: "(\<exists>r \<in> set (subscriptionsFor owner c). sr_key r = key) \<longleftrightarrow> wants c owner key"
  by (force simp: subscriptionsFor_def wants_def simp flip: smap.mem_entries_iff)

lemma replay_frames_eq:
  assumes "\<forall>r \<in> set (subscriptionsFor owner c). 13 + length (sr_key r) \<le> kMaxPayload"
  shows "replay_frames owner c =
    map (\<lambda>r. \<lparr>ob_bytes = subscription_bytes owner (sr_key r) (owner_id c) True, ob_key = None\<rparr>)
      (subscriptionsFor owner c)"
proof -
  let ?o = "\<lambda>r. if sr_owner r = kAnyOwner then owner else sr_owner r"
  have "?o r = owner" if "r \<in> set (subscriptionsFor owner c)" for r
    using that by (auto simp: subscriptionsFor_def)
  then have "map (\<lambda>r. subscription_frame (?o r) (sr_key r) (owner_id c) True) (subscriptionsFor owner c) =
    map (\<lambda>r. Inr (subscription_bytes owner (sr_key r) (owner_id c) True)) (subscriptionsFor owner c)"
    using assms by (intro map_cong) (simp_all add: subscription_frame_ok)
  then show ?thesis by (simp only: replay_frames_def ok_prefix_all map_map) (simp add: comp_def)
qed

fun run_session :: "nat \<Rightarrow> nat \<Rightarrow> 'cb Client \<Rightarrow> 'cb Client" where
  "run_session 0 sid c = c"
| "run_session (Suc n) sid c = run_session n sid (client_run_step sid c)"

lemma subscriptionsFor_update [simp]: "subscriptionsFor owner (update_object sid f c) = subscriptionsFor owner c"
  by (simp add: subscriptionsFor_def)

lemma replay_frames_update [simp]: "replay_frames owner (update_object sid f c) = replay_frames owner c"
  by (simp add: replay_frames_def)

lemma run_session_eq:
  "sid < length (objects c) \<Longrightarrow>
     objects (run_session n sid c) ! sid =
       run_steps n (replay_frames (endpoint_owner_id (objects c ! sid)) c) (objects c ! sid)"
  by (induction n arbitrary: c) (simp_all add: client_run_step_def)

text \<open>
  C28. A component that connects late learns every subscription that applies to it: when the coroutine of
  a session that had not connected yet runs to its end undisturbed, what it has put on the channel is
  first what was waiting, then exactly one registering \<open>Subscription\<close> frame for each subscription held
  that names the component or any owner, addressed to that component in our name.
\<close>

theorem late_component_learns_subscriptions:
  assumes "client_inv c" "m_find (sessions c) owner = Some sid" "s = objects c ! sid"
    and "run_at s = Connecting" "\<not> closing s"
    and "\<forall>r \<in> set (subscriptionsFor owner c). 13 + length (sr_key r) \<le> kMaxPayload"
    and "length (subscriptionsFor owner c) + kMaxPendingFrames \<le> kMaxOutboxFrames"
  shows "session_out (objects (run_session (length (pending s) + 1 + length (subscriptionsFor owner c) + 1)
        sid (client_connected sid c)) ! sid) =
      pending s @ map (\<lambda>r. \<lparr>ob_bytes = subscription_bytes owner (sr_key r) (owner_id c) True,
                            ob_key = None\<rparr>) (subscriptionsFor owner c) \<and>
    (\<forall>key. (\<exists>r \<in> set (subscriptionsFor owner c). sr_key r = key) \<longleftrightarrow> wants c owner key)"
proof -
  have sid: "sid < length (objects c)" "endpoint_owner_id s = owner" and inv: "session_inv s"
    using assms(1,2,3) by (auto simp: client_inv_def sessions_ok_def list_all_length)
  let ?subs = "replay_frames owner c"
  have len: "length ?subs = length (subscriptionsFor owner c)"
    using replay_frames_eq [OF assms(6)] by simp
  have con: "run_connected s = s\<lparr>channel := Some new_channel, pending := [], run_at := Flushing (pending s)\<rparr>"
    using assms(4,5) by (simp add: run_connected_def)
  have "length (pending s @ ?subs) \<le> kMaxOutboxFrames"
    using inv assms(7) len by (simp add: session_inv_def)
  then have "stream (fold offer_frame (pending s @ ?subs) new_channel) = pending s @ ?subs"
    using offers_stream_room [of new_channel "pending s @ ?subs"]
    by (simp add: stream_new_channel) (simp add: new_channel_def)
  moreover have "run_steps (length (pending s) + 1 + length ?subs + 1) ?subs (run_connected s) =
      (run_connected s)\<lparr>channel := Some (fold offer_frame (pending s @ ?subs) new_channel), run_at := Idle\<rparr>"
    using con assms(5) by (intro run_steps_all) simp_all
  ultimately have "session_out (run_steps (length (pending s) + 1 + length ?subs + 1) ?subs
      (run_connected s)) = pending s @ ?subs"
    by (simp add: session_out_def)
  moreover have "objects (client_connected sid c) ! sid = run_connected s"
    "replay_frames owner (client_connected sid c) = ?subs" "sid < length (objects (client_connected sid c))"
    using sid assms(3) by (simp_all add: client_connected_def)
  ultimately show ?thesis
    using sid(2) run_session_eq [of sid "client_connected sid c"]
    by (simp only: len replay_frames_eq [OF assms(6)] session_fields subscriptionsFor_iff simp_thms length_map)
qed

lemma sample_session:
  "m_find (sessions sample_client) (I32 7) = Some 0"
  "objects sample_client = [new_session ''h'' ''p'' (I32 7)]"
  "owner_id sample_client = I32 5" "subscriptions sample_client = m_empty"
  "components sample_client = m_assign (I32 7) \<lparr>ci_owner = I32 7, ci_ip = ''h'', ci_port = ''p''\<rparr> m_empty"
  by (simp_all add: sample_client_def onWelcome_def addSession_def new_client_def)

theorem late_component_learns_subscriptions_witness:
  "let c = sample_client\<lparr>subscriptions := m_assign 1 \<lparr>sr_owner = kAnyOwner, sr_key = ''x''\<rparr> m_empty,
                        next_subscription_handle := 1\<rparr>
   in session_out (objects (run_session 3 0 (client_connected 0 c)) ! 0) =
     [\<lparr>ob_bytes = subscription_bytes (I32 7) ''x'' (I32 5) True, ob_key = None\<rparr>]"
proof -
  let ?r = "\<lparr>sr_owner = kAnyOwner, sr_key = ''x''\<rparr>"
  let ?c = "sample_client\<lparr>subscriptions := m_assign 1 ?r m_empty, next_subscription_handle := 1\<rparr>"
  have "client_inv sample_client" by (simp add: sample_client_def client_inv_onWelcome)
  then have inv: "client_inv ?c"
    by (auto simp: client_inv_def sessions_ok_def subscriptions_ok_def split: if_splits)
  have subs: "subscriptionsFor (I32 7) ?c = [?r]" by (simp add: subscriptionsFor_def)
  have "m_find (sessions ?c) (I32 7) = Some 0" by (simp add: sample_session)
  from late_component_learns_subscriptions [OF inv this refl]
  show ?thesis
    by (simp add: subs sample_session kMaxPayload_def kMaxPendingFrames_def kMaxOutboxFrames_def,
        simp add: new_session_def numeral_eq_Suc)
qed

subsection \<open>A replaced session\<close>

lemma fold_close_other:
  "sid \<notin> set sids \<Longrightarrow> objects (fold (\<lambda>sid. update_object sid session_close) sids c) ! sid = objects c ! sid"
  by (induction sids arbitrary: c) (auto simp: update_object_def)

text \<open>
  When a component joins under an owner id that already has a session, the new session takes its
  place in the map and the old one is neither closed then nor reachable afterwards: no lookup, fan-out
  or wildcard broadcast finds it, and even closing the client leaves it open, with its connection.
\<close>

lemma replaced_session_is_leaked:
  assumes "client_inv c" "m_find (sessions c) (ci_owner info) = Some sid" "\<not> closing (objects c ! sid)"
  shows "\<not> closing (objects (client_close (addSession info c)) ! sid) \<and>
    (\<forall>owner. sessionFor owner (addSession info c) \<noteq> Some sid) \<and> sid \<notin> set (allSessions (addSession info c))"
proof -
  have ok: "sessions_ok c" and sid: "sid < length (objects c)"
    using assms(1,2) by (auto simp: client_inv_def sessions_ok_def)
  have none: "m_find (sessions (addSession info c)) owner \<noteq> Some sid" for owner
    using sessions_inj [OF ok assms(2), of owner] sid by (auto simp: addSession_def)
  then have notin: "sid \<notin> set (allSessions (addSession info c))"
    by (auto simp: allSessions_def smap.mem_entries_iff)
  have "objects (client_close (addSession info c)) ! sid = objects (addSession info c) ! sid"
    using notin by (simp add: client_close_def fold_close_other)
  then show ?thesis using none notin assms(3) sid
    by (simp add: sessionFor_def addSession_def nth_append)
qed

end
