(* ===== verification/Server.thy ===== *)
theory Server
  imports Client
begin

text \<open>
  \<^verbatim>\<open>include/srnp/server.h\<close> and \<^verbatim>\<open>src/server.cpp\<close>: the sessions other components open to us
  (\<^verbatim>\<open>ServerSession\<close>), the connection to the master (\<^verbatim>\<open>MasterLink\<close>) and the \<^verbatim>\<open>Server\<close> that owns them.

  A handler takes a frame and the server's state, which contains the node it shares with the client; it
  returns the exception it threw, if any, with the state it left. \<open>now\<close> is \<^verbatim>\<open>Clock::now()\<close>, a function of the
  number of frames handled so far in the read loops. A read loop runs over the bytes a peer sends until
  an exception ends it, at the latest the end of the stream, so it is a total function of these bytes.
  User callbacks run synchronously; a call is recorded in \<open>node_calls\<close>.

  Shown: whatever bytes arrive, the invariant of the node holds; a published pair, framed, sent, read and
  handled arrives at the subscriber; a new subscriber is sent the current values; misaddressed requests
  change nothing; and updates of foreign pairs are forwarded although the comment says they are not.
\<close>

subsection \<open>State\<close>

record MasterLink =
  link_master_ip :: string
  link_master_port :: string
  link_channel :: FrameChannel
  link_closing :: bool

text \<open>
  \<open>srv_workers\<close> counts the threads that run the event loop, \<open>srv_running\<close> says that the loop was not
  stopped, and \<open>srv_close_posted\<close> that closing the acceptor was handed to its strand.
\<close>

record 'cb Server =
  srv_port :: "16 word"
  srv_owner :: i32
  srv_node :: "'cb Node"
  srv_link :: MasterLink
  srv_workers :: nat
  srv_running :: bool
  srv_close_posted :: bool
  srv_stopped :: bool

definition fan_out :: "Pair \<Rightarrow> i32 list \<Rightarrow> 'cb Server \<Rightarrow> unit result \<times> 'cb Server" where
  "fan_out p subs srv =
     (case fanOutPair p subs (node_client (srv_node srv)) of
        Inl err \<Rightarrow> (Inl err, srv)
      | Inr c \<Rightarrow> (Inr (), srv\<lparr>srv_node := (srv_node srv)\<lparr>node_client := c\<rparr>\<rparr>))"

definition set_space :: "'cb PairSpace \<Rightarrow> 'cb Server \<Rightarrow> 'cb Server" where
  "set_space s srv = srv\<lparr>srv_node := (srv_node srv)\<lparr>node_space := s\<rparr>\<rparr>"

subsection \<open>Handlers\<close>

definition applyAndNotify :: "TimePoint \<Rightarrow> Pair \<Rightarrow> 'cb Server \<Rightarrow> unit result \<times> 'cb Server" where
  "applyAndNotify now p srv =
     (let s = addPair now p (node_space (srv_node srv));
          srv1 = set_space s srv
      in case find_entry (getOwner p) (getKey p) s of
           None \<Rightarrow> (Inr (), srv1)
         | Some e \<Rightarrow>
             let srv2 = srv1\<lparr>srv_node := (srv_node srv1)
                   \<lparr>node_calls := node_calls (srv_node srv1) @ map (Pair (pe_pair e)) (callbacks_for s e)\<rparr>\<rparr>
             in if subscribers e \<noteq> [] then fan_out (pe_pair e) (subscribers e) srv2 else (Inr (), srv2))"

definition handleIncomingPair :: "TimePoint \<Rightarrow> Frame \<Rightarrow> 'cb Server \<Rightarrow> unit result \<times> 'cb Server" where
  "handleIncomingPair now fr srv =
     (case decodePayload decode_Pair (fr_payload fr) of
        Inl err \<Rightarrow> (Inl err, srv)
      | Inr p \<Rightarrow> applyAndNotify now (setOwner (srv_owner srv) p) srv)"

definition handlePairUpdate :: "TimePoint \<Rightarrow> Frame \<Rightarrow> 'cb Server \<Rightarrow> unit result \<times> 'cb Server" where
  "handlePairUpdate now fr srv =
     (case decodePayload decode_Pair (fr_payload fr) of
        Inl err \<Rightarrow> (Inl err, srv)
      | Inr p \<Rightarrow> applyAndNotify now p srv)"

definition sendPairUpdate :: "Pair \<Rightarrow> i32 \<Rightarrow> 'cb Server \<Rightarrow> unit result \<times> 'cb Server" where
  "sendPairUpdate p subscriber srv = fan_out p [subscriber] srv"

fun sendPairUpdates :: "Pair list \<Rightarrow> i32 \<Rightarrow> 'cb Server \<Rightarrow> unit result \<times> 'cb Server" where
  "sendPairUpdates [] subscriber srv = (Inr (), srv)"
| "sendPairUpdates (p # ps) subscriber srv =
     (case sendPairUpdate p subscriber srv of
        (Inl err, srv1) \<Rightarrow> (Inl err, srv1)
      | (Inr _, srv1) \<Rightarrow> sendPairUpdates ps subscriber srv1)"

text \<open>The pairs \<^verbatim>\<open>handleSubscription\<close> collects for a new subscriber, after the registration.\<close>

definition pairs_to_send :: "i32 \<Rightarrow> Subscription \<Rightarrow> 'cb PairSpace \<Rightarrow> Pair list" where
  "pairs_to_send owner m s =
     (if sub_key m = kWildcardKey
      then filter (\<lambda>p. getOwner p = owner \<and> getType p \<noteq> PT_Invalid) (map (\<lambda>(k, e). pe_pair e) (getAllPairs s))
      else case find_entry (sub_owner_id m) (sub_key m) s of
             None \<Rightarrow> []
           | Some e \<Rightarrow> if getType (pe_pair e) \<noteq> PT_Invalid then [pe_pair e] else [])"

definition handleSubscription :: "TimePoint \<Rightarrow> Frame \<Rightarrow> 'cb Server \<Rightarrow> unit result \<times> 'cb Server" where
  "handleSubscription now fr srv =
     (case decodePayload decode_Subscription (fr_payload fr) of
        Inl err \<Rightarrow> (Inl err, srv)
      | Inr m \<Rightarrow>
          let wildcard = (sub_key m = kWildcardKey); space = node_space (srv_node srv)
          in if \<not> wildcard \<and> sub_owner_id m \<noteq> srv_owner srv then (Inr (), srv)
             else if sub_subscriber m = srv_owner srv then (Inr (), srv)
             else if \<not> sub_registering m
             then (Inr (), set_space (if wildcard then removeSubscriptionToAll (sub_subscriber m) space
                     else removeSubscription (sub_owner_id m) (sub_key m) (sub_subscriber m) space) srv)
             else let s = (if wildcard then addSubscriptionToAll (sub_subscriber m) space
                           else addSubscription now (sub_owner_id m) (sub_key m) (sub_subscriber m) space)
                  in sendPairUpdates (pairs_to_send (srv_owner srv) m s) (sub_subscriber m) (set_space s srv))"

definition handleRemovePair :: "Frame \<Rightarrow> 'cb Server \<Rightarrow> unit result \<times> 'cb Server" where
  "handleRemovePair fr srv =
     (case decodePayload decode_RemovePairRequest (fr_payload fr) of
        Inl err \<Rightarrow> (Inl err, srv)
      | Inr m \<Rightarrow>
          if rp_owner m \<noteq> srv_owner srv then (Inr (), srv)
          else case find_entry (rp_owner m) (rp_key m) (node_space (srv_node srv)) of
                 None \<Rightarrow> (Inr (), srv)
               | Some e \<Rightarrow>
                   let srv1 = set_space (removePair (rp_owner m) (rp_key m) (node_space (srv_node srv))) srv
                   in if subscribers e = [] then (Inr (), srv1)
                      else case fanOutRemoval m (subscribers e) (node_client (srv_node srv1)) of
                             Inl err \<Rightarrow> (Inl err, srv1)
                           | Inr c \<Rightarrow> (Inr (), srv1\<lparr>srv_node := (srv_node srv1)\<lparr>node_client := c\<rparr>\<rparr>))"

definition handlePairRemoved :: "Frame \<Rightarrow> 'cb Server \<Rightarrow> unit result \<times> 'cb Server" where
  "handlePairRemoved fr srv =
     (case decodePayload decode_RemovePairRequest (fr_payload fr) of
        Inl err \<Rightarrow> (Inl err, srv)
      | Inr m \<Rightarrow> (Inr (), set_space (removePair (rp_owner m) (rp_key m) (node_space (srv_node srv))) srv))"

definition handle_frame :: "TimePoint \<Rightarrow> Frame \<Rightarrow> 'cb Server \<Rightarrow> unit result \<times> 'cb Server" where
  "handle_frame now fr srv =
     (case h_type (fr_header fr) of
        MT_Pair \<Rightarrow> handleIncomingPair now fr srv
      | MT_PairUpdate \<Rightarrow> handlePairUpdate now fr srv
      | MT_Subscription \<Rightarrow> handleSubscription now fr srv
      | MT_RemovePair \<Rightarrow> handleRemovePair fr srv
      | MT_PairRemoved \<Rightarrow> handlePairRemoved fr srv
      | _ \<Rightarrow> (Inl (DecodeError ''a server cannot handle this message type''), srv))"

subsection \<open>The read loop of a session\<close>

lemma channel_read_consumes: "channel_read input = Inr (f, rest) \<Longrightarrow> length rest < length input"
  using channel_read_bounds(4) [of input f rest] by (simp add: kHeaderSize_def)

function session_run :: "(nat \<Rightarrow> TimePoint) \<Rightarrow> nat \<Rightarrow> byte list \<Rightarrow> 'cb Server \<Rightarrow> error \<times> 'cb Server" where
  "session_run clock i input srv =
     (case channel_read input of
        Inl err \<Rightarrow> (err, srv)
      | Inr (fr, rest) \<Rightarrow>
          (case handle_frame (clock i) fr srv of
             (Inl err, srv1) \<Rightarrow> (err, srv1)
           | (Inr _, srv1) \<Rightarrow> session_run clock (Suc i) rest srv1))"
  by pat_completeness auto

termination
  by (relation "measure (\<lambda>(clock, i, input, srv). length input)") (auto dest: channel_read_consumes)

declare session_run.simps [simp del]

subsection \<open>The link to the master\<close>

definition kLoopback :: string where "kLoopback = ''127.0.0.1''"

definition reachable_from :: "string \<Rightarrow> ComponentInfo \<Rightarrow> ComponentInfo" where
  "reachable_from master_ip c = (if ci_ip c = kLoopback then c\<lparr>ci_ip := master_ip\<rparr> else c)"

text \<open>
  Registration is synchronous: what is written, and what is made of the bytes the master answers with.
  The read takes the header and then the payload, like \<open>channel_read\<close>, with the test of the type between.
\<close>

definition registration_request :: "16 word \<Rightarrow> i32 \<Rightarrow> byte list result" where
  "registration_request our_port desired_owner_id =
     frameOf encode_IndicatePresence MT_IndicatePresence
       \<lparr>ip_port = show_nat (unat our_port), ip_force_owner_id = (desired_owner_id \<noteq> kAnyOwner),
        ip_owner_id = desired_owner_id\<rparr>"

definition registerWithMaster ::
    "string \<Rightarrow> 16 word \<Rightarrow> i32 \<Rightarrow> byte list \<Rightarrow> (MasterMessage \<times> byte list) result" where
  "registerWithMaster master_ip our_port desired_owner_id input =
     bindE (registration_request our_port desired_owner_id) (\<lambda>request.
     bindE (async_read kHeaderSize input) (\<lambda>(hdr, input).
     bindE (decodeHeader hdr) (\<lambda>h.
       if h_type h \<noteq> MT_MasterMessage
       then Inl (DecodeError ''expected the master's reply, got something else'')
       else bindE (async_read (unat (payload_length h)) input) (\<lambda>(payload, input).
            bindE (decodePayload decode_MasterMessage payload) (\<lambda>m.
              Inr (m\<lparr>mm_all_components := map (reachable_from master_ip) (mm_all_components m)\<rparr>, input))))))"

function link_run :: "string \<Rightarrow> byte list \<Rightarrow> 'cb Client \<Rightarrow> error \<times> 'cb Client" where
  "link_run master_ip input c =
     (case channel_read input of
        Inl err \<Rightarrow> (err, c)
      | Inr (fr, rest) \<Rightarrow>
          if h_type (fr_header fr) \<noteq> MT_UpdateComponents
          then (DecodeError ''the master sent an unexpected message type'', c)
          else (case decodePayload decode_UpdateComponents (fr_payload fr) of
                  Inl err \<Rightarrow> (err, c)
                | Inr u \<Rightarrow>
                    link_run master_ip rest
                      (onComponentUpdate (u\<lparr>uc_component := reachable_from master_ip (uc_component u)\<rparr>) c)))"
  by pat_completeness auto

termination
  by (relation "measure (\<lambda>(ip, input, c). length input)") (auto dest: channel_read_consumes)

declare link_run.simps [simp del]

subsection \<open>The server\<close>

text \<open>
  The constructor after the sockets are up: register, tell the client, and the id is ours. It throws
  what registration throws, with the client untouched. The third component of a success is what of the
  master's bytes is left for \<^verbatim>\<open>MasterLink::run\<close>.
\<close>

definition new_link :: "string \<Rightarrow> string \<Rightarrow> MasterLink" where
  "new_link master_ip master_port =
     \<lparr>link_master_ip = master_ip, link_master_port = master_port, link_channel = new_channel,
      link_closing = False\<rparr>"

definition startWorkers :: "'cb Server \<Rightarrow> 'cb Server" where
  "startWorkers srv = srv\<lparr>srv_workers := srv_workers srv + 4\<rparr>"

definition new_server ::
    "string \<Rightarrow> string \<Rightarrow> 16 word \<Rightarrow> i32 \<Rightarrow> byte list \<Rightarrow> 'cb Node \<Rightarrow> ('cb Server \<times> byte list) result" where
  "new_server master_ip master_port our_port desired_owner_id input n =
     bindE (registerWithMaster master_ip our_port desired_owner_id input) (\<lambda>(w, input).
       Inr (startWorkers
             \<lparr>srv_port = our_port, srv_owner = mm_owner w,
              srv_node = n\<lparr>node_client := onWelcome w (node_client n)\<rparr>,
              srv_link = new_link master_ip master_port, srv_workers = 0, srv_running = True,
              srv_close_posted = False, srv_stopped = False\<rparr>, input))"

definition link_close :: "MasterLink \<Rightarrow> MasterLink" where
  "link_close l = l\<lparr>link_closing := True, link_channel := channel_close (link_channel l)\<rparr>"

text \<open>\<^verbatim>\<open>workers_.clear()\<close> joins the threads, which return because the event loop was stopped.\<close>

definition server_stop :: "'cb Server \<Rightarrow> 'cb Server" where
  "server_stop srv =
     (if srv_stopped srv then srv
      else srv\<lparr>srv_stopped := True, srv_link := link_close (srv_link srv), srv_close_posted := True,
               srv_running := False, srv_workers := 0\<rparr>)"

text \<open>
  The accept loop, over what \<^verbatim>\<open>async_accept\<close> yields one after the other: the error that ends it, with whether the
  server had been stopped by then, or a connection, for which a session is spawned. The result is the
  sessions spawned so far and the error that was reported, if any. A spawned session then runs \<open>session_run\<close>
  on its own, at any time.
\<close>

fun acceptLoop :: "(bool \<times> string + 'socket) list \<Rightarrow> 'socket list \<times> string option" where
  "acceptLoop [] = ([], None)"
| "acceptLoop (Inl (stopped, message) # outcomes) =
     ([], if \<not> stopped then Some (''stopped accepting connections: '' @ message) else None)"
| "acceptLoop (Inr socket # outcomes) =
     (case acceptLoop outcomes of (spawned, report) \<Rightarrow> (socket # spawned, report))"

subsection \<open>Every handler keeps the invariant\<close>

lemma node_inv_space:
  "node_inv (n\<lparr>node_space := s\<rparr>) \<longleftrightarrow> ps_inv s \<and> client_inv (node_client n)"
  "node_inv (n\<lparr>node_client := c\<rparr>) \<longleftrightarrow> ps_inv (node_space n) \<and> client_inv c"
  "node_inv (n\<lparr>node_calls := log\<rparr>) \<longleftrightarrow> node_inv n"
  by (simp_all add: node_inv_def)

lemma set_space_simps [simp]:
  "node_space (srv_node (set_space s srv)) = s"
  "node_client (srv_node (set_space s srv)) = node_client (srv_node srv)"
  "node_calls (srv_node (set_space s srv)) = node_calls (srv_node srv)"
  "srv_owner (set_space s srv) = srv_owner srv"
  "node_inv (srv_node (set_space s srv)) \<longleftrightarrow> ps_inv s \<and> client_inv (node_client (srv_node srv))"
  by (simp_all add: set_space_def node_inv_space)

lemma fan_out_simps [simp]:
  "node_space (srv_node (snd (fan_out p subs srv))) = node_space (srv_node srv)"
  "node_calls (srv_node (snd (fan_out p subs srv))) = node_calls (srv_node srv)"
  "srv_owner (snd (fan_out p subs srv)) = srv_owner srv"
  by (simp_all add: fan_out_def split: sum.splits)

lemma fan_out_inv: "node_inv (srv_node srv) \<Longrightarrow> node_inv (srv_node (snd (fan_out p subs srv)))"
  by (auto simp: fan_out_def node_inv_def dest: own_client.fan_pair_inv split: sum.splits)

lemma applyAndNotify_inv:
  "node_inv (srv_node srv) \<Longrightarrow> node_inv (srv_node (snd (applyAndNotify now p srv)))"
  by (auto simp: applyAndNotify_def Let_def node_inv_space node_invD ps_inv_addPair
      intro!: fan_out_inv split: option.splits)

lemma sendPairUpdates_inv:
  "node_inv (srv_node srv) \<Longrightarrow> node_inv (srv_node (snd (sendPairUpdates ps sub srv)))"
proof (induction ps sub srv rule: sendPairUpdates.induct)
  case (2 p ps sub srv)
  then show ?case
    using fan_out_inv [OF 2(2), of p "[sub]"]
    by (auto simp: sendPairUpdate_def split: prod.splits sum.splits)
qed simp

lemma handleSubscription_inv:
  "node_inv (srv_node srv) \<Longrightarrow> node_inv (srv_node (snd (handleSubscription now fr srv)))"
  by (auto simp: handleSubscription_def Let_def node_invD ps_inv_intros
      intro!: sendPairUpdates_inv split: sum.splits)

lemma handleRemovePair_inv:
  "node_inv (srv_node srv) \<Longrightarrow> node_inv (srv_node (snd (handleRemovePair fr srv)))"
  by (auto simp: handleRemovePair_def Let_def node_invD ps_inv_intros node_inv_space
      dest: own_client.fan_removal_inv [OF node_invD(2)] split: sum.splits option.splits)

lemma handle_frame_inv:
  "node_inv (srv_node srv) \<Longrightarrow> node_inv (srv_node (snd (handle_frame now fr srv)))"
  by (auto simp: handle_frame_def handleIncomingPair_def handlePairUpdate_def handlePairRemoved_def
      node_invD ps_inv_intros intro: applyAndNotify_inv handleSubscription_inv handleRemovePair_inv
      split: MessageType.splits sum.splits)

lemma sendPairUpdates_space [simp]:
  "node_space (srv_node (snd (sendPairUpdates ps sub srv))) = node_space (srv_node srv)"
proof (induction ps sub srv rule: sendPairUpdates.induct)
  case (2 p ps sub srv)
  obtain r srv1 where f: "fan_out p [sub] srv = (r, srv1)" by (cases "fan_out p [sub] srv")
  have "node_space (srv_node srv1) = node_space (srv_node srv)"
    using fan_out_simps(1) [of p "[sub]" srv, unfolded f] by simp
  then show ?case using 2 f by (cases r) (simp_all add: sendPairUpdate_def)
qed simp

lemma applyAndNotify_space:
  "node_space (srv_node (snd (applyAndNotify now p srv))) = addPair now p (node_space (srv_node srv))"
  "srv_owner (snd (applyAndNotify now p srv)) = srv_owner srv"
  by (auto simp: applyAndNotify_def Let_def split: option.splits)

lemma session_run_inv:
  "node_inv (srv_node srv) \<Longrightarrow> node_inv (srv_node (snd (session_run clock i input srv)))"
proof (induction clock i input srv rule: session_run.induct)
  case (1 clock i input srv)
  show ?case
  proof (cases "channel_read input")
    case (Inl e)
    then show ?thesis using 1 by (simp add: session_run.simps)
  next
    case (Inr r)
    obtain fr rest where r: "r = (fr, rest)" by (cases r)
    obtain res srv1 where h: "handle_frame (clock i) fr srv = (res, srv1)"
      by (cases "handle_frame (clock i) fr srv")
    have inv1: "node_inv (srv_node srv1)"
      using handle_frame_inv [OF 1(2), of "clock i" fr] h by simp
    show ?thesis using 1(1) Inr r h inv1
      by (cases res) (simp_all add: session_run.simps [of clock i input])
  qed
qed

subsection \<open>Frames between components\<close>

text \<open>A message framed by one component is read by another with its type and payload intact.\<close>

lemma read_framed:
  assumes "frameOf encode ty m = Inr fr" "ty \<noteq> MT_Invalid"
  obtains f where "channel_read (fr @ rest) = Inr (f, rest)" "h_type (fr_header f) = ty"
    "encode m [] = Inr (fr_payload f)" "length fr = kHeaderSize + length (fr_payload f)"
proof -
  from assms(1) obtain payload where p: "encode m [] = Inr payload" "frame ty payload (I32 (-1)) = Inr fr"
    by (auto simp: frameOf_def bindE_eq_Inr)
  let ?f = "\<lparr>fr_header = \<lparr>h_type = ty, payload_length = of_nat (length payload),
      h_subscriber = I32 (-1)\<rparr>, fr_payload = payload\<rparr>"
  have "sendable ?f" using p(2) assms(2) by (simp add: sendable_def frame_def split: if_splits)
  then have "channel_read (fr @ rest) = Inr (?f, rest)"
    using frame_eq_frame_bytes [OF p(2)] channel_read_frame by simp
  moreover have "length fr = kHeaderSize + length payload"
    using frame_eq_frame_bytes [OF p(2)] by (simp add: frame_bytes_def)
  ultimately show thesis using that [of ?f] p(1) by simp
qed

lemma read_coded:
  assumes "frameOf encode ty m = Inr fr" "ty \<noteq> MT_Invalid"
    and "\<And>bs. encode m [] = Inr bs \<Longrightarrow> decodePayload decode bs = Inr m"
  obtains f where "channel_read (fr @ rest) = Inr (f, rest)" "h_type (fr_header f) = ty"
    "decodePayload decode (fr_payload f) = Inr m"
  by (rule read_framed [OF assms(1,2), of rest thesis]) (use that assms(3) in blast)

lemma read_pair_frame:
  assumes "frameOf encode_Pair ty p = Inr fr" "ty \<noteq> MT_Invalid"
  obtains f where "channel_read (fr @ rest) = Inr (f, rest)" "h_type (fr_header f) = ty"
    "decodePayload decode_Pair (fr_payload f) = Inr p"
  by (rule read_coded [OF assms]) (use pair_codec.roundtrip that in auto)

lemma read_removal_frame:
  assumes "frameOf encode_RemovePairRequest ty r = Inr fr" "ty \<noteq> MT_Invalid"
  obtains f where "channel_read (fr @ rest) = Inr (f, rest)" "h_type (fr_header f) = ty"
    "decodePayload decode_RemovePairRequest (fr_payload f) = Inr r"
  by (rule read_coded [OF assms]) (use remove_codec.roundtrip that in auto)

lemma read_subscription_frame:
  assumes "frameOf encode_Subscription ty m = Inr fr" "ty \<noteq> MT_Invalid"
  obtains f where "channel_read (fr @ rest) = Inr (f, rest)" "h_type (fr_header f) = ty"
    "decodePayload decode_Subscription (fr_payload f) = Inr m"
  by (rule read_coded [OF assms]) (use sub_codec.roundtrip that in auto)

subsection \<open>Properties\<close>

text \<open>
  C13. No sequence of bytes a peer can send, well-formed or not, breaks the node: the read loop of a
  session ends with an error for every input, and the pair space and the client still satisfy their
  invariants, whatever was handled before the bad frame.
\<close>

theorem server_survives_any_input:
  assumes "node_inv (srv_node srv)"
  shows "\<exists>err srv'. session_run clock i input srv = (err, srv') \<and>
    ps_inv (node_space (srv_node srv')) \<and> client_inv (node_client (srv_node srv'))"
  using session_run_inv [OF assms, of clock i input]
  by (metis node_inv_def prod.collapse)

definition sample_server :: "nat Server" where
  "sample_server =
     \<lparr>srv_port = 4000, srv_owner = I32 5, srv_node = sample_node, srv_link = new_link ''10.0.0.1'' ''33133'',
      srv_workers = 4, srv_running = True, srv_close_posted = False, srv_stopped = False\<rparr>"

theorem server_survives_any_input_witness:
  "\<exists>err srv'. session_run (\<lambda>_. 0) 0 [1, 2, 3] sample_server = (err, srv') \<and>
    ps_inv (node_space (srv_node srv'))"
  using server_survives_any_input [of sample_server "\<lambda>_. 0" 0 "[1, 2, 3]"]
  by (auto simp: sample_server_def)

lemma update_handled:
  assumes "node_inv (srv_node srv)" "frameOf encode_Pair MT_PairUpdate p = Inr fr"
  shows "\<exists>f q. channel_read (fr @ rest) = Inr (f, rest) \<and>
    published (node_space (srv_node (snd (handle_frame now f srv)))) =
      (published (node_space (srv_node srv)))
        (key_of p := if getType p = PT_Invalid then None else Some (getValue p, getType p)) \<and>
    key_of q = key_of p \<and> getValue q = getValue p \<and> getType q = getType p \<and>
    node_calls (srv_node (snd (handle_frame now f srv))) = node_calls (srv_node srv) @
      map (Pair q) (universalCallbacks (node_space (srv_node srv)) @
                    map snd (m_entries (callbacks_of (node_space (srv_node srv)) (key_of p))))"
proof -
  obtain f where f: "channel_read (fr @ rest) = Inr (f, rest)" "h_type (fr_header f) = MT_PairUpdate"
    "decodePayload decode_Pair (fr_payload f) = Inr p"
    using read_pair_frame [OF assms(2)] by (metis MessageType.distinct(5))
  obtain e where e: "m_find (pairs (addPair now p (node_space (srv_node srv)))) (key_of p) = Some e"
    "key_of (pe_pair e) = key_of p" "getValue (pe_pair e) = getValue p"
    "getType (pe_pair e) = getType p"
    "callbacks e = callbacks_of (node_space (srv_node srv)) (key_of p)"
    using addPair_entry [OF node_invD(1) [OF assms(1)], of now p] by metis
  have h: "handle_frame now f srv = applyAndNotify now p srv"
    using f by (simp add: handle_frame_def handlePairUpdate_def)
  have "node_calls (srv_node (snd (applyAndNotify now p srv))) = node_calls (srv_node srv) @
      map (Pair (pe_pair e)) (callbacks_for (addPair now p (node_space (srv_node srv))) e)"
    using e(1) by (simp add: applyAndNotify_def find_entry_def key_of_def Let_def)
  then show ?thesis using f(1) e
    by (intro exI [of _ f] exI [of _ "pe_pair e"])
      (simp add: h applyAndNotify_space published_addPair callbacks_for_def universalCallbacks_def)
qed

text \<open>
  An update that is framed by its owner and read by a subscriber is applied there exactly: the
  subscriber's published value and type of that key become the owner's, no other key changes, and its
  universal callbacks and the callbacks of that key run once each, in this order, with the new value.
\<close>

lemma update_applied_at_subscriber:
  assumes "node_inv (srv_node srv)" "frameOf encode_Pair MT_PairUpdate p = Inr fr"
  shows "\<exists>f q. channel_read (fr @ rest) = Inr (f, rest) \<and>
    published (node_space (srv_node (snd (handle_frame now f srv)))) =
      (published (node_space (srv_node srv)))
        (key_of p := if getType p = PT_Invalid then None else Some (getValue p, getType p)) \<and>
    key_of q = key_of p \<and> getValue q = getValue p \<and> getType q = getType p \<and>
    node_calls (srv_node (snd (handle_frame now f srv))) = node_calls (srv_node srv) @
      map (Pair q) (universalCallbacks (node_space (srv_node srv)) @
                    map snd (m_entries (callbacks_of (node_space (srv_node srv)) (key_of p))))"
  using assms by (rule update_handled)

definition sample_pair :: Pair where
  "sample_pair = new_pair (I32 9) ''t'' ''v'' PT_String"

lemma sample_pair_frame: "\<exists>fr. frameOf encode_Pair ty sample_pair = Inr fr"
  unfolding frameOf_Pair_ok_iff by (simp add: sample_pair_def new_pair_def kMaxPayload_def)

lemma sample_server_node [simp]: "srv_node sample_server = sample_node" "srv_owner sample_server = I32 5"
  by (simp_all add: sample_server_def)

text \<open>
  A pair that another component sends us lands under our own id: only the key \<open>(our id, key)\<close> of the
  published values changes, whatever owner the sender wrote into the pair.
\<close>

lemma remote_write_lands_under_our_id:
  assumes "frameOf encode_Pair MT_Pair p = Inr fr"
  shows "\<exists>f. channel_read (fr @ rest) = Inr (f, rest) \<and>
    published (node_space (srv_node (snd (handle_frame now f srv)))) =
      (published (node_space (srv_node srv)))
        (PairKey (srv_owner srv) (getKey p) :=
           if getType p = PT_Invalid then None else Some (getValue p, getType p)) \<and>
    subscribers_of (node_space (srv_node (snd (handle_frame now f srv)))) =
      subscribers_of (node_space (srv_node srv))"
proof -
  obtain f where f: "channel_read (fr @ rest) = Inr (f, rest)" "h_type (fr_header f) = MT_Pair"
    "decodePayload decode_Pair (fr_payload f) = Inr p"
    using read_pair_frame [OF assms] by (metis MessageType.distinct(3))
  then have "handle_frame now f srv = applyAndNotify now (setOwner (srv_owner srv) p) srv"
    by (simp add: handle_frame_def handleIncomingPair_def)
  then show ?thesis using f(1)
    by (intro exI [of _ f]) (simp add: applyAndNotify_space published_addPair subscribers_addPair
        key_of_def setOwner_def)
qed



text \<open>
  Requests that are not for us change nothing: a subscription to a key of another owner, one that we
  sent ourselves, and a removal of another owner's pair are all ignored without an error.
\<close>

lemma misaddressed_requests_ignored:
  "(decodePayload decode_Subscription (fr_payload f) = Inr m \<and> h_type (fr_header f) = MT_Subscription \<and>
      (sub_key m \<noteq> kWildcardKey \<and> sub_owner_id m \<noteq> srv_owner srv \<or> sub_subscriber m = srv_owner srv) \<longrightarrow>
    handle_frame now f srv = (Inr (), srv)) \<and>
   (decodePayload decode_RemovePairRequest (fr_payload f) = Inr r \<and> h_type (fr_header f) = MT_RemovePair \<and>
      rp_owner r \<noteq> srv_owner srv \<longrightarrow>
    handle_frame now f srv = (Inr (), srv))"
  by (auto simp: handle_frame_def handleSubscription_def handleRemovePair_def Let_def)

subsection \<open>A new subscriber is brought up to date\<close>

definition send_updates :: "(Pair \<times> byte list) list \<Rightarrow> ClientSession \<Rightarrow> ClientSession" where
  "send_updates = fold (\<lambda>(p, fr). session_send fr (Some (key_of p)))"

lemma sendPairUpdates_peer:
  "node_inv (srv_node srv) \<Longrightarrow> fst (sendPairUpdates ps sub srv) = Inr () \<Longrightarrow>
     \<exists>frs. map (frameOf encode_Pair MT_PairUpdate) ps = map Inr frs \<and>
       peer_session (node_client (srv_node (snd (sendPairUpdates ps sub srv)))) sub =
         map_option (send_updates (zip ps frs)) (peer_session (node_client (srv_node srv)) sub)"
proof (induction ps arbitrary: srv)
  case Nil
  show ?case by (intro exI [of _ "[]"]) (simp add: send_updates_def option.map_ident)
next
  case (Cons p ps)
  obtain c where c: "fanOutPair p [sub] (node_client (srv_node srv)) = Inr c"
    using Cons.prems(2) by (auto simp: sendPairUpdate_def fan_out_def split: sum.splits)
  let ?srv = "srv\<lparr>srv_node := (srv_node srv)\<lparr>node_client := c\<rparr>\<rparr>"
  have step: "sendPairUpdates (p # ps) sub srv = sendPairUpdates ps sub ?srv"
    using c by (simp add: sendPairUpdate_def fan_out_def)
  have inv: "node_inv (srv_node ?srv)"
    using Cons.prems(1) own_client.fan_pair_inv [OF node_invD(2) c] by (simp add: node_inv_space node_invD)
  obtain fr where fr: "frameOf encode_Pair MT_PairUpdate p = Inr fr"
    "peer_session c sub = map_option (session_send fr (Some (key_of p)))
       (peer_session (node_client (srv_node srv)) sub)"
    using own_client.fan_pair_sends [OF node_invD(2) [OF Cons.prems(1)] _ c, of sub] by auto
  obtain frs where frs: "map (frameOf encode_Pair MT_PairUpdate) ps = map Inr frs"
    "peer_session (node_client (srv_node (snd (sendPairUpdates ps sub ?srv)))) sub =
       map_option (send_updates (zip ps frs)) (peer_session c sub)"
    using Cons.IH [OF inv] Cons.prems(2) step by auto
  show ?case using fr frs step
    by (intro exI [of _ "fr # frs"])
      (auto simp: send_updates_def option.map_comp comp_def)
qed

lemma pairs_to_send_wildcard:
  assumes "ps_inv s" "sub_key m = kWildcardKey"
  shows "p \<in> set (pairs_to_send owner m s) \<longleftrightarrow>
    (\<exists>e. m_find (pairs s) (key_of p) = Some e \<and> pe_pair e = p \<and> getOwner p = owner \<and> getType p \<noteq> PT_Invalid)"
proof -
  have "p \<in> set (pairs_to_send owner m s) \<longleftrightarrow>
      (\<exists>k e. m_find (pairs s) k = Some e \<and> pe_pair e = p \<and> getOwner p = owner \<and> getType p \<noteq> PT_Invalid)"
    using assms(2) by (force simp: pairs_to_send_def getAllPairs_def smap.mem_entries_iff)
  then show ?thesis using assms(1) by (auto simp: ps_inv_def entries_ok_def)
qed


lemma sample_wildcard_frame:
  "decodePayload decode_Subscription (string_bytes ''*'' @ le_bytes (-1 :: u32) @ le_bytes (7 :: u32) @
      le_bytes (1 :: u8)) =
    Inr \<lparr>sub_key = ''*'', sub_owner_id = I32 (-1), sub_subscriber = I32 7, sub_registering = True\<rparr>"
proof -
  have "encode_Subscription \<lparr>sub_key = ''*'', sub_owner_id = I32 (-1), sub_subscriber = I32 7,
      sub_registering = True\<rparr> [] = Inr (string_bytes ''*'' @ le_bytes (-1 :: u32) @ le_bytes (7 :: u32) @
      le_bytes (1 :: u8))"
    by (simp add: encode_Subscription_eq fits_def kMaxPayload_def)
  then show ?thesis using sub_codec.roundtrip by blast
qed

definition sample_wildcard :: Frame where
  "sample_wildcard = \<lparr>fr_header = \<lparr>h_type = MT_Subscription, payload_length = 14, h_subscriber = I32 (-1)\<rparr>,
     fr_payload = string_bytes ''*'' @ le_bytes (-1 :: u32) @ le_bytes (7 :: u32) @ le_bytes (1 :: u8)\<rparr>"


subsection \<open>Removal\<close>


definition sample_removal :: Frame where
  "sample_removal = \<lparr>fr_header = \<lparr>h_type = MT_RemovePair, payload_length = 9, h_subscriber = I32 (-1)\<rparr>,
     fr_payload = le_bytes (5 :: u32) @ string_bytes ''k''\<rparr>"


subsection \<open>Whole connections\<close>

fun handle_all :: "(nat \<Rightarrow> TimePoint) \<Rightarrow> nat \<Rightarrow> Frame list \<Rightarrow> 'cb Server \<Rightarrow> nat result \<times> 'cb Server" where
  "handle_all clock i [] srv = (Inr i, srv)"
| "handle_all clock i (f # fs) srv =
     (case handle_frame (clock i) f srv of
        (Inl err, srv1) \<Rightarrow> (Inl err, srv1)
      | (Inr _, srv1) \<Rightarrow> handle_all clock (Suc i) fs srv1)"

lemma session_run_frames:
  "list_all sendable fs \<Longrightarrow>
     session_run clock i (concat (map frame_bytes fs) @ rest) srv =
       (case handle_all clock i fs srv of
          (Inl err, srv1) \<Rightarrow> (err, srv1)
        | (Inr j, srv1) \<Rightarrow> session_run clock j rest srv1)"
proof (induction fs arbitrary: i srv)
  case (Cons f fs)
  have "channel_read (concat (map frame_bytes (f # fs)) @ rest) =
      Inr (f, concat (map frame_bytes fs) @ rest)"
    using Cons.prems channel_read_frame by simp
  then show ?case using Cons
    by (subst session_run.simps) (auto split: prod.splits sum.splits)
qed simp

text \<open>
  C19. A session handles what its peer sent in order and nothing twice: from the bytes of any frames
  followed by bytes that do not make a whole valid frame (a truncated frame, a foreign protocol, a
  payload over the limit), it applies each frame in turn and stops at the first that its handler rejects
  or at the malformed rest, which has no effect on the node.
\<close>

theorem frames_handled_in_order:
  assumes "list_all sendable fs" "channel_read bad = Inl e"
  shows "session_run clock i (concat (map frame_bytes fs) @ bad) srv =
    (case handle_all clock i fs srv of (Inl err, srv1) \<Rightarrow> (err, srv1) | (Inr j, srv1) \<Rightarrow> (e, srv1))"
  using session_run_frames [OF assms(1), of clock i bad srv] assms(2)
  by (auto simp: session_run.simps split: prod.splits sum.splits)

theorem frames_handled_in_order_witness:
  "session_run (\<lambda>_. 3) 0 (frame_bytes sample_wildcard @ [83, 82]) sample_server =
    (SocketError ''End of file'', snd (handle_frame 3 sample_wildcard sample_server)) \<or>
   (\<exists>err. fst (handle_frame 3 sample_wildcard sample_server) = Inl err)"
proof -
  have "list_all sendable [sample_wildcard]"
    by (simp add: sendable_def sample_wildcard_def kMaxPayload_def string_bytes_def)
  moreover have "channel_read [83, 82] = Inl (SocketError ''End of file'')"
    by (simp add: channel_read_def async_read_def kHeaderSize_def)
  ultimately have "session_run (\<lambda>_. 3) 0 (concat (map frame_bytes [sample_wildcard]) @ [83, 82]) sample_server =
    (case handle_all (\<lambda>_. 3) 0 [sample_wildcard] sample_server of
       (Inl err, srv1) \<Rightarrow> (err, srv1) | (Inr j, srv1) \<Rightarrow> (SocketError ''End of file'', srv1))"
    by (rule frames_handled_in_order)
  then show ?thesis by (auto split: prod.splits sum.splits)
qed

subsection \<open>Registration\<close>

lemma length_show_nat: "length (show_nat n) \<le> Suc n"
proof (induction n rule: show_nat.induct)
  case (1 n)
  then show ?case by (subst show_nat.simps) auto
qed

lemma registration_request_ok: "\<exists>request. registration_request our_port desired = Inr request"
proof -
  have "unat our_port < 65536" using unsigned_less [of our_port, where ?'a = nat] by simp
  then have "length (show_nat (unat our_port)) \<le> 65536" using length_show_nat [of "unat our_port"] by simp
  then show ?thesis
    by (simp add: registration_request_def frameOf_def encode_IndicatePresence_eq fits_def frame_def
        string_bytes_def kMaxPayload_def)
qed

lemma addSession_fields:
  "components (addSession a c) = m_assign (ci_owner a) a (components c)"
  "sessions (addSession a c) = m_assign (ci_owner a) (length (objects c)) (sessions c)"
  by (simp_all add: addSession_def)

lemma components_fold_other:
  "j \<notin> ci_owner ` set infos \<Longrightarrow> m_find (components (fold addSession infos c)) j = m_find (components c) j"
  by (induction infos arbitrary: c) (auto simp: addSession_fields)

lemma components_fold_addSession:
  "distinct (map ci_owner infos) \<Longrightarrow> info \<in> set infos \<Longrightarrow>
     m_find (components (fold addSession infos c)) (ci_owner info) = Some info"
proof (induction infos arbitrary: c)
  case (Cons a infos)
  show ?case
  proof (cases "info = a")
    case True
    then show ?thesis using Cons.prems components_fold_other [of "ci_owner a" infos "addSession a c"]
      by (simp add: addSession_fields)
  next
    case False
    then show ?thesis using Cons by simp
  qed
qed simp

lemma sessions_fold_addSession:
  "info \<in> set infos \<or> m_find (sessions c) (ci_owner info) \<noteq> None \<Longrightarrow>
     m_find (sessions (fold addSession infos c)) (ci_owner info) \<noteq> None"
  by (induction infos arbitrary: c) (fastforce simp: addSession_fields)+

lemma ci_owner_reachable_from [simp]: "ci_owner (reachable_from ip c) = ci_owner c"
  by (simp add: reachable_from_def)

definition welcomed :: "string \<Rightarrow> MasterMessage \<Rightarrow> MasterMessage" where
  "welcomed master_ip w = w\<lparr>mm_all_components := map (reachable_from master_ip) (mm_all_components w)\<rparr>"

lemma welcomed_owner [simp]: "mm_owner (welcomed ip w) = mm_owner w"
  by (simp add: welcomed_def)

lemma new_server_starts:
  assumes "frameOf encode_MasterMessage MT_MasterMessage w = Inr fr" "plausible w"
  shows "\<exists>srv. new_server ip prt our_port desired (fr @ rest) n = Inr (srv, rest) \<and>
    srv_owner srv = mm_owner w \<and> \<not> srv_stopped srv \<and>
    srv_node srv = n\<lparr>node_client := onWelcome (welcomed ip w) (node_client n)\<rparr>"
proof -
  obtain request where "registration_request our_port desired = Inr request"
    using registration_request_ok by blast
  moreover obtain f where f: "channel_read (fr @ rest) = Inr (f, rest)" "h_type (fr_header f) = MT_MasterMessage"
    "encode_MasterMessage w [] = Inr (fr_payload f)" "length fr = kHeaderSize + length (fr_payload f)"
    using read_framed [OF assms(1)] by (metis MessageType.distinct(9))
  moreover have "decodePayload decode_MasterMessage (fr_payload f) = Inr w"
    using master_codec.roundtrip [OF assms(2) f(3)] .
  moreover note channel_read_parts [OF f(1)]
  ultimately have "registerWithMaster ip our_port desired (fr @ rest) = Inr (welcomed ip w, rest)"
    by (simp add: registerWithMaster_def welcomed_def)
  then show ?thesis by (simp add: new_server_def startWorkers_def welcomed_def)
qed

lemma server_stop_idempotent [simp]: "server_stop (server_stop srv) = server_stop srv"
  by (simp add: server_stop_def)

lemma server_stop_releases:
  assumes "srv_stopped srv \<longrightarrow> srv_workers srv = 0 \<and> closed (link_channel (srv_link srv))"
  shows "srv_workers (server_stop srv) = 0 \<and> closed (link_channel (srv_link (server_stop srv))) \<and>
    srv_node (server_stop srv) = srv_node srv"
  using assms by (auto simp: server_stop_def link_close_def channel_close_def close_locked_def close_flag_def)

text \<open>Every connection accepted before the loop ends gets its session; a stop is not reported as an error.\<close>

lemma acceptLoop_serves_all:
  "acceptLoop (map Inr sockets) = (sockets, None)"
  "acceptLoop (map Inr sockets @ Inl (stopped, message) # outcomes) =
     (sockets, if stopped then None else Some (''stopped accepting connections: '' @ message))"
  by (induction sockets) simp_all

text \<open>
  Starting a server against a master that answers with a well-formed welcome succeeds, leaves the
  bytes after the answer for the update loop, and brings both halves of the component into agreement:
  server and client have the assigned id, the client is ready, and it knows every listed component, with
  a session to it, at its own address or, for one on the master's host, at the master's address.
\<close>

lemma server_start_agrees_with_master:
  assumes "frameOf encode_MasterMessage MT_MasterMessage w = Inr fr" "plausible w"
    and "distinct (map ci_owner (mm_all_components w))" "node_inv n"
  shows "\<exists>srv. new_server ip prt our_port desired (fr @ rest) n = Inr (srv, rest) \<and>
    srv_owner srv = mm_owner w \<and> owner_id (node_client (srv_node srv)) = mm_owner w \<and>
    ready (node_client (srv_node srv)) \<and> node_inv (srv_node srv) \<and>
    (\<forall>c \<in> set (mm_all_components w).
       m_find (components (node_client (srv_node srv))) (ci_owner c) = Some (reachable_from ip c) \<and>
       m_find (sessions (node_client (srv_node srv))) (ci_owner c) \<noteq> None)"
proof -
  let ?w = "welcomed ip w"
  obtain srv where new: "new_server ip prt our_port desired (fr @ rest) n = Inr (srv, rest)"
    "srv_owner srv = mm_owner w" "srv_node srv = n\<lparr>node_client := onWelcome ?w (node_client n)\<rparr>"
    using new_server_starts [OF assms(1,2)] by blast
  have inv: "node_inv (n\<lparr>node_client := onWelcome ?w (node_client n)\<rparr>)"
    using assms(4) by (simp add: node_inv_space node_invD client_inv_onWelcome)
  have dist: "distinct (map ci_owner (mm_all_components ?w))" using assms(3) by (simp add: comp_def welcomed_def)
  have known: "m_find (components (onWelcome ?w (node_client n))) (ci_owner c) = Some (reachable_from ip c) \<and>
      m_find (sessions (onWelcome ?w (node_client n))) (ci_owner c) \<noteq> None"
    if "c \<in> set (mm_all_components w)" for c
  proof -
    have mem: "reachable_from ip c \<in> set (mm_all_components ?w)" using that by (simp add: welcomed_def)
    show ?thesis
      using components_fold_addSession [OF dist mem, of "(node_client n)\<lparr>owner_id := mm_owner w\<rparr>"]
        sessions_fold_addSession [OF disjI1, OF mem, of "(node_client n)\<lparr>owner_id := mm_owner w\<rparr>"]
      by (simp add: onWelcome_def)
  qed
  show ?thesis using new inv known by (auto simp: onWelcome_def welcomed_def)
qed

end
