(* ===== verification/Master_Hub.thy ===== *)
theory Master_Hub
  imports Server
begin

text \<open>
  \<^verbatim>\<open>include/srnp/master_hub.h\<close> and \<^verbatim>\<open>src/master_hub.cpp\<close>: the master, which hands out owner ids and
  keeps every component's list of peers current.

  A \<^verbatim>\<open>MasterHubSessionPtr\<close> is an index into \<open>hub_objects\<close>; \<^verbatim>\<open>sessions_\<close> maps an owner id to one. The
  master runs on one thread (\<^verbatim>\<open>src/master_main.cpp\<close>), and a session's coroutine yields only where it
  reads, so the segments between two reads, \<open>hub_hello\<close> and \<open>hub_goodbye\<close>, are the atomic steps. The
  address of a peer is what its socket reports, a field here.

  The number the generator yields for a seed is the argument \<open>draw\<close>: the standard does not fix what
  \<^verbatim>\<open>uniform_int_distribution\<close> computes from its generator, only that it lies in the interval. The loop
  that steps past taken ids increments an \<^verbatim>\<open>int\<close>; past \<open>INT_MAX\<close> that is undefined, which is \<open>None\<close> here.

  Shown: an assigned id is never in use and stays in range; a forced id is honoured exactly when it is
  free; and at every moment each registered component has been told, by the messages sent to it, exactly
  the other registered components.
\<close>

subsection \<open>State\<close>

text \<open>Where a session's coroutine is: before its first frame, waiting for the disconnection, or done.\<close>

datatype hub_stage = Waiting | Registered | Done

record HubSession =
  hs_stage :: hub_stage
  hs_channel :: FrameChannel
  hs_address :: string
  hs_port :: string
  hs_owner :: i32

record MasterHub =
  hub_sessions :: "(i32, nat) std_map"
  hub_objects :: "HubSession list"

definition new_hub :: MasterHub where
  "new_hub = \<lparr>hub_sessions = m_empty, hub_objects = []\<rparr>"

text \<open>\<^verbatim>\<open>acceptLoop\<close>: a connection from \<open>address\<close> gets a session, which is not registered yet.\<close>

definition hub_accept :: "string \<Rightarrow> MasterHub \<Rightarrow> MasterHub" where
  "hub_accept address hub =
     hub\<lparr>hub_objects := hub_objects hub @
       [\<lparr>hs_stage = Waiting, hs_channel = new_channel, hs_address = address, hs_port = [], hs_owner = kAnyOwner\<rparr>]\<rparr>"

definition hub_update :: "nat \<Rightarrow> (HubSession \<Rightarrow> HubSession) \<Rightarrow> MasterHub \<Rightarrow> MasterHub" where
  "hub_update sid f hub = hub\<lparr>hub_objects := (hub_objects hub)[sid := f (hub_objects hub ! sid)]\<rparr>"

definition hub_send :: "byte list \<Rightarrow> HubSession \<Rightarrow> HubSession" where
  "hub_send fr s = s\<lparr>hs_channel := channel_send fr None (hs_channel s)\<rparr>"

subsection \<open>Owner ids\<close>

definition port_seed :: "string \<Rightarrow> i32" where
  "port_seed text = (case from_chars text of Parsed v rest \<Rightarrow> v | _ \<Rightarrow> i32_of 0)"

function step_past :: "(i32, nat) std_map \<Rightarrow> i32 \<Rightarrow> i32 option" where
  "step_past taken candidate =
     (if m_contains taken candidate
      then if ival candidate = INT_MAX then None else step_past taken (i32_of (ival candidate + 1))
      else Some candidate)"
  by pat_completeness auto

termination
proof (relation "measure (\<lambda>(taken, candidate). nat (INT_MAX - ival candidate))")
  fix taken :: "(i32, nat) std_map" and candidate
  assume "ival candidate \<noteq> INT_MAX"
  then have lt: "ival candidate < INT_MAX" using ival_range(2) [of candidate] by simp
  then have "ival (i32_of (ival candidate + 1)) = ival candidate + 1"
    using ival_range(1) [of candidate] by (intro ival_i32_of) simp_all
  then show "((taken, i32_of (ival candidate + 1)), taken, candidate)
      \<in> measure (\<lambda>(taken, candidate). nat (INT_MAX - ival candidate))"
    using lt by simp
qed simp

declare step_past.simps [simp del]

definition makeOwnerId :: "(i32 \<Rightarrow> i32) \<Rightarrow> string \<Rightarrow> MasterHub \<Rightarrow> i32 option" where
  "makeOwnerId draw prt hub = step_past (hub_sessions hub) (draw (port_seed prt))"

subsection \<open>Registration\<close>

definition info_of :: "i32 \<Rightarrow> HubSession \<Rightarrow> ComponentInfo" where
  "info_of owner s = \<lparr>ci_owner = owner, ci_ip = hs_address s, ci_port = hs_port s\<rparr>"

definition all_components :: "MasterHub \<Rightarrow> ComponentInfo list" where
  "all_components hub = map (\<lambda>(owner, sid). info_of owner (hub_objects hub ! sid)) (m_entries (hub_sessions hub))"

definition registerComponent ::
    "(i32 \<Rightarrow> i32) \<Rightarrow> nat \<Rightarrow> IndicatePresence \<Rightarrow> MasterHub \<Rightarrow> (MasterMessage \<times> MasterHub) option" where
  "registerComponent draw sid presence hub =
     map_option (\<lambda>owner.
         (\<lparr>mm_owner = owner, mm_all_components = all_components hub\<rparr>,
          hub\<lparr>hub_sessions := m_emplace owner sid (hub_sessions hub)\<rparr>))
       (if ip_force_owner_id presence \<and> \<not> m_contains (hub_sessions hub) (ip_owner_id presence)
        then Some (ip_owner_id presence)
        else makeOwnerId draw (ip_port presence) hub)"

definition removeComponent :: "i32 \<Rightarrow> MasterHub \<Rightarrow> MasterHub" where
  "removeComponent owner hub = hub\<lparr>hub_sessions := m_erase owner (hub_sessions hub)\<rparr>"

definition targets :: "i32 \<Rightarrow> MasterHub \<Rightarrow> nat list" where
  "targets about hub = map snd (filter (\<lambda>e. fst e \<noteq> about) (m_entries (hub_sessions hub)))"

definition sendToAll :: "UpdateComponents \<Rightarrow> MasterHub \<Rightarrow> MasterHub result" where
  "sendToAll update hub =
     bindE (frameOf encode_UpdateComponents MT_UpdateComponents update) (\<lambda>fr.
       Inr (fold (\<lambda>sid. hub_update sid (hub_send fr)) (targets (ci_owner (uc_component update)) hub) hub))"

subsection \<open>A session's coroutine\<close>

text \<open>
  The segment that starts when the first frame has been read, up to the wait for the disconnection: the
  exception it throws, if any, and the hub it leaves.
\<close>

definition hub_greet :: "MasterMessage \<Rightarrow> nat \<Rightarrow> MasterHub \<Rightarrow> unit result \<times> MasterHub" where
  "hub_greet w sid hub =
     (let hub1 = hub_update sid (\<lambda>s. s\<lparr>hs_owner := mm_owner w, hs_stage := Registered\<rparr>) hub
      in case frameOf encode_MasterMessage MT_MasterMessage w of
           Inl err \<Rightarrow> (Inl err, hub1)
         | Inr fr \<Rightarrow>
             let hub2 = hub_update sid (hub_send fr) hub1
             in case sendToAll \<lparr>uc_operation = Op_Add,
                       uc_component = info_of (mm_owner w) (hub_objects hub2 ! sid)\<rparr> hub2 of
                  Inl err \<Rightarrow> (Inl err, hub2)
                | Inr hub3 \<Rightarrow> (Inr (), hub3))"

definition hub_introduce ::
    "(i32 \<Rightarrow> i32) \<Rightarrow> nat \<Rightarrow> Frame \<Rightarrow> MasterHub \<Rightarrow> (unit result \<times> MasterHub) option" where
  "hub_introduce draw sid hello hub =
     (if h_type (fr_header hello) \<noteq> MT_IndicatePresence
      then Some (Inl (DecodeError ''a component must introduce itself first''), hub)
      else case decodePayload decode_IndicatePresence (fr_payload hello) of
             Inl err \<Rightarrow> Some (Inl err, hub)
           | Inr presence \<Rightarrow>
               let hub1 = hub_update sid (\<lambda>s. s\<lparr>hs_port := ip_port presence\<rparr>) hub
               in map_option (\<lambda>(w, hub2). hub_greet w sid hub2) (registerComponent draw sid presence hub1))"

text \<open>
  The end of a session, whether its peer disconnected, misbehaved or never introduced itself. The update
  names the component only; its two strings are empty, so it can always be framed.
\<close>

definition hub_goodbye :: "nat \<Rightarrow> MasterHub \<Rightarrow> MasterHub" where
  "hub_goodbye sid hub =
     (let owner = hs_owner (hub_objects hub ! sid);
          hub1 = (if owner = kAnyOwner then hub
                  else let hub1 = removeComponent owner hub
                       in case sendToAll \<lparr>uc_operation = Op_Remove, uc_component =
                                 \<lparr>ci_owner = owner, ci_ip = [], ci_port = []\<rparr>\<rparr> hub1 of
                            Inl err \<Rightarrow> hub1
                          | Inr hub2 \<Rightarrow> hub2)
      in hub_update sid (\<lambda>s. s\<lparr>hs_channel := channel_close (hs_channel s), hs_stage := Done\<rparr>) hub1)"

definition hub_hello ::
    "(i32 \<Rightarrow> i32) \<Rightarrow> nat \<Rightarrow> Frame \<Rightarrow> MasterHub \<Rightarrow> MasterHub option" where
  "hub_hello draw sid hello hub =
     map_option (\<lambda>(res, hub1). case res of Inl err \<Rightarrow> hub_goodbye sid hub1 | Inr _ \<Rightarrow> hub1)
       (hub_introduce draw sid hello hub)"

subsection \<open>Ids\<close>

lemma step_past_free: "step_past taken i = Some j \<Longrightarrow> m_find taken j = None \<and> ival i \<le> ival j"
proof (induction taken i rule: step_past.induct)
  case (1 taken i)
  show ?case
  proof (cases "m_contains taken i \<and> ival i \<noteq> INT_MAX")
    case True
    then have "ival (i32_of (ival i + 1)) = ival i + 1"
      using ival_range [of i] by (intro ival_i32_of) simp_all
    moreover have "step_past taken (i32_of (ival i + 1)) = Some j"
      using "1.prems" True by (simp add: step_past.simps [of taken i])
    ultimately show ?thesis using "1.IH" True by force
  next
    case False
    then show ?thesis using "1.prems" by (auto simp: step_past.simps [of taken i] split: if_splits)
  qed
qed

text \<open>Every number between the draw and the assigned id is taken: the id is the first free one.\<close>

lemma step_past_skips:
  "step_past taken i = Some j \<Longrightarrow> ival i \<le> ival m \<Longrightarrow> ival m < ival j \<Longrightarrow> m_find taken m \<noteq> None"
proof (induction taken i rule: step_past.induct)
  case (1 taken i)
  show ?case
  proof (cases "m_contains taken i \<and> ival i \<noteq> INT_MAX")
    case True
    then have succ: "ival (i32_of (ival i + 1)) = ival i + 1"
      using ival_range [of i] by (intro ival_i32_of) simp_all
    have "step_past taken (i32_of (ival i + 1)) = Some j"
      using "1.prems"(1) True by (simp add: step_past.simps [of taken i])
    moreover have "m = i \<or> ival i + 1 \<le> ival m"
      using "1.prems"(2) ival_inject [of m i] by linarith
    ultimately show ?thesis using "1.IH" "1.prems"(3) True succ by auto
  next
    case False
    then show ?thesis using "1.prems" by (auto simp: step_past.simps [of taken i] split: if_splits)
  qed
qed

lemma step_past_None: "step_past taken i = None \<Longrightarrow> ival i \<le> ival m \<Longrightarrow> m_find taken m \<noteq> None"
proof (induction taken i rule: step_past.induct)
  case (1 taken i)
  have taken: "m_contains taken i" using "1.prems"(1) by (simp add: step_past.simps split: if_splits)
  show ?case
  proof (cases "ival i = INT_MAX")
    case True
    then have "m = i" using "1.prems"(2) ival_range(2) [of m] ival_inject [of m i] by simp
    then show ?thesis using taken by simp
  next
    case False
    then have succ: "ival (i32_of (ival i + 1)) = ival i + 1"
      using ival_range [of i] by (intro ival_i32_of) simp_all
    have "step_past taken (i32_of (ival i + 1)) = None"
      using "1.prems"(1) taken False by (simp add: step_past.simps [of taken i])
    moreover have "m = i \<or> ival i + 1 \<le> ival m"
      using "1.prems"(2) ival_inject [of m i] by linarith
    ultimately show ?thesis using "1.IH" taken False succ by auto
  qed
qed

lemma interval_taken:
  assumes "\<And>m. a \<le> ival m \<Longrightarrow> ival m < b \<Longrightarrow> m_find (taken :: (i32, nat) std_map) m \<noteq> None"
    and "INT_MIN \<le> a" "b \<le> INT_MAX + 1"
  shows "nat (b - a) \<le> length (m_entries taken)"
proof -
  have id: "ival (i32_of k) = k" if "k \<in> {a..<b}" for k
    using that assms(2,3) by (intro ival_i32_of) auto
  then have "inj_on i32_of {a..<b}" by (metis inj_onI)
  moreover have "i32_of ` {a..<b} \<subseteq> dom (m_find taken)"
    using assms(1) id by fastforce
  ultimately have "card {a..<b} \<le> card (dom (m_find taken))"
    by (metis card_image card_mono finite_dom_m_find)
  then show ?thesis by (simp add: smap.entries_length)
qed

text \<open>
  C23. When the generator draws from \<open>1000..10000\<close> and fewer components are registered than there are
  ids above that, \<^verbatim>\<open>makeOwnerId\<close> returns, the id is not in use, at least 1000, and beyond the draw by at
  most the number of registered components; it is the first free id from the draw on.
\<close>

theorem makeOwnerId_fresh:
  assumes "1000 \<le> ival (draw (port_seed prt)) \<and> ival (draw (port_seed prt)) \<le> 10000"
    and "int (length (m_entries (hub_sessions hub))) \<le> INT_MAX - 10000"
  shows "\<exists>owner. makeOwnerId draw prt hub = Some owner \<and> m_find (hub_sessions hub) owner = None \<and>
    1000 \<le> ival owner \<and>
    ival owner \<le> ival (draw (port_seed prt)) + int (length (m_entries (hub_sessions hub))) \<and>
    (\<forall>m. ival (draw (port_seed prt)) \<le> ival m \<and> ival m < ival owner \<longrightarrow> m_find (hub_sessions hub) m \<noteq> None)"
proof -
  let ?d = "draw (port_seed prt)" and ?t = "hub_sessions hub"
  have lo: "INT_MIN \<le> ival ?d" by (rule ival_range)
  have "step_past ?t ?d \<noteq> None"
  proof
    assume none: "step_past ?t ?d = None"
    have "nat (INT_MAX + 1 - ival ?d) \<le> length (m_entries ?t)"
      using step_past_None [OF none] lo by (intro interval_taken) simp_all
    then show False using assms by linarith
  qed
  then obtain owner where owner: "step_past ?t ?d = Some owner" by blast
  have "nat (ival owner - ival ?d) \<le> length (m_entries ?t)"
    using step_past_skips [OF owner] lo ival_range(2) [of owner] by (intro interval_taken) simp_all
  then show ?thesis
    using owner step_past_free [OF owner] step_past_skips [OF owner] assms(1)
    by (auto simp: makeOwnerId_def)
qed

theorem makeOwnerId_fresh_witness:
  "\<exists>owner. makeOwnerId (\<lambda>seed. i32_of 4242) ''8080''
      (new_hub\<lparr>hub_sessions := m_assign (i32_of 4242) 0 m_empty\<rparr>) = Some owner \<and>
    m_find (m_assign (i32_of 4242) (0 :: nat) m_empty) owner = None \<and> ival owner \<le> 4243"
proof -
  have "ival (i32_of 4242) = 4242" by (rule ival_i32_of) (simp_all add: INT_MIN_def INT_MAX_def)
  then show ?thesis
    using makeOwnerId_fresh [of "\<lambda>seed. i32_of 4242" "''8080''"
        "new_hub\<lparr>hub_sessions := m_assign (i32_of 4242) 0 m_empty\<rparr>"]
    by (auto simp: INT_MAX_def split: if_splits)
qed

subsection \<open>What a component has been told\<close>

text \<open>
  The messages on a session's channel as the component on the other end takes them: the welcome and the
  updates are decoded and given to a client.
\<close>

definition hear :: "byte list \<Rightarrow> unit Client \<Rightarrow> unit Client" where
  "hear bs c =
     (case channel_read bs of
        Inl _ \<Rightarrow> c
      | Inr (f, _) \<Rightarrow>
          (case h_type (fr_header f) of
             MT_MasterMessage \<Rightarrow>
               (case decodePayload decode_MasterMessage (fr_payload f) of Inl _ \<Rightarrow> c | Inr w \<Rightarrow> onWelcome w c)
           | MT_UpdateComponents \<Rightarrow>
               (case decodePayload decode_UpdateComponents (fr_payload f) of
                  Inl _ \<Rightarrow> c | Inr u \<Rightarrow> onComponentUpdate u c)
           | _ \<Rightarrow> c))"

definition told :: "Outbound list \<Rightarrow> unit Client" where
  "told obs = fold (\<lambda>ob. hear (ob_bytes ob)) obs new_client"

definition knows :: "HubSession \<Rightarrow> i32 \<Rightarrow> ComponentInfo option" where
  "knows s = m_find (components (told (stream (hs_channel s))))"

lemma hear_welcome:
  assumes "frameOf encode_MasterMessage MT_MasterMessage w = Inr fr" "plausible w"
  shows "hear fr c = onWelcome w c"
proof -
  obtain f where f: "channel_read (fr @ []) = Inr (f, [])" "h_type (fr_header f) = MT_MasterMessage"
    "encode_MasterMessage w [] = Inr (fr_payload f)"
    using read_framed [OF assms(1)] by (metis MessageType.distinct(9))
  then show ?thesis using master_codec.roundtrip [OF assms(2) f(3)] by (simp add: hear_def)
qed

lemma hear_update:
  assumes "frameOf encode_UpdateComponents MT_UpdateComponents u = Inr fr"
  shows "hear fr c = onComponentUpdate u c"
proof -
  obtain f where f: "channel_read (fr @ []) = Inr (f, [])" "h_type (fr_header f) = MT_UpdateComponents"
    "encode_UpdateComponents u [] = Inr (fr_payload f)"
    using read_framed [OF assms(1)] by (metis MessageType.distinct(11))
  then show ?thesis using update_codec.roundtrip [OF _ f(3)] by (simp add: hear_def)
qed

lemma components_removeSession: "components (removeSession owner c) = m_erase owner (components c)"
  by (simp add: removeSession_def Let_def split: option.splits)

lemma components_onComponentUpdate:
  "m_find (components (onComponentUpdate u c)) =
     (m_find (components c))(ci_owner (uc_component u) :=
        (case uc_operation u of Op_Add \<Rightarrow> Some (uc_component u) | Op_Remove \<Rightarrow> None))"
  by (simp add: onComponentUpdate_def addSession_fields components_removeSession fun_eq_iff
      split: Operation.splits)

lemma components_onWelcome_None:
  "j \<notin> ci_owner ` set (mm_all_components w) \<Longrightarrow> m_find (components (onWelcome w c)) j = m_find (components c) j"
  by (simp add: onWelcome_def components_fold_other)

text \<open>A session whose frames are all undroppable, as the master's are: a send appends or closes.\<close>

definition plain :: "HubSession \<Rightarrow> bool" where
  "plain s \<longleftrightarrow> ch_inv (hs_channel s) \<and> list_all (\<lambda>ob. ob_key ob = None) (stream (hs_channel s))"

definition hs_live :: "HubSession \<Rightarrow> bool" where
  "hs_live s \<longleftrightarrow> \<not> closed (hs_channel s)"

lemma control_all: "list_all (\<lambda>ob. ob_key ob = None) obs \<longleftrightarrow> control obs = obs"
  by (auto simp: control_def list_all_iff filter_id_conv)

lemma channel_send_live:
  assumes "ch_inv c" "list_all (\<lambda>ob. ob_key ob = None) (stream c)" "\<not> closed (channel_send fr None c)"
  shows "\<not> closed c" "stream (channel_send fr None c) = stream c @ [\<lparr>ob_bytes = fr, ob_key = None\<rparr>]"
proof -
  let ?ob = "\<lparr>ob_bytes = fr, ob_key = None\<rparr>"
  have eq: "channel_send fr None c = offer_frame ?ob c" by (simp add: offer_frame_def)
  have live: "channel_live (offer_frame ?ob c)" using assms(3) by (simp add: eq channel_live_def)
  show "\<not> closed c" using offer_frame_live(1) [OF live] by (simp add: channel_live_def)
  have "updates_of k (stream (offer_frame ?ob c)) = []" for k
  proof (rule list_emb_Nil2)
    show "subseq (updates_of k (stream (offer_frame ?ob c))) []"
      using chan.offer_updates [OF assms(1) live, of k] assms(2)
      by (simp add: updates_of_def list_all_iff filter_empty_conv [THEN iffD2])
  qed
  then have "ob_key ob = None" if "ob \<in> set (stream (offer_frame ?ob c))" for ob
    using that by (cases "ob_key ob") (auto simp: updates_of_def filter_empty_conv)
  then have "control (stream (offer_frame ?ob c)) = stream (offer_frame ?ob c)"
    by (simp add: control_all [symmetric] list_all_iff)
  then show "stream (channel_send fr None c) = stream c @ [?ob]"
    using chan.offer_control [OF assms(1) live] assms(2) by (simp add: eq control_all)
qed

lemma channel_send_closed:
  assumes "ch_inv c" "closed (channel_send fr None c)"
  shows "\<exists>lost. stream c = stream (channel_send fr None c) @ lost"
proof (cases "closed c")
  case True
  then show ?thesis by (simp add: channel_send_def)
next
  case False
  obtain ov c' where s: "send_locked \<lparr>ob_bytes = fr, ob_key = None\<rparr> c = (ov, c')"
    by (cases "send_locked \<lparr>ob_bytes = fr, ob_key = None\<rparr> c")
  then have ov: ov using assms(2) False closed_send_locked [OF s] by (auto simp: channel_send_def split: if_splits)
  then have "c' = c" using overfull_unchanged s assms(1) by auto
  then have "channel_send fr None c = close_locked (close_flag c)"
    using s ov False by (simp add: channel_send_def channel_close_def)
  then show ?thesis using stream_close [of "close_flag c"] stream_close(2) [of c] by simp
qed

lemma plain_hub_send: "plain s \<Longrightarrow> plain (hub_send fr s)"
proof -
  assume s: "plain s"
  have "ch_inv (channel_send fr None (hs_channel s))"
    using s offer_frame_inv [of "hs_channel s" "\<lparr>ob_bytes = fr, ob_key = None\<rparr>"]
    by (simp add: plain_def offer_frame_def)
  moreover have "list_all (\<lambda>ob. ob_key ob = None) (stream (channel_send fr None (hs_channel s)))"
  proof (cases "closed (channel_send fr None (hs_channel s))")
    case True
    then obtain lost where "stream (hs_channel s) = stream (channel_send fr None (hs_channel s)) @ lost"
      using channel_send_closed s by (auto simp: plain_def)
    then show ?thesis using s by (metis list_all_append plain_def)
  next
    case False
    then show ?thesis using channel_send_live(2) s by (simp add: plain_def)
  qed
  ultimately show ?thesis by (simp add: plain_def hub_send_def)
qed

lemma hub_send_fields [simp]:
  "hs_stage (hub_send fr s) = hs_stage s" "hs_address (hub_send fr s) = hs_address s"
  "hs_port (hub_send fr s) = hs_port s" "hs_owner (hub_send fr s) = hs_owner s"
  by (simp_all add: hub_send_def)

lemma told_snoc: "told (obs @ [ob]) = hear (ob_bytes ob) (told obs)"
  by (simp add: told_def)

lemma hub_send_live:
  assumes "plain s" "hs_live (hub_send fr s)"
  shows "hs_live s" "told (stream (hs_channel (hub_send fr s))) = hear fr (told (stream (hs_channel s)))"
  using channel_send_live [of "hs_channel s" fr] assms
  by (simp_all add: plain_def hs_live_def hub_send_def told_snoc)

lemma knows_update:
  assumes "plain s" "hs_live (hub_send fr s)"
    and "frameOf encode_UpdateComponents MT_UpdateComponents u = Inr fr"
  shows "knows (hub_send fr s) = (knows s)(ci_owner (uc_component u) :=
      (case uc_operation u of Op_Add \<Rightarrow> Some (uc_component u) | Op_Remove \<Rightarrow> None))"
  using hub_send_live(2) [OF assms(1,2)] hear_update [OF assms(3)]
  by (simp add: knows_def components_onComponentUpdate)

subsection \<open>The invariant\<close>

definition member :: "MasterHub \<Rightarrow> i32 \<Rightarrow> ComponentInfo option" where
  "member hub j = map_option (\<lambda>sid. info_of j (hub_objects hub ! sid)) (m_find (hub_sessions hub) j)"

lemma hub_update_simps [simp]:
  "hub_sessions (hub_update sid f hub) = hub_sessions hub"
  "length (hub_objects (hub_update sid f hub)) = length (hub_objects hub)"
  "sid < length (hub_objects hub) \<Longrightarrow> hub_objects (hub_update sid f hub) ! j =
     (if j = sid then f (hub_objects hub ! sid) else hub_objects hub ! j)"
  by (simp_all add: hub_update_def)

lemma fold_hub_update [simp]:
  "hub_sessions (fold (\<lambda>sid. hub_update sid f) sids hub) = hub_sessions hub"
  "length (hub_objects (fold (\<lambda>sid. hub_update sid f) sids hub)) = length (hub_objects hub)"
  by (induction sids arbitrary: hub) simp_all

lemma fold_hub_update_nth:
  "distinct sids \<Longrightarrow> (\<And>sid. sid \<in> set sids \<Longrightarrow> sid < length (hub_objects hub)) \<Longrightarrow>
     hub_objects (fold (\<lambda>sid. hub_update sid f) sids hub) ! j =
       (if j \<in> set sids then f (hub_objects hub ! j) else hub_objects hub ! j)"
  by (induction sids arbitrary: hub) auto

text \<open>What \<^verbatim>\<open>sendToAll\<close> needs of the table: each session is registered under its own id only.\<close>

definition table_ok :: "MasterHub \<Rightarrow> bool" where
  "table_ok hub \<longleftrightarrow> (\<forall>owner sid. m_find (hub_sessions hub) owner = Some sid \<longrightarrow>
     sid < length (hub_objects hub) \<and> hs_owner (hub_objects hub ! sid) = owner)"

lemma table_okD:
  "table_ok hub \<Longrightarrow> m_find (hub_sessions hub) owner = Some sid \<Longrightarrow> sid < length (hub_objects hub)"
  "table_ok hub \<Longrightarrow> m_find (hub_sessions hub) owner = Some sid \<Longrightarrow> hs_owner (hub_objects hub ! sid) = owner"
  unfolding table_ok_def by blast+

lemma targets_iff:
  assumes "table_ok hub"
  shows "sid \<in> set (targets about hub) \<longleftrightarrow>
     hs_owner (hub_objects hub ! sid) \<noteq> about \<and>
     m_find (hub_sessions hub) (hs_owner (hub_objects hub ! sid)) = Some sid"
proof -
  have "sid \<in> set (targets about hub) \<longleftrightarrow> (\<exists>j. j \<noteq> about \<and> (j, sid) \<in> set (m_entries (hub_sessions hub)))"
    by (force simp: targets_def)
  also have "\<dots> \<longleftrightarrow> (\<exists>j. j \<noteq> about \<and> m_find (hub_sessions hub) j = Some sid)"
    by (simp add: smap.mem_entries_iff)
  finally show ?thesis using table_okD(2) [OF assms] by metis
qed

lemma distinct_targets:
  assumes "table_ok hub"
  shows "distinct (targets about hub)"
proof -
  have "inj_on snd (set (m_entries (hub_sessions hub)))"
    by (auto simp: inj_on_def smap.mem_entries_iff) (metis table_okD(2) [OF assms])
  moreover have "distinct (m_entries (hub_sessions hub))"
    using smap.distinct_keys [of "hub_sessions hub"] by (simp add: distinct_map)
  ultimately show ?thesis by (simp add: targets_def distinct_map inj_on_def)
qed

lemma sendToAll_nth:
  assumes "table_ok hub" "sendToAll u hub = Inr hub'"
  obtains fr where "frameOf encode_UpdateComponents MT_UpdateComponents u = Inr fr"
    "hub_sessions hub' = hub_sessions hub" "length (hub_objects hub') = length (hub_objects hub)"
    "\<And>sid. hub_objects hub' ! sid =
      (if hs_owner (hub_objects hub ! sid) \<noteq> ci_owner (uc_component u) \<and>
          m_find (hub_sessions hub) (hs_owner (hub_objects hub ! sid)) = Some sid
       then hub_send fr (hub_objects hub ! sid) else hub_objects hub ! sid)"
proof -
  obtain fr where fr: "frameOf encode_UpdateComponents MT_UpdateComponents u = Inr fr"
    and hub': "hub' = fold (\<lambda>sid. hub_update sid (hub_send fr)) (targets (ci_owner (uc_component u)) hub) hub"
    using assms(2) by (auto simp: sendToAll_def bindE_eq_Inr)
  have "sid < length (hub_objects hub)" if "sid \<in> set (targets (ci_owner (uc_component u)) hub)" for sid
    using that table_okD(1) [OF assms(1)] by (metis targets_iff [OF assms(1)])
  then have "hub_objects hub' ! sid =
      (if sid \<in> set (targets (ci_owner (uc_component u)) hub) then hub_send fr (hub_objects hub ! sid)
       else hub_objects hub ! sid)" for sid
    unfolding hub' by (intro fold_hub_update_nth distinct_targets assms(1))
  then show thesis
    by (intro that [OF fr]) (simp_all add: hub' targets_iff [OF assms(1)])
qed

definition stages_ok :: "MasterHub \<Rightarrow> bool" where
  "stages_ok hub \<longleftrightarrow> table_ok hub \<and>
     (\<forall>owner sid. m_find (hub_sessions hub) owner = Some sid \<longrightarrow>
        owner \<noteq> kAnyOwner \<and> hs_stage (hub_objects hub ! sid) = Registered) \<and>
     (\<forall>sid < length (hub_objects hub). let s = hub_objects hub ! sid in
        plain s \<and>
        (hs_stage s = Waiting \<longrightarrow> hs_owner s = kAnyOwner \<and> stream (hs_channel s) = []) \<and>
        (hs_stage s = Registered \<longrightarrow> m_find (hub_sessions hub) (hs_owner s) = Some sid))"

text \<open>Every live registered session knows the others, up to what it should hear about \<open>news\<close>.\<close>

definition views_except :: "i32 set \<Rightarrow> MasterHub \<Rightarrow> bool" where
  "views_except news hub \<longleftrightarrow>
     (\<forall>owner sid j. m_find (hub_sessions hub) owner = Some sid \<and> owner \<notin> news \<and> j \<notin> news \<and>
        hs_live (hub_objects hub ! sid) \<longrightarrow>
        knows (hub_objects hub ! sid) j = (if j = owner then None else member hub j))"

definition hub_inv :: "MasterHub \<Rightarrow> bool" where
  "hub_inv hub \<longleftrightarrow> stages_ok hub \<and> views_except {} hub"

lemma stages_okD:
  assumes "stages_ok hub"
  shows "table_ok hub"
    "m_find (hub_sessions hub) owner = Some sid \<Longrightarrow> owner \<noteq> kAnyOwner"
    "m_find (hub_sessions hub) owner = Some sid \<Longrightarrow> hs_stage (hub_objects hub ! sid) = Registered"
    "sid < length (hub_objects hub) \<Longrightarrow> plain (hub_objects hub ! sid)"
    "sid < length (hub_objects hub) \<Longrightarrow> hs_stage (hub_objects hub ! sid) = Waiting \<Longrightarrow>
      hs_owner (hub_objects hub ! sid) = kAnyOwner"
    "sid < length (hub_objects hub) \<Longrightarrow> hs_stage (hub_objects hub ! sid) = Waiting \<Longrightarrow>
      stream (hs_channel (hub_objects hub ! sid)) = []"
    "sid < length (hub_objects hub) \<Longrightarrow> hs_stage (hub_objects hub ! sid) = Registered \<Longrightarrow>
      m_find (hub_sessions hub) (hs_owner (hub_objects hub ! sid)) = Some sid"
  using assms unfolding stages_ok_def Let_def by blast+

text \<open>
  A change of the objects that keeps every session's owner and stage, what it is known by, and its
  messages while it stays live, keeps the invariant.
\<close>

definition same_session :: "HubSession \<Rightarrow> HubSession \<Rightarrow> bool" where
  "same_session s s' \<longleftrightarrow> hs_owner s' = hs_owner s \<and> hs_stage s' = hs_stage s \<and>
     hs_address s' = hs_address s \<and> hs_port s' = hs_port s \<and> (plain s \<longrightarrow> plain s') \<and>
     (hs_stage s = Waiting \<longrightarrow> stream (hs_channel s) = [] \<longrightarrow> stream (hs_channel s') = [])"

lemma stages_ok_same:
  assumes "stages_ok hub" "hub_sessions hub' = hub_sessions hub"
    "length (hub_objects hub') = length (hub_objects hub)"
    "\<And>sid. sid < length (hub_objects hub) \<Longrightarrow> same_session (hub_objects hub ! sid) (hub_objects hub' ! sid)"
  shows "stages_ok hub'"
proof -
  have "table_ok hub'"
    using stages_okD(1) [OF assms(1)] assms(2-4) unfolding table_ok_def same_session_def by metis
  then show ?thesis
    using assms stages_okD [OF assms(1)] table_okD(1) [OF stages_okD(1) [OF assms(1)]]
    unfolding stages_ok_def Let_def same_session_def by metis
qed

lemma member_same:
  assumes "stages_ok hub" "hub_sessions hub' = hub_sessions hub"
    "\<And>sid. sid < length (hub_objects hub) \<Longrightarrow> same_session (hub_objects hub ! sid) (hub_objects hub' ! sid)"
  shows "member hub' = member hub"
proof
  fix j
  show "member hub' j = member hub j"
    using table_okD(1) [OF stages_okD(1) [OF assms(1)], of j] assms(2,3)
    by (cases "m_find (hub_sessions hub) j") (auto simp: member_def info_of_def same_session_def)
qed

lemma same_session_send: "hs_stage s \<noteq> Waiting \<Longrightarrow> same_session s (hub_send fr s)"
  by (simp add: same_session_def plain_hub_send)

lemma same_session_refl [simp]: "same_session s s"
  by (simp add: same_session_def)

text \<open>A broadcast about \<open>j\<close> keeps the table and tells every other registered session what it says of \<open>j\<close>.\<close>

lemma broadcast:
  assumes "stages_ok hub" "sendToAll u hub = Inr hub'" "j = ci_owner (uc_component u)"
    and "views_except {j} hub" "\<And>sid. m_find (hub_sessions hub) j = Some sid \<Longrightarrow>
      hs_live (hub_objects hub ! sid) \<Longrightarrow> knows (hub_objects hub ! sid) = (member hub)(j := None)"
    and "member hub j = (case uc_operation u of Op_Add \<Rightarrow> Some (uc_component u) | Op_Remove \<Rightarrow> None)"
  shows "stages_ok hub'" "views_except {} hub'" "hub_sessions hub' = hub_sessions hub"
    "length (hub_objects hub') = length (hub_objects hub)"
    "\<And>sid. same_session (hub_objects hub ! sid) (hub_objects hub' ! sid)"
proof -
  obtain fr where fr: "frameOf encode_UpdateComponents MT_UpdateComponents u = Inr fr"
    and sess: "hub_sessions hub' = hub_sessions hub"
    and len: "length (hub_objects hub') = length (hub_objects hub)"
    and nth: "\<And>sid. hub_objects hub' ! sid =
      (if hs_owner (hub_objects hub ! sid) \<noteq> j \<and> m_find (hub_sessions hub) (hs_owner (hub_objects hub ! sid)) = Some sid
       then hub_send fr (hub_objects hub ! sid) else hub_objects hub ! sid)"
    using sendToAll_nth [OF stages_okD(1) [OF assms(1)] assms(2)] unfolding assms(3) by metis
  have same: "same_session (hub_objects hub ! sid) (hub_objects hub' ! sid)" for sid
    using stages_okD(3) [OF assms(1)] by (auto simp: nth intro!: same_session_send)
  note mem = member_same [OF assms(1) sess same]
  show "stages_ok hub'" using stages_ok_same [OF assms(1) sess len same] .
  show "hub_sessions hub' = hub_sessions hub" "length (hub_objects hub') = length (hub_objects hub)"
    "\<And>sid. same_session (hub_objects hub ! sid) (hub_objects hub' ! sid)" by (rule sess len same)+
  show "views_except {} hub'"
    unfolding views_except_def
  proof (intro allI impI, elim conjE)
    fix owner sid i
    assume find: "m_find (hub_sessions hub') owner = Some sid" and live: "hs_live (hub_objects hub' ! sid)"
    have find: "m_find (hub_sessions hub) owner = Some sid" using find sess by simp
    have own: "hs_owner (hub_objects hub ! sid) = owner" and lt: "sid < length (hub_objects hub)"
      using table_okD [OF stages_okD(1) [OF assms(1)] find] by simp_all
    show "knows (hub_objects hub' ! sid) i = (if i = owner then None else member hub' i)"
    proof (cases "owner = j")
      case True
      then have "hub_objects hub' ! sid = hub_objects hub ! sid" using own by (simp add: nth)
      then show ?thesis using assms(5) find True live mem by auto
    next
      case False
      then have obj: "hub_objects hub' ! sid = hub_send fr (hub_objects hub ! sid)"
        using own find by (simp add: nth)
      have plain: "plain (hub_objects hub ! sid)" using stages_okD(4) [OF assms(1) lt] .
      have "knows (hub_objects hub' ! sid) i = (if i = j then member hub j else knows (hub_objects hub ! sid) i)"
        using knows_update [OF plain live [unfolded obj] fr] assms(6) by (simp add: obj assms(3))
      moreover have "i \<noteq> j \<Longrightarrow> knows (hub_objects hub ! sid) i = (if i = owner then None else member hub i)"
        using assms(4) find False hub_send_live(1) [OF plain live [unfolded obj]]
        by (simp add: views_except_def)
      ultimately show ?thesis using False mem by auto
    qed
  qed
qed

subsection \<open>A session ends\<close>

definition finish :: "HubSession \<Rightarrow> HubSession" where
  "finish s = s\<lparr>hs_channel := channel_close (hs_channel s), hs_stage := Done\<rparr>"

lemma finish_fields [simp]:
  "hs_stage (finish s) = Done" "hs_owner (finish s) = hs_owner s" "hs_address (finish s) = hs_address s"
  "hs_port (finish s) = hs_port s" "closed (hs_channel (finish s))"
  by (simp_all add: finish_def channel_close_def close_locked_def close_flag_def)

lemma plain_finish: "plain s \<Longrightarrow> plain (finish s)"
proof -
  assume s: "plain s"
  have "\<exists>lost. stream (hs_channel s) = stream (channel_close (hs_channel s)) @ lost"
    using stream_close(1) [of "close_flag (hs_channel s)"] stream_close(2) [of "hs_channel s"]
    by (simp add: channel_close_def)
  then show ?thesis using s ch_inv_clear(3)
    by (auto simp: plain_def finish_def list_all_append)
qed

definition retire :: "nat \<Rightarrow> MasterHub \<Rightarrow> MasterHub" where
  "retire sid hub = hub_update sid finish (removeComponent (hs_owner (hub_objects hub ! sid)) hub)"

lemma not_registered_twice:
  assumes "stages_ok hub" "m_find (hub_sessions hub) owner = Some sid"
  shows "owner = hs_owner (hub_objects hub ! sid)"
  using table_okD(2) [OF stages_okD(1) [OF assms(1)] assms(2)] by simp

lemma retire_nth:
  "sid < length (hub_objects hub) \<Longrightarrow> hub_objects (retire sid hub) ! i =
     (if i = sid then finish (hub_objects hub ! sid) else hub_objects hub ! i)"
  by (simp add: retire_def removeComponent_def)

lemma retire_sessions [simp]:
  "hub_sessions (retire sid hub) = m_erase (hs_owner (hub_objects hub ! sid)) (hub_sessions hub)"
  "length (hub_objects (retire sid hub)) = length (hub_objects hub)"
  by (simp_all add: retire_def removeComponent_def)

lemma retire_find:
  assumes "stages_ok hub" "m_find (hub_sessions (retire sid hub)) owner = Some i"
  shows "m_find (hub_sessions hub) owner = Some i" "i \<noteq> sid" "owner \<noteq> hs_owner (hub_objects hub ! sid)"
  using assms not_registered_twice [OF assms(1), of owner i] by (auto split: if_splits)

lemma stages_ok_retire:
  assumes "stages_ok hub" "sid < length (hub_objects hub)" "hs_stage (hub_objects hub ! sid) \<noteq> Done"
  shows "stages_ok (retire sid hub)"
proof -
  note ok = stages_okD [OF assms(1)] and nth = retire_nth [OF assms(2)]
  have "table_ok (retire sid hub)"
    unfolding table_ok_def
    using retire_find [OF assms(1)] table_okD [OF ok(1)] by (simp add: nth del: retire_sessions(1)) metis
  moreover have "owner \<noteq> kAnyOwner \<and> hs_stage (hub_objects (retire sid hub) ! i) = Registered"
    if "m_find (hub_sessions (retire sid hub)) owner = Some i" for owner i
    using retire_find [OF assms(1) that] ok(2,3) by (simp add: nth)
  moreover have "m_find (hub_sessions (retire sid hub)) (hs_owner (hub_objects hub ! i)) = Some i"
    if "i < length (hub_objects hub)" "i \<noteq> sid" "hs_stage (hub_objects hub ! i) = Registered" for i
  proof -
    have find: "m_find (hub_sessions hub) (hs_owner (hub_objects hub ! i)) = Some i"
      using ok(7) [OF that(1,3)] .
    have "hs_owner (hub_objects hub ! i) \<noteq> hs_owner (hub_objects hub ! sid)"
      using find ok(2) [OF find] ok(5) [OF assms(2)] ok(7) [OF assms(2)] assms(3) that(2)
      by (cases "hs_stage (hub_objects hub ! sid)") auto
    then show ?thesis using find by simp
  qed
  ultimately show ?thesis
    using ok(4,5,6) assms(2) unfolding stages_ok_def Let_def
    by (auto simp: nth plain_finish simp del: retire_sessions(1))
qed

lemma member_retire:
  assumes "stages_ok hub" "sid < length (hub_objects hub)"
  shows "member (retire sid hub) = (member hub)(hs_owner (hub_objects hub ! sid) := None)"
proof
  fix j
  show "member (retire sid hub) j = ((member hub)(hs_owner (hub_objects hub ! sid) := None)) j"
    using not_registered_twice [OF assms(1), of j sid]
    by (cases "m_find (hub_sessions hub) j") (auto simp: member_def retire_nth [OF assms(2)])
qed

lemma views_exceptD:
  "views_except news hub \<Longrightarrow> m_find (hub_sessions hub) owner = Some sid \<Longrightarrow> owner \<notin> news \<Longrightarrow> j \<notin> news \<Longrightarrow>
     hs_live (hub_objects hub ! sid) \<Longrightarrow>
     knows (hub_objects hub ! sid) j = (if j = owner then None else member hub j)"
  unfolding views_except_def by blast

lemma views_retire:
  assumes "stages_ok hub" "sid < length (hub_objects hub)" "views_except news hub"
    and "news \<subseteq> news'" "\<And>j. j \<notin> news' \<Longrightarrow> member (retire sid hub) j = member hub j"
  shows "views_except news' (retire sid hub)"
  unfolding views_except_def
proof (intro allI impI, elim conjE)
  fix owner i j
  assume find: "m_find (hub_sessions (retire sid hub)) owner = Some i"
    and news: "owner \<notin> news'" "j \<notin> news'"
    and live: "hs_live (hub_objects (retire sid hub) ! i)"
  have old: "owner \<notin> news" "j \<notin> news" using news assms(4) by blast+
  have "hub_objects (retire sid hub) ! i = hub_objects hub ! i"
    using retire_find(2) [OF assms(1) find] by (simp add: retire_nth [OF assms(2)])
  then show "knows (hub_objects (retire sid hub) ! i) j = (if j = owner then None else member (retire sid hub) j)"
    using views_exceptD [OF assms(3) retire_find(1) [OF assms(1) find] old] assms(5) [OF news(2)] live
    by simp
qed

lemma hub_update_commute: "a \<noteq> b \<Longrightarrow> hub_update a f (hub_update b g hub) = hub_update b g (hub_update a f hub)"
  by (simp add: hub_update_def list_update_swap)

lemma fold_hub_update_commute:
  "sid \<notin> set sids \<Longrightarrow> fold (\<lambda>i. hub_update i f) sids (hub_update sid g hub) =
     hub_update sid g (fold (\<lambda>i. hub_update i f) sids hub)"
  by (induction sids arbitrary: hub) (auto simp: hub_update_commute [where b = sid])

definition gone :: "i32 \<Rightarrow> UpdateComponents" where
  "gone owner = \<lparr>uc_operation = Op_Remove, uc_component = \<lparr>ci_owner = owner, ci_ip = [], ci_port = []\<rparr>\<rparr>"

lemma gone_framed: "\<exists>fr. frameOf encode_UpdateComponents MT_UpdateComponents (gone owner) = Inr fr"
  by (simp add: gone_def frameOf_def encode_UpdateComponents_eq fits_def frame_def component_bytes_def
      string_bytes_def kMaxPayload_def)

lemma sendToAll_gone: "\<exists>hub'. sendToAll (gone owner) hub = Inr hub'"
  using gone_framed [of owner] by (auto simp: sendToAll_def)

text \<open>The end of a registered session is its retirement followed by the broadcast.\<close>

lemma goodbye_registered:
  assumes "stages_ok hub" "sid < length (hub_objects hub)" "hs_owner (hub_objects hub ! sid) = owner"
    "owner \<noteq> kAnyOwner"
  shows "sendToAll (gone owner) (retire sid hub) = Inr (hub_goodbye sid hub)"
proof -
  obtain fr where fr: "frameOf encode_UpdateComponents MT_UpdateComponents (gone owner) = Inr fr"
    using gone_framed by blast
  let ?hub = "removeComponent owner hub"
  have c: "ci_owner (uc_component (gone owner)) = owner" by (simp add: gone_def)
  have same: "targets owner (retire sid hub) = targets owner ?hub"
    using assms(3) by (simp add: targets_def retire_def)
  have "sid \<notin> set (targets owner ?hub)"
    using not_registered_twice [OF assms(1), of _ sid] assms(3)
    by (auto simp: targets_def removeComponent_def smap.mem_entries_iff)
  then have "sendToAll (gone owner) (retire sid hub) =
      Inr (hub_update sid finish (fold (\<lambda>i. hub_update i (hub_send fr)) (targets owner ?hub) ?hub))"
    using fr c same assms(3) by (simp add: sendToAll_def) (simp add: retire_def fold_hub_update_commute)
  moreover have "hub_goodbye sid hub =
      hub_update sid finish (fold (\<lambda>i. hub_update i (hub_send fr)) (targets owner ?hub) ?hub)"
    using fr c assms(3,4)
    by (simp add: hub_goodbye_def Let_def sendToAll_def finish_def [abs_def] flip: gone_def)
  ultimately show ?thesis by simp
qed

lemma goodbye_inv:
  assumes "stages_ok hub" "sid < length (hub_objects hub)" "hs_stage (hub_objects hub ! sid) \<noteq> Done"
    and "views_except news hub" "news \<subseteq> {hs_owner (hub_objects hub ! sid)}"
    and "hs_stage (hub_objects hub ! sid) = Waiting \<Longrightarrow> news = {}"
  shows "hub_inv (hub_goodbye sid hub)"
proof (cases "hs_stage (hub_objects hub ! sid) = Waiting")
  case True
  have own: "hs_owner (hub_objects hub ! sid) = kAnyOwner" using stages_okD(5) [OF assms(1,2) True] .
  have none: "m_find (hub_sessions hub) kAnyOwner = None"
    using stages_okD(2) [OF assms(1), of kAnyOwner] by (cases "m_find (hub_sessions hub) kAnyOwner") auto
  have "hub_goodbye sid hub = retire sid hub"
    using own none by (simp add: hub_goodbye_def retire_def removeComponent_def finish_def [abs_def]
        smap.erase_absent)
  moreover have "member (retire sid hub) = member hub"
    using none own by (auto simp: member_retire [OF assms(1,2)] member_def fun_eq_iff)
  then have "views_except {} (retire sid hub)"
    using views_retire [OF assms(1,2,4), of "{}"] assms(6) True by simp
  ultimately show ?thesis using stages_ok_retire [OF assms(1-3)] by (simp add: hub_inv_def)
next
  case False
  let ?o = "hs_owner (hub_objects hub ! sid)"
  have reg: "hs_stage (hub_objects hub ! sid) = Registered"
    using False assms(3) by (cases "hs_stage (hub_objects hub ! sid)") auto
  have o: "?o \<noteq> kAnyOwner"
    using stages_okD(2) [OF assms(1) stages_okD(7) [OF assms(1,2) reg]] .
  have views: "views_except {?o} (retire sid hub)"
    using assms(5) by (intro views_retire [OF assms(1,2,4)]) (auto simp: member_retire [OF assms(1,2)])
  have "views_except {} (hub_goodbye sid hub)" "stages_ok (hub_goodbye sid hub)"
    using broadcast [OF stages_ok_retire [OF assms(1-3)] goodbye_registered [OF assms(1,2) refl o], of ?o] views
    by (simp_all add: gone_def member_retire [OF assms(1,2)])
  then show ?thesis by (simp add: hub_inv_def)
qed

subsection \<open>A session introduces itself\<close>

lemma all_components_find:
  "map_of (map (\<lambda>c. (ci_owner c, c)) (all_components hub)) j = member hub j"
proof -
  have "map (\<lambda>c. (ci_owner c, c)) (all_components hub) =
      map (\<lambda>(owner, sid). (owner, info_of owner (hub_objects hub ! sid))) (m_entries (hub_sessions hub))"
    by (auto simp: all_components_def info_of_def)
  moreover have "map_of (map (\<lambda>(owner, sid). (owner, f owner sid)) es) j = map_option (f j) (map_of es j)"
    for f :: "i32 \<Rightarrow> nat \<Rightarrow> ComponentInfo" and es
    by (induction es) auto
  ultimately show ?thesis by (simp add: member_def smap.find_entries)
qed

lemma knows_welcome:
  assumes "frameOf encode_MasterMessage MT_MasterMessage w = Inr fr" "plausible w"
    "mm_all_components w = all_components hub" "plain s" "stream (hs_channel s) = []"
    "hs_live (hub_send fr s)"
  shows "knows (hub_send fr s) = member hub"
proof
  fix j
  have "knows (hub_send fr s) j = m_find (components (onWelcome w (new_client :: unit Client))) j"
    using hub_send_live(2) [OF assms(4,6)] hear_welcome [OF assms(1,2)] assms(5)
    by (simp add: knows_def told_def)
  also have "\<dots> = member hub j"
  proof (cases "member hub j")
    case None
    then have "j \<notin> ci_owner ` set (all_components hub)"
      by (metis (no_types, lifting) all_components_find map_of_eq_None_iff image_image list.set_map fst_conv image_cong)
    then show ?thesis using None assms(3) by (simp add: components_onWelcome_None new_client_def)
  next
    case (Some info)
    then have "(j, info) \<in> set (map (\<lambda>c. (ci_owner c, c)) (all_components hub))"
      using all_components_find map_of_SomeD by metis
    then have info: "info \<in> set (all_components hub)" "ci_owner info = j" by auto
    have "map ci_owner (all_components hub) = map fst (m_entries (hub_sessions hub))"
      by (auto simp: all_components_def info_of_def)
    then have "distinct (map ci_owner (all_components hub))" by (simp add: smap.distinct_keys)
    then show ?thesis
      using components_fold_addSession [of "all_components hub" info "new_client\<lparr>owner_id := mm_owner w\<rparr>"]
        info Some assms(3) by (simp add: onWelcome_def)
  qed
  finally show "knows (hub_send fr s) j = member hub j" .
qed

text \<open>The hub after a registration, before anyone is told: the new session is in the table.\<close>

definition enrolled :: "i32 \<Rightarrow> string \<Rightarrow> nat \<Rightarrow> MasterHub \<Rightarrow> MasterHub" where
  "enrolled owner prt sid hub =
     hub_update sid (\<lambda>s. s\<lparr>hs_port := prt, hs_owner := owner, hs_stage := Registered\<rparr>)
       (hub\<lparr>hub_sessions := m_emplace owner sid (hub_sessions hub)\<rparr>)"

lemma waiting_not_registered:
  "stages_ok hub \<Longrightarrow> hs_stage (hub_objects hub ! sid) = Waiting \<Longrightarrow> m_find (hub_sessions hub) owner \<noteq> Some sid"
  using stages_okD(3) by force

lemma enrolled_simps:
  assumes "m_find (hub_sessions hub) owner = None" "sid < length (hub_objects hub)"
  shows "m_find (hub_sessions (enrolled owner prt sid hub)) j =
      (if j = owner then Some sid else m_find (hub_sessions hub) j)"
    "hub_objects (enrolled owner prt sid hub) ! i =
      (if i = sid then (hub_objects hub ! sid)\<lparr>hs_port := prt, hs_owner := owner, hs_stage := Registered\<rparr>
       else hub_objects hub ! i)"
    "length (hub_objects (enrolled owner prt sid hub)) = length (hub_objects hub)"
  using assms by (simp_all add: enrolled_def)

lemma stages_ok_enrolled:
  assumes "stages_ok hub" "sid < length (hub_objects hub)" "hs_stage (hub_objects hub ! sid) = Waiting"
    "m_find (hub_sessions hub) owner = None" "owner \<noteq> kAnyOwner"
  shows "stages_ok (enrolled owner prt sid hub)"
proof -
  note ok = stages_okD [OF assms(1)] and e = enrolled_simps [OF assms(4,2)]
  note no = waiting_not_registered [OF assms(1,3)]
  have "table_ok (enrolled owner prt sid hub)"
    using table_okD [OF ok(1)] no assms(2) unfolding table_ok_def by (auto simp: e)
  moreover have "plain (s\<lparr>hs_port := prt, hs_owner := owner, hs_stage := Registered\<rparr>) \<longleftrightarrow> plain s" for s
    by (simp add: plain_def)
  moreover have "hs_owner (hub_objects hub ! i) \<noteq> owner"
    if "i < length (hub_objects hub)" "hs_stage (hub_objects hub ! i) = Registered" for i
    using ok(7) [OF that] assms(4) by auto
  ultimately show ?thesis
    using ok no assms(2,5) unfolding stages_ok_def Let_def by (auto simp: e)
qed

lemma member_enrolled:
  assumes "stages_ok hub" "sid < length (hub_objects hub)" "hs_stage (hub_objects hub ! sid) = Waiting"
    "m_find (hub_sessions hub) owner = None"
  shows "member (enrolled owner prt sid hub) =
    (member hub)(owner \<mapsto> info_of owner ((hub_objects hub ! sid)\<lparr>hs_port := prt\<rparr>))"
proof
  fix j
  note e = enrolled_simps [OF assms(4,2)]
  show "member (enrolled owner prt sid hub) j =
      ((member hub)(owner \<mapsto> info_of owner ((hub_objects hub ! sid)\<lparr>hs_port := prt\<rparr>))) j"
    using waiting_not_registered [OF assms(1,3), of j]
    by (cases "m_find (hub_sessions hub) j") (auto simp: member_def e info_of_def)
qed

lemma views_enrolled:
  assumes "stages_ok hub" "sid < length (hub_objects hub)" "hs_stage (hub_objects hub ! sid) = Waiting"
    "m_find (hub_sessions hub) owner = None" "views_except {} hub"
  shows "views_except {owner} (enrolled owner prt sid hub)"
  unfolding views_except_def
proof (intro allI impI, elim conjE)
  fix j i k
  note e = enrolled_simps [OF assms(4,2)]
  assume find: "m_find (hub_sessions (enrolled owner prt sid hub)) j = Some i" and news: "j \<notin> {owner}" "k \<notin> {owner}"
    and live: "hs_live (hub_objects (enrolled owner prt sid hub) ! i)"
  have old: "m_find (hub_sessions hub) j = Some i" "i \<noteq> sid"
    using find news waiting_not_registered [OF assms(1,3), of j] by (auto simp: e)
  then show "knows (hub_objects (enrolled owner prt sid hub) ! i) k =
      (if k = j then None else member (enrolled owner prt sid hub) k)"
    using views_exceptD [OF assms(5) old(1), of k] live news
    by (simp add: e member_enrolled [OF assms(1-4)])
qed

lemma registerComponent_result:
  assumes "registerComponent draw sid presence hub = Some (w, hub')"
    and "\<And>seed. 1000 \<le> ival (draw seed)" "ip_force_owner_id presence \<Longrightarrow> ip_owner_id presence \<noteq> kAnyOwner"
  shows "m_find (hub_sessions hub) (mm_owner w) = None" "mm_owner w \<noteq> kAnyOwner"
    "mm_all_components w = all_components hub"
    "hub' = hub\<lparr>hub_sessions := m_emplace (mm_owner w) sid (hub_sessions hub)\<rparr>"
    "ip_force_owner_id presence \<Longrightarrow> m_find (hub_sessions hub) (ip_owner_id presence) = None \<Longrightarrow>
      mm_owner w = ip_owner_id presence"
proof -
  let ?forced = "ip_force_owner_id presence \<and> \<not> m_contains (hub_sessions hub) (ip_owner_id presence)"
  obtain owner where w: "w = \<lparr>mm_owner = owner, mm_all_components = all_components hub\<rparr>"
    and hub': "hub' = hub\<lparr>hub_sessions := m_emplace owner sid (hub_sessions hub)\<rparr>"
    and owner: "(if ?forced then Some (ip_owner_id presence) else makeOwnerId draw (ip_port presence) hub) = Some owner"
    using assms(1) by (auto simp: registerComponent_def)
  have "m_find (hub_sessions hub) owner = None \<and> owner \<noteq> kAnyOwner"
  proof (cases ?forced)
    case True
    then show ?thesis using owner assms(3) by auto
  next
    case False
    then have step: "step_past (hub_sessions hub) (draw (port_seed (ip_port presence))) = Some owner"
      using owner by (simp only: if_False makeOwnerId_def)
    have "1000 \<le> ival owner"
      using step_past_free [OF step] assms(2) [of "port_seed (ip_port presence)"] by simp
    then have "owner \<noteq> kAnyOwner" by (auto simp: kAnyOwner_def)
    then show ?thesis using step_past_free [OF step] by simp
  qed
  then show "m_find (hub_sessions hub) (mm_owner w) = None" "mm_owner w \<noteq> kAnyOwner"
    "mm_all_components w = all_components hub"
    "hub' = hub\<lparr>hub_sessions := m_emplace (mm_owner w) sid (hub_sessions hub)\<rparr>"
    "ip_force_owner_id presence \<Longrightarrow> m_find (hub_sessions hub) (ip_owner_id presence) = None \<Longrightarrow>
      mm_owner w = ip_owner_id presence"
    using w hub' owner by simp_all
qed

lemma views_same:
  assumes "views_except news hub" "hub_sessions hub' = hub_sessions hub" "member hub' = member hub"
    and "\<And>j i. m_find (hub_sessions hub) j = Some i \<Longrightarrow> j \<notin> news \<Longrightarrow>
      knows (hub_objects hub' ! i) = knows (hub_objects hub ! i) \<and>
      hs_live (hub_objects hub' ! i) = hs_live (hub_objects hub ! i)"
  shows "views_except news hub'"
  unfolding views_except_def
proof (intro allI impI, elim conjE)
  fix owner i j
  assume find: "m_find (hub_sessions hub') owner = Some i" and news: "owner \<notin> news" "j \<notin> news"
    and live: "hs_live (hub_objects hub' ! i)"
  have find: "m_find (hub_sessions hub) owner = Some i" using find assms(2) by simp
  show "knows (hub_objects hub' ! i) j = (if j = owner then None else member hub' j)"
    using views_exceptD [OF assms(1) find news] assms(3) assms(4) [OF find news(1)] live by simp
qed

lemma all_components_waiting:
  assumes "stages_ok hub" "sid < length (hub_objects hub)" "hs_stage (hub_objects hub ! sid) = Waiting"
  shows "all_components (hub_update sid f hub) = all_components hub"
proof -
  have "i \<noteq> sid" if "(j, i) \<in> set (m_entries (hub_sessions hub))" for j i
    using that waiting_not_registered [OF assms(1,3)] by (auto simp: smap.mem_entries_iff)
  then show ?thesis using assms(2) by (fastforce simp: all_components_def)
qed

text \<open>Greeting a session that has just been enrolled restores the invariant, whether or not it succeeds.\<close>

lemma greet_inv:
  assumes inv: "hub_inv hub" and sid: "sid < length (hub_objects hub)"
    and wait: "hs_stage (hub_objects hub ! sid) = Waiting"
    and w: "m_find (hub_sessions hub) (mm_owner w) = None" "mm_owner w \<noteq> kAnyOwner"
      "mm_all_components w = all_components hub" "plausible w"
    and greet: "hub_greet w sid hub2 = (res, hub')"
    and hub2: "hub_update sid (\<lambda>s. s\<lparr>hs_owner := mm_owner w, hs_stage := Registered\<rparr>) hub2 =
      enrolled (mm_owner w) prt sid hub"
  shows "hub_inv (case res of Inl err \<Rightarrow> hub_goodbye sid hub' | Inr _ \<Rightarrow> hub')"
proof -
  let ?o = "mm_owner w" and ?e = "enrolled (mm_owner w) prt sid hub"
  have ok: "stages_ok hub" and views: "views_except {} hub" using inv by (simp_all add: hub_inv_def)
  note e = enrolled_simps [OF w(1) sid] and mem = member_enrolled [OF ok sid wait w(1)]
  have oke: "stages_ok ?e" by (rule stages_ok_enrolled [OF ok sid wait w(1,2)])
  have viewse: "views_except {?o} ?e" by (rule views_enrolled [OF ok sid wait w(1) views])
  have side: "sid < length (hub_objects ?e)" using sid by (simp add: e)
  show ?thesis
  proof (cases "frameOf encode_MasterMessage MT_MasterMessage w")
    case (Inl err)
    then have "res = Inl err" "hub' = ?e" using greet by (simp_all add: hub_greet_def Let_def hub2)
    then show ?thesis using goodbye_inv [OF oke side _ viewse] by (simp add: e)
  next
    case (Inr fr)
    let ?h = "hub_update sid (hub_send fr) ?e"
    have same: "same_session (hub_objects ?e ! i) (hub_objects ?h ! i)" for i
      using side by (auto simp: e intro!: same_session_send)
    have okh: "stages_ok ?h" by (rule stages_ok_same [OF oke _ _ same]) simp_all
    have memh: "member ?h = member ?e" by (rule member_same [OF oke _ same]) simp
    have other: "hub_objects ?h ! i = hub_objects ?e ! i"
      if "m_find (hub_sessions ?e) j = Some i" "j \<noteq> ?o" for i j
      using that waiting_not_registered [OF ok wait, of j] side by (auto simp: e)
    have viewsh: "views_except {?o} ?h"
      using views_same [OF viewse _ memh] other by simp
    show ?thesis
    proof (cases "sendToAll \<lparr>uc_operation = Op_Add, uc_component = info_of ?o (hub_objects ?h ! sid)\<rparr> ?h")
      case err: (Inl err)
      then have "res = Inl err" "hub' = ?h" using greet Inr by (simp_all add: hub_greet_def Let_def hub2)
      moreover have "sid < length (hub_objects ?h)" using side by simp
      moreover have "hs_owner (hub_objects ?h ! sid) = ?o" "hs_stage (hub_objects ?h ! sid) = Registered"
        using side by (simp_all add: e)
      ultimately show ?thesis using goodbye_inv [OF okh _ _ viewsh, of sid] by simp
    next
      case send: (Inr h3)
      then have res: "res = Inr ()" "hub' = h3" using greet Inr by (simp_all add: hub_greet_def Let_def hub2)
      have "knows (hub_objects ?h ! sid) = (member ?h)(?o := None)" if "hs_live (hub_objects ?h ! sid)"
      proof -
        have "member hub ?o = None" using w(1) by (simp add: member_def)
        then have "(member ?h)(?o := None) = member hub" by (simp add: memh mem fun_upd_idem)
        moreover have "plain (hub_objects ?e ! sid)" using stages_okD(4) [OF oke side] .
        moreover have "stream (hs_channel (hub_objects ?e ! sid)) = []"
          using stages_okD(6) [OF ok sid wait] by (simp add: e)
        ultimately show ?thesis using knows_welcome [OF Inr w(4,3)] that side by simp
      qed
      then have "views_except {} h3" "stages_ok h3"
        using broadcast [OF okh send, of ?o] viewsh side
        by (simp_all add: info_of_def memh mem e)
      then show ?thesis using res by (simp add: hub_inv_def)
    qed
  qed
qed

lemma hello_inv:
  assumes inv: "hub_inv hub" and sid: "sid < length (hub_objects hub)"
    and wait: "hs_stage (hub_objects hub ! sid) = Waiting"
    and hello: "hub_hello draw sid f hub = Some hub'"
    and draw: "\<And>seed. 1000 \<le> ival (draw seed)"
    and few: "length (m_entries (hub_sessions hub)) \<le> kMaxPayload div sizeof_ComponentInfo"
    and forced: "\<And>p. decodePayload decode_IndicatePresence (fr_payload f) = Inr p \<Longrightarrow>
      ip_force_owner_id p \<Longrightarrow> ip_owner_id p \<noteq> kAnyOwner"
  shows "hub_inv hub'"
proof -
  have ok: "stages_ok hub" and views: "views_except {} hub" using inv by (simp_all add: hub_inv_def)
  have bye: "hub_inv (hub_goodbye sid hub)"
    using goodbye_inv [OF ok sid _ views] wait by simp
  obtain res hub1 where intro: "hub_introduce draw sid f hub = Some (res, hub1)"
    and hub': "hub' = (case res of Inl err \<Rightarrow> hub_goodbye sid hub1 | Inr _ \<Rightarrow> hub1)"
    using hello by (auto simp: hub_hello_def)
  show ?thesis
  proof (cases "h_type (fr_header f) = MT_IndicatePresence \<and>
      (\<exists>p. decodePayload decode_IndicatePresence (fr_payload f) = Inr p)")
    case False
    then have "hub1 = hub" "\<exists>err. res = Inl err"
      using intro by (auto simp: hub_introduce_def split: if_splits sum.splits)
    then show ?thesis using bye hub' by auto
  next
    case True
    then obtain p where p: "decodePayload decode_IndicatePresence (fr_payload f) = Inr p" by blast
    let ?h = "hub_update sid (\<lambda>s. s\<lparr>hs_port := ip_port p\<rparr>) hub"
    obtain w hub2 where reg: "registerComponent draw sid p ?h = Some (w, hub2)"
      and greet: "hub_greet w sid hub2 = (res, hub1)"
      using intro True p by (auto simp: hub_introduce_def Let_def)
    note r = registerComponent_result [OF reg draw forced [OF p]]
    have comps: "mm_all_components w = all_components hub"
      using r(3) all_components_waiting [OF ok sid wait] by simp
    moreover have "plausible w" using comps few by (simp add: plausible_def all_components_def)
    moreover have "hub_update sid (\<lambda>s. s\<lparr>hs_owner := mm_owner w, hs_stage := Registered\<rparr>) hub2 =
        enrolled (mm_owner w) (ip_port p) sid hub"
      using sid by (simp add: r(4) enrolled_def hub_update_def)
    ultimately show ?thesis
      using greet_inv [OF inv sid wait _ r(2) _ _ greet] r(1) unfolding hub' by simp
  qed
qed

subsection \<open>Every reachable master\<close>

text \<open>
  The drains of the sessions' channels, as far as they concern the master: a frame is taken from the
  queue, or has been written.
\<close>

definition hub_drain :: "nat \<Rightarrow> MasterHub \<Rightarrow> MasterHub" where
  "hub_drain sid hub = hub_update sid (\<lambda>s. s\<lparr>hs_channel := run_drain 1 (hs_channel s)\<rparr>) hub"

lemma run_drain_one:
  assumes "ch_inv c"
  shows "ch_inv (run_drain 1 c)" "stream (run_drain 1 c) = stream c" "closed (run_drain 1 c) = closed c"
proof -
  have "ch_inv (run_drain 1 c) \<and> stream (run_drain 1 c) = stream c \<and> closed (run_drain 1 c) = closed c"
  proof (cases "drains c")
    case (Cons d ds)
    then show ?thesis using assms
      by (cases d) (simp_all add: ch_inv_top ch_inv_written stream_drain_top stream_drain_written)
  qed (use assms in simp)
  then show "ch_inv (run_drain 1 c)" "stream (run_drain 1 c) = stream c" "closed (run_drain 1 c) = closed c"
    by simp_all
qed

lemma drain_inv:
  assumes "hub_inv hub" "sid < length (hub_objects hub)"
  shows "hub_inv (hub_drain sid hub)"
proof -
  have ok: "stages_ok hub" and views: "views_except {} hub" using assms(1) by (simp_all add: hub_inv_def)
  let ?f = "\<lambda>s. s\<lparr>hs_channel := run_drain 1 (hs_channel s)\<rparr>"
  have ch: "ch_inv (hs_channel (hub_objects hub ! sid))"
    using stages_okD(4) [OF ok assms(2)] by (simp add: plain_def)
  have same: "same_session (hub_objects hub ! i) (hub_objects (hub_drain sid hub) ! i)" for i
    using run_drain_one [OF ch] assms(2) by (simp add: hub_drain_def same_session_def plain_def)
  have obs: "knows (hub_objects (hub_drain sid hub) ! i) = knows (hub_objects hub ! i)"
    "hs_live (hub_objects (hub_drain sid hub) ! i) = hs_live (hub_objects hub ! i)" for i
    using run_drain_one [OF ch] assms(2) by (simp_all add: hub_drain_def knows_def hs_live_def)
  have sess: "hub_sessions (hub_drain sid hub) = hub_sessions hub" by (simp add: hub_drain_def)
  have "stages_ok (hub_drain sid hub)"
    by (rule stages_ok_same [OF ok _ _ same]) (simp_all add: hub_drain_def)
  moreover have "member (hub_drain sid hub) = member hub"
    by (rule member_same [OF ok _ same]) (simp add: hub_drain_def)
  then have "views_except {} (hub_drain sid hub)"
    using views_same [OF views sess] obs by simp
  ultimately show ?thesis by (simp add: hub_inv_def)
qed

lemma accept_inv:
  assumes "hub_inv hub"
  shows "hub_inv (hub_accept address hub)"
proof -
  let ?h = "hub_accept address hub"
  have ok: "stages_ok hub" and views: "views_except {} hub" using assms by (simp_all add: hub_inv_def)
  have old: "hub_objects ?h ! i = hub_objects hub ! i" if "i < length (hub_objects hub)" for i
    using that by (simp add: hub_accept_def nth_append)
  have new: "hub_objects ?h ! length (hub_objects hub) =
      \<lparr>hs_stage = Waiting, hs_channel = new_channel, hs_address = address, hs_port = [], hs_owner = kAnyOwner\<rparr>"
    by (simp add: hub_accept_def)
  have sess: "hub_sessions ?h = hub_sessions hub" and len: "length (hub_objects ?h) = Suc (length (hub_objects hub))"
    by (simp_all add: hub_accept_def)
  have reg: "hub_objects ?h ! i = hub_objects hub ! i" if "m_find (hub_sessions hub) j = Some i" for i j
    using old table_okD(1) [OF stages_okD(1) [OF ok] that] .
  have "table_ok ?h"
    using table_okD [OF stages_okD(1) [OF ok]] reg unfolding table_ok_def sess len by (metis less_SucI)
  moreover have "plain (hub_objects ?h ! length (hub_objects hub))" by (simp add: new plain_def)
  ultimately have "stages_ok ?h"
    using stages_okD [OF ok] reg old new unfolding stages_ok_def Let_def sess len
    by (auto simp: less_Suc_eq)
  moreover have "member ?h = member hub"
  proof
    fix j show "member ?h j = member hub j"
      using reg [of j] by (cases "m_find (hub_sessions hub) j") (simp_all add: member_def sess)
  qed
  then have "views_except {} ?h"
    using views_same [OF views sess] reg by simp
  ultimately show ?thesis by (simp add: hub_inv_def)
qed

text \<open>
  The masters a run can reach, for a generator \<open>draw\<close>. A session introduces itself once, with any frame;
  the two guards on that step say that fewer components are registered than a welcome message may list
  (233016), and that nobody forces the id \<open>-1\<close>, which \<^verbatim>\<open>registerWithMaster\<close> never does.
\<close>

inductive hub_reach :: "(i32 \<Rightarrow> i32) \<Rightarrow> MasterHub \<Rightarrow> bool" for draw where
  start: "hub_reach draw new_hub"
| accept: "hub_reach draw hub \<Longrightarrow> hub_reach draw (hub_accept address hub)"
| hello: "hub_reach draw hub \<Longrightarrow> sid < length (hub_objects hub) \<Longrightarrow>
    hs_stage (hub_objects hub ! sid) = Waiting \<Longrightarrow> hub_hello draw sid f hub = Some hub' \<Longrightarrow>
    length (m_entries (hub_sessions hub)) \<le> kMaxPayload div sizeof_ComponentInfo \<Longrightarrow>
    (\<And>p. decodePayload decode_IndicatePresence (fr_payload f) = Inr p \<Longrightarrow> ip_force_owner_id p \<Longrightarrow>
       ip_owner_id p \<noteq> kAnyOwner) \<Longrightarrow>
    hub_reach draw hub'"
| goodbye: "hub_reach draw hub \<Longrightarrow> sid < length (hub_objects hub) \<Longrightarrow>
    hs_stage (hub_objects hub ! sid) \<noteq> Done \<Longrightarrow> hub_reach draw (hub_goodbye sid hub)"
| drain: "hub_reach draw hub \<Longrightarrow> sid < length (hub_objects hub) \<Longrightarrow> hub_reach draw (hub_drain sid hub)"

lemma hub_inv_new: "hub_inv new_hub"
  by (simp add: hub_inv_def stages_ok_def table_ok_def views_except_def new_hub_def)

lemma hub_reach_inv:
  assumes "hub_reach draw hub" "\<And>seed. 1000 \<le> ival (draw seed)"
  shows "hub_inv hub"
  using assms(1)
proof (induction rule: hub_reach.induct)
  case start
  show ?case by (rule hub_inv_new)
next
  case (hello hub sid f hub')
  then show ?case using hello_inv [OF hello.IH hello.hyps(2-4) assms(2)] by blast
next
  case (goodbye hub sid)
  then show ?case using goodbye_inv [of hub sid "{}"] by (simp add: hub_inv_def)
qed (simp_all add: accept_inv drain_inv)

subsection \<open>Properties\<close>

text \<open>
  At every moment of every run, with any interleaving of connections, introductions, departures and
  writes, each registered component whose connection is live has been sent exactly the truth: a client
  fed with the messages on its channel lists precisely the other registered components, each under its
  own id with the address and port it registered with.
\<close>

lemma peers_told_exactly:
  assumes "hub_reach draw hub" "\<forall>seed. 1000 \<le> ival (draw seed)"
    and "m_find (hub_sessions hub) owner = Some sid" "\<not> closed (hs_channel (hub_objects hub ! sid))"
  shows "m_find (components (told (stream (hs_channel (hub_objects hub ! sid))))) j =
    (if j = owner then None
     else map_option (\<lambda>i. info_of j (hub_objects hub ! i)) (m_find (hub_sessions hub) j))"
proof -
  have "views_except {} hub"
    using hub_reach_inv [OF assms(1)] assms(2) by (simp add: hub_inv_def)
  from views_exceptD [OF this assms(3), of j] assms(4) show ?thesis
    by (simp add: hs_live_def knows_def member_def)
qed

text \<open>
  C22. Ids are unique for the life of a registration: in every reachable master two different owner ids
  belong to different sessions, each session carries the id it is listed under, and no id is \<open>-1\<close>; and a
  registration that asks for a free id gets it, without disturbing any other entry.
\<close>

theorem owner_ids_unique:
  assumes "hub_reach draw hub" "\<forall>seed. 1000 \<le> ival (draw seed)"
  shows "(\<forall>j sid. m_find (hub_sessions hub) j = Some sid \<longrightarrow>
       hs_owner (hub_objects hub ! sid) = j \<and> j \<noteq> kAnyOwner \<and> sid < length (hub_objects hub)) \<and>
    (\<forall>p i. ip_force_owner_id p \<and> m_find (hub_sessions hub) (ip_owner_id p) = None \<longrightarrow>
       registerComponent draw i p hub =
         Some (\<lparr>mm_owner = ip_owner_id p, mm_all_components = all_components hub\<rparr>,
               hub\<lparr>hub_sessions := m_assign (ip_owner_id p) i (hub_sessions hub)\<rparr>))"
proof -
  have ok: "stages_ok hub" using hub_reach_inv [OF assms(1)] assms(2) by (simp add: hub_inv_def)
  have "registerComponent draw i p hub =
         Some (\<lparr>mm_owner = ip_owner_id p, mm_all_components = all_components hub\<rparr>,
               hub\<lparr>hub_sessions := m_assign (ip_owner_id p) i (hub_sessions hub)\<rparr>)"
    if "ip_force_owner_id p" "m_find (hub_sessions hub) (ip_owner_id p) = None" for p i
    using that by (simp add: registerComponent_def m_emplace_def)
  then show ?thesis
    using stages_okD(2) [OF ok] table_okD [OF stages_okD(1) [OF ok]] by blast
qed

definition sample_hello :: "string \<Rightarrow> Frame" where
  "sample_hello prt = \<lparr>fr_header = \<lparr>h_type = MT_IndicatePresence, payload_length = of_nat (9 + length prt),
       h_subscriber = I32 (-1)\<rparr>,
     fr_payload = string_bytes prt @ le_bytes (0 :: u8) @ le_bytes (-1 :: u32)\<rparr>"

lemma sample_hello_decodes:
  assumes "fits prt"
  shows "decodePayload decode_IndicatePresence (fr_payload (sample_hello prt)) =
    Inr \<lparr>ip_port = prt, ip_force_owner_id = False, ip_owner_id = kAnyOwner\<rparr>"
proof -
  have "encode_IndicatePresence \<lparr>ip_port = prt, ip_force_owner_id = False, ip_owner_id = kAnyOwner\<rparr> [] =
      Inr (fr_payload (sample_hello prt))"
    using assms by (simp add: encode_IndicatePresence_eq sample_hello_def kAnyOwner_def)
  then show ?thesis using presence_codec.roundtrip by blast
qed

text \<open>A master with one component, from 10.0.0.2 with server port 80, under the drawn id 4242.\<close>

definition sample_hub :: "byte list \<Rightarrow> MasterHub" where
  "sample_hub fr = \<lparr>hub_sessions = m_assign (i32_of 4242) 0 m_empty,
     hub_objects = [\<lparr>hs_stage = Registered, hs_channel = channel_send fr None new_channel,
       hs_address = ''10.0.0.2'', hs_port = ''80'', hs_owner = i32_of 4242\<rparr>]\<rparr>"

lemma sample_draw: "ival (i32_of 4242) = 4242"
  by (rule ival_i32_of) (simp_all add: INT_MIN_def INT_MAX_def)

lemma sample_hub_reach:
  "\<exists>fr. hub_reach (\<lambda>seed. i32_of 4242) (sample_hub fr) \<and>
     \<not> closed (hs_channel (hub_objects (sample_hub fr) ! 0))"
proof -
  let ?draw = "\<lambda>seed :: i32. i32_of 4242"
  let ?w = "\<lparr>mm_owner = i32_of 4242, mm_all_components = []\<rparr>"
  obtain fr where fr: "frameOf encode_MasterMessage MT_MasterMessage ?w = Inr fr"
    by (simp add: frameOf_def encode_MasterMessage_eq all_fit_def frame_def kMaxPayload_def)
  obtain fr2 where fr2: "frameOf encode_UpdateComponents MT_UpdateComponents \<lparr>uc_operation = Op_Add,
      uc_component = \<lparr>ci_owner = i32_of 4242, ci_ip = ''10.0.0.2'', ci_port = ''80''\<rparr>\<rparr> = Inr fr2"
    by (simp add: frameOf_def encode_UpdateComponents_eq fits_def frame_def component_bytes_def
        string_bytes_def kMaxPayload_def)
  have fits: "fits ''80''" by (simp add: fits_def kMaxPayload_def)
  have step: "step_past m_empty (i32_of 4242) = Some (i32_of 4242)"
    by (subst step_past.simps) simp
  let ?hub = "hub_accept ''10.0.0.2'' new_hub"
  have "hub_hello ?draw 0 (sample_hello ''80'') ?hub = Some (sample_hub fr)"
    using fr fr2 step sample_hello_decodes [OF fits]
    by (simp add: hub_hello_def hub_introduce_def registerComponent_def makeOwnerId_def hub_greet_def
        sendToAll_def targets_def hub_accept_def new_hub_def hub_update_def hub_send_def info_of_def
        all_components_def sample_hub_def m_emplace_def Let_def, simp add: sample_hello_def)
  then have "hub_reach ?draw (sample_hub fr)"
    by (rule hub_reach.hello [rotated 3, OF _ _ _ hub_reach.accept [OF hub_reach.start]])
      (auto simp: hub_accept_def new_hub_def sample_hello_decodes [OF fits])
  moreover have "\<not> closed (channel_send fr None new_channel)"
    by (simp add: channel_send_def send_locked_def makeRoomLocked_def new_channel_def push_outbound_def
        kMaxOutboxFrames_def)
  ultimately show ?thesis by (auto simp: sample_hub_def)
qed

theorem owner_ids_unique_witness:
  "\<exists>fr. hs_owner (hub_objects (sample_hub fr) ! 0) = i32_of 4242 \<and> i32_of 4242 \<noteq> kAnyOwner"
proof -
  obtain fr where fr: "hub_reach (\<lambda>seed. i32_of 4242) (sample_hub fr)" using sample_hub_reach by blast
  have "m_find (hub_sessions (sample_hub fr)) (i32_of 4242) = Some 0" by (simp add: sample_hub_def)
  then show ?thesis using owner_ids_unique [OF fr] sample_draw by auto
qed

text \<open>
  A component that forces the id \<open>-1\<close> is registered under it and never removed: the end of its
  session leaves the table as it is, so the master lists it to every newcomer for ever.
\<close>

lemma forced_any_owner_never_removed:
  assumes "hs_owner (hub_objects hub ! sid) = kAnyOwner"
  shows "hub_sessions (hub_goodbye sid hub) = hub_sessions hub \<and>
    (m_find (hub_sessions hub) kAnyOwner = None \<longrightarrow>
     (\<exists>w hub'. registerComponent draw i \<lparr>ip_port = prt, ip_force_owner_id = True, ip_owner_id = kAnyOwner\<rparr> hub =
        Some (w, hub') \<and> mm_owner w = kAnyOwner \<and> m_find (hub_sessions hub') kAnyOwner = Some i))"
  using assms by (simp add: hub_goodbye_def registerComponent_def Let_def)

end
