(* ===== verification/Segments.thy ===== *)
theory Segments
  imports Server
begin

text \<open>
  What the four threads of the event loop and the threads of the application do between two critical sections.
  A handler of \<^verbatim>\<open>ServerSession\<close> works under the mutex of the pair space first and, after releasing it, runs callbacks
  and fans out; \<^verbatim>\<open>Client::setPair\<close> fans out under the mutex and posts the callbacks after releasing it. A \<open>job\<close> is
  what such a call has still to do once it has left its critical section: the local variables it took out with it.

  \<open>begin_frame\<close> and \<open>setPair_locked\<close> are the critical sections, \<open>job_step\<close> is the next segment of a job: one callback,
  or one frame built, or one frame queued for one subscriber. Other threads may run between two segments, and so
  may the calls that a callback makes.

  Shown: run without interruption the segments are the handlers of \<open>Server\<close> and \<^verbatim>\<open>setPair\<close> of \<open>Client\<close>; every job ends; and
  what becomes of the subscribers when another publication falls between the critical section and the fan-out.
\<close>

subsection \<open>Critical sections\<close>

datatype 'cb job =
    Returned
  | Notifying Pair "'cb list" "i32 list"
  | Sending "byte list" "PairKey option" "i32 list"
  | Updating "Pair list" i32
  | Announcing RemovePairRequest "i32 list"
  | Posting Pair "'cb list"

definition apply_locked :: "TimePoint \<Rightarrow> Pair \<Rightarrow> 'cb Server \<Rightarrow> 'cb job \<times> 'cb Server" where
  "apply_locked now p srv =
     (let s = addPair now p (node_space (srv_node srv))
      in (case find_entry (getOwner p) (getKey p) s of
            None \<Rightarrow> Returned
          | Some e \<Rightarrow> Notifying (pe_pair e) (callbacks_for s e) (subscribers e),
          set_space s srv))"

definition begin_subscription :: "TimePoint \<Rightarrow> Subscription \<Rightarrow> 'cb Server \<Rightarrow> 'cb job \<times> 'cb Server" where
  "begin_subscription now m srv =
     (let wildcard = (sub_key m = kWildcardKey); space = node_space (srv_node srv)
      in if \<not> wildcard \<and> sub_owner_id m \<noteq> srv_owner srv then (Returned, srv)
         else if sub_subscriber m = srv_owner srv then (Returned, srv)
         else if \<not> sub_registering m
         then (Returned, set_space (if wildcard then removeSubscriptionToAll (sub_subscriber m) space
                 else removeSubscription (sub_owner_id m) (sub_key m) (sub_subscriber m) space) srv)
         else let s = (if wildcard then addSubscriptionToAll (sub_subscriber m) space
                       else addSubscription now (sub_owner_id m) (sub_key m) (sub_subscriber m) space)
              in (Updating (pairs_to_send (srv_owner srv) m s) (sub_subscriber m), set_space s srv))"

definition begin_removal :: "RemovePairRequest \<Rightarrow> 'cb Server \<Rightarrow> 'cb job \<times> 'cb Server" where
  "begin_removal m srv =
     (if rp_owner m \<noteq> srv_owner srv then (Returned, srv)
      else case find_entry (rp_owner m) (rp_key m) (node_space (srv_node srv)) of
             None \<Rightarrow> (Returned, srv)
           | Some e \<Rightarrow>
               (if subscribers e = [] then Returned else Announcing m (subscribers e),
                set_space (removePair (rp_owner m) (rp_key m) (node_space (srv_node srv))) srv))"

text \<open>What a thread does with a frame it has read, up to the end of the critical section.\<close>

definition begin_frame :: "TimePoint \<Rightarrow> Frame \<Rightarrow> 'cb Server \<Rightarrow> 'cb job result \<times> 'cb Server" where
  "begin_frame now fr srv =
     (case h_type (fr_header fr) of
        MT_Pair \<Rightarrow> (case decodePayload decode_Pair (fr_payload fr) of
            Inl err \<Rightarrow> (Inl err, srv)
          | Inr p \<Rightarrow> apfst Inr (apply_locked now (setOwner (srv_owner srv) p) srv))
      | MT_PairUpdate \<Rightarrow> (case decodePayload decode_Pair (fr_payload fr) of
            Inl err \<Rightarrow> (Inl err, srv)
          | Inr p \<Rightarrow> apfst Inr (apply_locked now p srv))
      | MT_Subscription \<Rightarrow> (case decodePayload decode_Subscription (fr_payload fr) of
            Inl err \<Rightarrow> (Inl err, srv)
          | Inr m \<Rightarrow> apfst Inr (begin_subscription now m srv))
      | MT_RemovePair \<Rightarrow> (case decodePayload decode_RemovePairRequest (fr_payload fr) of
            Inl err \<Rightarrow> (Inl err, srv)
          | Inr m \<Rightarrow> apfst Inr (begin_removal m srv))
      | MT_PairRemoved \<Rightarrow> (case decodePayload decode_RemovePairRequest (fr_payload fr) of
            Inl err \<Rightarrow> (Inl err, srv)
          | Inr m \<Rightarrow> (Inr Returned, set_space (removePair (rp_owner m) (rp_key m) (node_space (srv_node srv))) srv))
      | _ \<Rightarrow> (Inl (DecodeError ''a server cannot handle this message type''), srv))"

text \<open>
  \<^verbatim>\<open>Client::setPair\<close> up to the end of its critical section, which includes the fan-out. The job that is left posts the
  callbacks to the strand.
\<close>

definition setPair_locked ::
    "TimePoint \<Rightarrow> string \<Rightarrow> string \<Rightarrow> PairType \<Rightarrow> 'cb Node \<Rightarrow> (bool \<times> 'cb job) result \<times> 'cb Node" where
  "setPair_locked now key val ty n =
     (let c = node_client n
      in if \<not> ready c then (Inr (False, Returned), n)
         else let s = addPair now (new_pair (owner_id c) key val ty) (node_space n);
                  n1 = n\<lparr>node_space := s\<rparr>
              in case find_entry (owner_id c) key s of
                   None \<Rightarrow> (Inr (True, Returned), n1)
                 | Some e \<Rightarrow>
                     (case (if subscribers e \<noteq> [] then fanOutPair (pe_pair e) (subscribers e) c else Inr c) of
                        Inl err \<Rightarrow> (Inl err, n1)
                      | Inr c1 \<Rightarrow> (Inr (True, Posting (pe_pair e) (callbacks_for s e)), n1\<lparr>node_client := c1\<rparr>)))"

subsection \<open>The segments after a critical section\<close>

fun job_step :: "'cb job \<Rightarrow> 'cb Node \<Rightarrow> 'cb job result \<times> 'cb Node" where
  "job_step Returned n = (Inr Returned, n)"
| "job_step (Notifying p (cb # cbs) subs) n =
     (Inr (Notifying p cbs subs), n\<lparr>node_calls := node_calls n @ [(p, cb)]\<rparr>)"
| "job_step (Notifying p [] subs) n =
     (if subs = [] then (Inr Returned, n)
      else case frameOf encode_Pair MT_PairUpdate p of
             Inl err \<Rightarrow> (Inl err, n)
           | Inr payload \<Rightarrow> (Inr (Sending payload (Some (PairKey (getOwner p) (getKey p))) subs), n))"
| "job_step (Sending payload key []) n = (Inr Returned, n)"
| "job_step (Sending payload key (subscriber # subs)) n =
     (Inr (Sending payload key subs), n\<lparr>node_client := send_to payload key subscriber (node_client n)\<rparr>)"
| "job_step (Updating [] subscriber) n = (Inr Returned, n)"
| "job_step (Updating (p # ps) subscriber) n =
     (case fanOutPair p [subscriber] (node_client n) of
        Inl err \<Rightarrow> (Inl err, n)
      | Inr c \<Rightarrow> (Inr (Updating ps subscriber), n\<lparr>node_client := c\<rparr>))"
| "job_step (Announcing m subs) n =
     (case frameOf encode_RemovePairRequest MT_PairRemoved m of
        Inl err \<Rightarrow> (Inl err, n)
      | Inr payload \<Rightarrow> (Inr (Sending payload None subs), n))"
| "job_step (Posting p cbs) n = (Inr Returned, n\<lparr>node_client := notifyLocal p cbs (node_client n)\<rparr>)"

text \<open>How many segments a job has left at most.\<close>

fun job_left :: "'cb job \<Rightarrow> nat" where
  "job_left Returned = 0"
| "job_left (Notifying p cbs subs) = length cbs + length subs + 2"
| "job_left (Sending payload key subs) = length subs + 1"
| "job_left (Updating ps subscriber) = length ps + 1"
| "job_left (Announcing m subs) = length subs + 2"
| "job_left (Posting p cbs) = 1"

lemma job_step_left: "job_step j n = (Inr j', n') \<Longrightarrow> j \<noteq> Returned \<Longrightarrow> job_left j' < job_left j"
  by (induction j n rule: job_step.induct) (auto split: if_splits sum.splits)

function run_job :: "'cb job \<Rightarrow> 'cb Node \<Rightarrow> unit result \<times> 'cb Node" where
  "run_job j n =
     (if j = Returned then (Inr (), n)
      else case job_step j n of
             (Inl err, n') \<Rightarrow> (Inl err, n')
           | (Inr j', n') \<Rightarrow> run_job j' n')"
  by pat_completeness auto

termination
  by (relation "measure (\<lambda>(j, n). job_left j)") (auto dest: job_step_left [OF sym])

declare run_job.simps [simp del]

subsection \<open>Uninterrupted jobs\<close>

lemma run_Returned [simp]: "run_job Returned n = (Inr (), n)"
  by (simp add: run_job.simps)

lemma run_Sending [simp]:
  "run_job (Sending payload key subs) n =
     (Inr (), n\<lparr>node_client := fold (send_to payload key) subs (node_client n)\<rparr>)"
  by (induction subs arbitrary: n) (simp_all add: run_job.simps [of "Sending payload key _"])

lemma run_Notifying:
  "run_job (Notifying p cbs subs) n =
     (let n1 = n\<lparr>node_calls := node_calls n @ map (Pair p) cbs\<rparr>
      in if subs = [] then (Inr (), n1)
         else case fanOutPair p subs (node_client n) of
                Inl err \<Rightarrow> (Inl err, n1)
              | Inr c \<Rightarrow> (Inr (), n1\<lparr>node_client := c\<rparr>))"
proof (induction cbs arbitrary: n)
  case Nil
  have "n\<lparr>node_calls := node_calls n\<rparr> = n" by simp
  then show ?case by (simp add: run_job.simps [of "Notifying p [] subs"] fanOutPair_def bindE_def split: sum.splits)
next
  case (Cons cb cbs)
  then show ?case by (simp add: run_job.simps [of "Notifying p (cb # cbs) subs"] Let_def split: sum.splits)
qed

lemma run_Updating:
  "run_job (Updating ps subscriber) (srv_node srv) =
     (fst (sendPairUpdates ps subscriber srv), srv_node (snd (sendPairUpdates ps subscriber srv)))"
proof (induction ps arbitrary: srv)
  case Nil
  then show ?case by (simp add: run_job.simps [of "Updating [] subscriber"])
next
  case (Cons p ps)
  show ?case
  proof (cases "fanOutPair p [subscriber] (node_client (srv_node srv))")
    case (Inr c)
    then show ?thesis using Cons.IH [of "srv\<lparr>srv_node := (srv_node srv)\<lparr>node_client := c\<rparr>\<rparr>"]
      by (simp add: run_job.simps [of "Updating (p # ps) subscriber"] sendPairUpdate_def fan_out_def)
  qed (simp add: run_job.simps [of "Updating (p # ps) subscriber"] sendPairUpdate_def fan_out_def)
qed

lemma run_Announcing:
  "run_job (Announcing m subs) n =
     (case fanOutRemoval m subs (node_client n) of
        Inl err \<Rightarrow> (Inl err, n)
      | Inr c \<Rightarrow> (Inr (), n\<lparr>node_client := c\<rparr>))"
  by (simp add: run_job.simps [of "Announcing m subs"] fanOutRemoval_def bindE_def split: sum.splits)

lemma run_Posting: "run_job (Posting p cbs) n = (Inr (), n\<lparr>node_client := notifyLocal p cbs (node_client n)\<rparr>)"
  by (simp add: run_job.simps [of "Posting p cbs"])

lemma sendPairUpdates_node:
  "snd (sendPairUpdates ps subscriber srv) = srv\<lparr>srv_node := srv_node (snd (sendPairUpdates ps subscriber srv))\<rparr>"
proof (induction ps arbitrary: srv)
  case (Cons p ps)
  show ?case
  proof (cases "fanOutPair p [subscriber] (node_client (srv_node srv))")
    case (Inr c)
    then show ?thesis using Cons.IH [of "srv\<lparr>srv_node := (srv_node srv)\<lparr>node_client := c\<rparr>\<rparr>"]
      by (simp add: sendPairUpdate_def fan_out_def)
  qed (simp add: sendPairUpdate_def fan_out_def)
qed simp

text \<open>A call from its critical section to its end, with nothing in between.\<close>

definition run_through :: "'cb job result \<times> 'cb Server \<Rightarrow> unit result \<times> 'cb Server" where
  "run_through r =
     (case r of
        (Inl err, srv) \<Rightarrow> (Inl err, srv)
      | (Inr j, srv) \<Rightarrow> (case run_job j (srv_node srv) of (res, n) \<Rightarrow> (res, srv\<lparr>srv_node := n\<rparr>)))"

lemma run_apply: "run_through (apfst Inr (apply_locked now p srv)) = applyAndNotify now p srv"
  by (auto simp: run_through_def apply_locked_def applyAndNotify_def fan_out_def run_Notifying set_space_def Let_def
      split: option.splits sum.splits)

lemma run_subscription:
  "run_through (apfst Inr (begin_subscription now m srv)) =
     (let wildcard = (sub_key m = kWildcardKey); space = node_space (srv_node srv)
      in if \<not> wildcard \<and> sub_owner_id m \<noteq> srv_owner srv then (Inr (), srv)
         else if sub_subscriber m = srv_owner srv then (Inr (), srv)
         else if \<not> sub_registering m
         then (Inr (), set_space (if wildcard then removeSubscriptionToAll (sub_subscriber m) space
                 else removeSubscription (sub_owner_id m) (sub_key m) (sub_subscriber m) space) srv)
         else let s = (if wildcard then addSubscriptionToAll (sub_subscriber m) space
                       else addSubscription now (sub_owner_id m) (sub_key m) (sub_subscriber m) space)
              in sendPairUpdates (pairs_to_send (srv_owner srv) m s) (sub_subscriber m) (set_space s srv))"
  by (auto simp: run_through_def begin_subscription_def run_Updating sendPairUpdates_node [symmetric] Let_def)

lemma run_removal:
  "run_through (apfst Inr (begin_removal m srv)) =
     (if rp_owner m \<noteq> srv_owner srv then (Inr (), srv)
      else case find_entry (rp_owner m) (rp_key m) (node_space (srv_node srv)) of
             None \<Rightarrow> (Inr (), srv)
           | Some e \<Rightarrow>
               let srv1 = set_space (removePair (rp_owner m) (rp_key m) (node_space (srv_node srv))) srv
               in if subscribers e = [] then (Inr (), srv1)
                  else case fanOutRemoval m (subscribers e) (node_client (srv_node srv1)) of
                         Inl err \<Rightarrow> (Inl err, srv1)
                       | Inr c \<Rightarrow> (Inr (), srv1\<lparr>srv_node := (srv_node srv1)\<lparr>node_client := c\<rparr>\<rparr>))"
  by (auto simp: run_through_def begin_removal_def run_Announcing Let_def split: option.splits sum.splits)

lemma run_through_frame: "run_through (begin_frame now fr srv) = handle_frame now fr srv"
proof -
  have failed: "run_through (Inl err, srv) = (Inl err, srv)" for err by (simp add: run_through_def)
  have returned: "run_through (Inr Returned, srv1) = (Inr (), srv1)" for srv1 by (simp add: run_through_def)
  show ?thesis
    by (cases "h_type (fr_header fr)")
      (simp_all add: begin_frame_def handle_frame_def handleIncomingPair_def handlePairUpdate_def
        handleSubscription_def handleRemovePair_def handlePairRemoved_def failed returned run_apply
        run_subscription run_removal split: sum.splits)
qed

lemma setPair_segments:
  "client_setPair now key val ty n =
     (case setPair_locked now key val ty n of
        (Inl err, n1) \<Rightarrow> (Inl err, n1)
      | (Inr (b, j), n1) \<Rightarrow> (Inr b, snd (run_job j n1)))"
  by (simp add: client_setPair_def setPair_locked_def run_Posting Let_def split: option.splits sum.splits)

subsection \<open>What a segment keeps\<close>

lemma job_step_space [simp]: "node_space (snd (job_step j n)) = node_space n"
  by (induction j n rule: job_step.induct) (simp_all split: sum.splits)

lemma job_step_keeps:
  "(node_inv n \<longrightarrow> node_inv (snd (job_step j n))) \<and>
   client_identity (node_client (snd (job_step j n))) = client_identity (node_client n) \<and>
   sessions (node_client (snd (job_step j n))) = sessions (node_client n)"
proof -
  have fan: "client_identity c' = client_identity c \<and> sessions c' = sessions c \<and> (client_inv c \<longrightarrow> client_inv c')"
    if "fanOutPair p subs c = Inr c'" for p subs and c c' :: "'a Client"
    using own_client.fan_identity [OF that] own_client.fan_pair_inv [OF _ that] that
    by (auto simp: fanOutPair_def bindE_eq_Inr)
  have send: "client_identity (send_to fr k j c) = client_identity c \<and> sessions (send_to fr k j c) = sessions c \<and>
      (client_inv c \<longrightarrow> client_inv (send_to fr k j c))" for fr k j and c :: "'a Client"
    by (auto simp: send_to_def client_identity_def client_inv_send_on split: option.splits)
  have post: "client_identity (notifyLocal p cbs c) = client_identity c \<and> sessions (notifyLocal p cbs c) = sessions c \<and>
      (client_inv c \<longrightarrow> client_inv (notifyLocal p cbs c))" for p cbs and c :: "'a Client"
    by (auto simp: notifyLocal_def client_identity_def client_inv_def sessions_ok_def subscriptions_ok_def)
  show ?thesis
    by (induction j n rule: job_step.induct)
      (auto simp: node_inv_def send post dest!: fan split: sum.splits)
qed

lemma run_job_keeps:
  "(node_inv n \<longrightarrow> node_inv (snd (run_job j n))) \<and>
   client_identity (node_client (snd (run_job j n))) = client_identity (node_client n) \<and>
   sessions (node_client (snd (run_job j n))) = sessions (node_client n) \<and>
   node_space (snd (run_job j n)) = node_space n"
proof (induction j n rule: run_job.induct)
  case (1 j n)
  obtain r n' where r: "job_step j n = (r, n')" by (cases "job_step j n")
  show ?case using 1 r job_step_keeps [of n j] job_step_space [of j n]
    by (cases r) (auto simp: run_job.simps [of j n])
qed

text \<open>A critical section changes nothing but the pair space, and keeps its invariant.\<close>

definition locked_step :: "'cb Server \<Rightarrow> 'cb Server \<Rightarrow> bool" where
  "locked_step srv srv' \<longleftrightarrow>
     (\<exists>s. srv' = set_space s srv \<and> (ps_inv (node_space (srv_node srv)) \<longrightarrow> ps_inv s))"

lemma locked_step_refl: "locked_step srv srv"
  unfolding locked_step_def by (intro exI [of _ "node_space (srv_node srv)"]) (simp add: set_space_def)

lemma locked_stepI: "(ps_inv (node_space (srv_node srv)) \<Longrightarrow> ps_inv s) \<Longrightarrow> locked_step srv (set_space s srv)"
  by (auto simp: locked_step_def)

lemma locked_step_sections:
  "locked_step srv (snd (apply_locked now p srv))"
  "locked_step srv (snd (begin_subscription now m srv))"
  "locked_step srv (snd (begin_removal r srv))"
  "locked_step srv (set_space (removePair owner key (node_space (srv_node srv))) srv)"
  by (simp_all add: apply_locked_def begin_subscription_def begin_removal_def Let_def locked_step_refl locked_stepI
      ps_inv_intros split: option.splits)

lemma locked_step_begin: "locked_step srv (snd (begin_frame now fr srv))"
  unfolding begin_frame_def
  by (cases "h_type (fr_header fr)") (simp_all add: locked_step_sections locked_step_refl split: sum.splits)

lemma setPair_locked_keeps:
  "node_inv n \<Longrightarrow> node_inv (snd (setPair_locked now key val ty n))"
  "client_identity (node_client (snd (setPair_locked now key val ty n))) = client_identity (node_client n)"
  by (auto simp: setPair_locked_def Let_def node_inv_space node_inv_def ps_inv_addPair own_client.fan_identity
      dest: own_client.fan_pair_inv split: option.splits sum.splits if_splits)

text \<open>The pair space is what the whole call makes of it as soon as the critical section is left.\<close>

lemma begin_frame_space:
  "node_space (srv_node (snd (begin_frame now fr srv))) = node_space (srv_node (snd (handle_frame now fr srv)))"
  "srv_owner (snd (begin_frame now fr srv)) = srv_owner srv"
proof -
  obtain r srv1 where b: "begin_frame now fr srv = (r, srv1)" by (cases "begin_frame now fr srv")
  show "node_space (srv_node (snd (begin_frame now fr srv))) = node_space (srv_node (snd (handle_frame now fr srv)))"
    unfolding run_through_frame [symmetric] b by (cases r) (simp_all add: run_through_def split_beta run_job_keeps)
  show "srv_owner (snd (begin_frame now fr srv)) = srv_owner srv"
    using locked_step_begin [of srv now fr] by (auto simp: locked_step_def)
qed

lemma setPair_locked_space:
  "node_space (snd (setPair_locked now key val ty n)) = node_space (snd (client_setPair now key val ty n))"
  by (auto simp: setPair_locked_def client_setPair_def Let_def split: option.splits sum.splits)

subsection \<open>A job that comes late\<close>

text \<open>
  Whatever happened since its critical section, a job that fans a pair out makes it the last update of its key
  that a live session to the subscriber carries.
\<close>

lemma fan_out_is_last:
  assumes "node_inv n" "distinct subs" "j \<in> set subs" "fanOutPair p subs (node_client n) = Inr c"
    and "peer_session c j = Some s" "session_live s" "node_inv (srv_node srv)"
  shows "\<exists>older ob f. updates_of (key_of p) (session_out s) = older @ [ob] \<and>
    channel_read (ob_bytes ob @ rest) = Inr (f, rest) \<and>
    published (node_space (srv_node (snd (handle_frame later f srv)))) (key_of p) =
      (if getType p = PT_Invalid then None else Some (getValue p, getType p))"
proof -
  note inv = node_invD(2) [OF assms(1)]
  obtain fr where fr: "frameOf encode_Pair MT_PairUpdate p = Inr fr"
    "peer_session c j = map_option (session_send fr (Some (key_of p))) (peer_session (node_client n) j)"
    using own_client.fan_pair_sends [OF inv assms(2,4), of j] assms(3) by auto
  then obtain s0 where s0: "peer_session (node_client n) j = Some s0" "s = session_send fr (Some (key_of p)) s0"
    using assms(5) by (cases "peer_session (node_client n) j") auto
  then obtain older where "updates_of (key_of p) (session_out s) = older @ [\<lparr>ob_bytes = fr, ob_key = Some (key_of p)\<rparr>]"
    using session_send_newest [OF table_session_inv [OF inv s0(1)]] assms(6) by blast
  moreover obtain f where "channel_read (fr @ rest) = Inr (f, rest)"
    "published (node_space (srv_node (snd (handle_frame later f srv)))) (key_of p) =
       (if getType p = PT_Invalid then None else Some (getValue p, getType p))"
    using update_handled [OF assms(7) fr(1), of rest later] by auto
  ultimately show ?thesis by (metis Outbound.select_convs(1))
qed

lemma begin_incoming:
  assumes "node_inv (srv_node srv)" "h_type (fr_header f) = MT_Pair"
    and "decodePayload decode_Pair (fr_payload f) = Inr q" "begin_frame now f srv = (Inr job, srv1)"
    and "k = PairKey (srv_owner srv) (getKey q)"
  obtains p cbs where "job = Notifying p cbs (subscribers_of (node_space (srv_node srv)) k)"
    "distinct (subscribers_of (node_space (srv_node srv)) k)"
    "key_of p = k" "getValue p = getValue q" "getType p = getType q"
    "srv1 = set_space (addPair now (setOwner (srv_owner srv) q) (node_space (srv_node srv))) srv"
proof -
  let ?q = "setOwner (srv_owner srv) q"
  obtain e where "m_find (pairs (addPair now ?q (node_space (srv_node srv)))) (key_of ?q) = Some e"
    "key_of (pe_pair e) = key_of ?q" "getValue (pe_pair e) = getValue ?q" "getType (pe_pair e) = getType ?q"
    "subscribers e = subscribers_of (node_space (srv_node srv)) (key_of ?q)" "distinct (subscribers e)"
    using addPair_entry [OF node_invD(1) [OF assms(1)], of now ?q] by metis
  then show thesis using that [of "pe_pair e"] assms(2-5)
    by (auto simp: begin_frame_def apply_locked_def find_entry_def key_of_def setOwner_def Let_def)
qed

lemma late_job:
  assumes "node_inv n" "distinct subs" "j \<in> set subs" "run_job (Notifying p cbs subs) n = (Inr (), n')"
    and "peer_session (node_client n') j = Some s" "session_live s" "node_inv (srv_node srv)"
  shows "\<exists>older ob f. updates_of (key_of p) (session_out s) = older @ [ob] \<and>
    channel_read (ob_bytes ob @ rest) = Inr (f, rest) \<and>
    published (node_space (srv_node (snd (handle_frame later f srv)))) (key_of p) =
      (if getType p = PT_Invalid then None else Some (getValue p, getType p))"
proof -
  have "subs \<noteq> []" using assms(3) by auto
  then obtain c where "fanOutPair p subs (node_client n) = Inr c" "node_client n' = c"
    using assms(4) by (auto simp: run_Notifying Let_def split: sum.splits)
  then show ?thesis using fan_out_is_last [OF assms(1-3) _ _ assms(6,7)] assms(5) by simp
qed

text \<open>
  C8. Fanning out after the critical section loses the newer value. A component applies a pair that another one
  sent with \<^verbatim>\<open>setRemotePair\<close>. If a \<^verbatim>\<open>setPair\<close> of the same key falls between the critical section of the handler and its
  fan-out (from another thread, or from a callback that the handler itself runs), the component ends with the
  value of \<^verbatim>\<open>setPair\<close>, but the last update of the key on a live session to a subscriber is the older, received value,
  and handling it leaves the subscriber with that one.
\<close>

theorem late_fan_out_wins:
  assumes "node_inv (srv_node srv)" "client_identity (node_client (srv_node srv)) = (srv_owner srv, True)"
    and "h_type (fr_header f) = MT_Pair" "decodePayload decode_Pair (fr_payload f) = Inr q" "getType q \<noteq> PT_Invalid"
    and "begin_frame now f srv = (Inr job, srv1)"
    and "client_setPair now' (getKey q) v ty (srv_node srv1) = (Inr True, n2)" "ty \<noteq> PT_Invalid"
    and "run_job job n2 = (Inr (), n3)"
    and "k = PairKey (srv_owner srv) (getKey q)" "j \<in> set (subscribers_of (node_space (srv_node srv)) k)"
    and "peer_session (node_client n3) j = Some s" "session_live s" "node_inv (srv_node sub)"
  shows "published (node_space n3) k = Some (v, ty) \<and>
    (\<exists>older ob g. updates_of k (session_out s) = older @ [ob] \<and>
       channel_read (ob_bytes ob @ rest) = Inr (g, rest) \<and>
       published (node_space (srv_node (snd (handle_frame later g sub)))) k = Some (getValue q, getType q))"
proof -
  obtain p cbs where job: "job = Notifying p cbs (subscribers_of (node_space (srv_node srv)) k)"
    "distinct (subscribers_of (node_space (srv_node srv)) k)" "key_of p = k" "getValue p = getValue q" "getType p = getType q"
    "srv1 = set_space (addPair now (setOwner (srv_owner srv) q) (node_space (srv_node srv))) srv"
    by (rule begin_incoming [OF assms(1,3,4,6,10)])
  have inv: "node_inv (srv_node srv1)"
    using assms(1) by (simp add: job(6) node_invD ps_inv_addPair)
  have id: "ready (node_client (srv_node srv1))" "owner_id (node_client (srv_node srv1)) = srv_owner srv"
    using assms(2) by (simp_all add: job(6) client_identity_def)
  have set: "published (node_space n2) k = Some (v, ty)"
    using setPair_effect [OF inv id(1) assms(7)] assms(8,10) id(2) by auto
  have "node_inv n2"
    using setPair_locked_keeps(1) [OF inv, of now' "getKey q" v ty] run_job_keeps assms(7)
    by (auto simp: setPair_segments split: prod.splits sum.splits)
  from late_job [OF this job(2) assms(11) assms(9) [unfolded job(1)] assms(12-14), of rest later]
  have "\<exists>older ob g. updates_of k (session_out s) = older @ [ob] \<and> channel_read (ob_bytes ob @ rest) = Inr (g, rest) \<and>
      published (node_space (srv_node (snd (handle_frame later g sub)))) k = Some (getValue q, getType q)"
    using job(3-5) assms(5) by simp
  moreover have "node_space n3 = node_space n2" using run_job_keeps [of n2 job] assms(9) by simp
  ultimately show ?thesis using set by simp
qed

lemma idle_session_send:
  "channel s = None \<Longrightarrow> \<not> closing s \<Longrightarrow> channel (session_send fr key s) = None \<and> \<not> closing (session_send fr key s)"
  by (simp add: session_send_def session_send_locked_def)

lemma run_incoming_ok:
  assumes "29 + length (getKey p) + length (getValue p) \<le> kMaxPayload"
  shows "fst (run_job (Notifying p cbs subs) n) = Inr ()"
proof -
  obtain fr where "frameOf encode_Pair MT_PairUpdate p = Inr fr" using assms frameOf_Pair_ok_iff by metis
  then show ?thesis by (simp add: run_Notifying fanOutPair_def Let_def)
qed

lemma late_job_session:
  assumes "node_inv n" "distinct subs" "j \<in> set subs" "run_job (Notifying p cbs subs) n = (Inr (), n')"
    and "peer_session (node_client n) j = Some s"
  obtains fr where "peer_session (node_client n') j = Some (session_send fr (Some (key_of p)) s)"
proof -
  have "subs \<noteq> []" using assms(3) by auto
  then obtain c where "fanOutPair p subs (node_client n) = Inr c" "node_client n' = c"
    using assms(4) by (auto simp: run_Notifying Let_def split: sum.splits)
  then show thesis
    using own_client.update_reaches_peer [OF node_invD(2) [OF assms(1)] assms(2) _ assms(3,5)] that by metis
qed

text \<open>Component 5 receives a value for its key \<open>k\<close>, to which component 7 is subscribed.\<close>

lemma sample_incoming:
  obtains f q job srv1 p cbs where "h_type (fr_header f) = MT_Pair" "decodePayload decode_Pair (fr_payload f) = Inr q"
    "getKey q = ''k''" "getValue q = ''old''" "getType q = PT_String"
    "begin_frame 1 f sample_server = (Inr job, srv1)" "job = Notifying p cbs [I32 7]" "getKey p = ''k''" "getValue p = ''old''"
    "node_inv (srv_node srv1)" "client_identity (node_client (srv_node srv1)) = (I32 5, True)"
    "peer_session (node_client (srv_node srv1)) (I32 7) = Some (new_session ''h'' ''p'' (I32 7))"
    "subscribers_of (node_space (srv_node srv1)) (PairKey (I32 5) ''k'') = [I32 7]"
proof -
  let ?q = "new_pair (I32 5) ''k'' ''old'' PT_String" and ?k = "PairKey (I32 5) ''k''"
  have q: "getKey ?q = ''k''" "getValue ?q = ''old''" "getType ?q = PT_String" by (simp_all add: new_pair_def)
  obtain fr where "frameOf encode_Pair MT_Pair ?q = Inr fr"
    using frameOf_Pair_ok_iff [of MT_Pair ?q] q by (auto simp: kMaxPayload_def)
  then obtain f where f: "channel_read (fr @ []) = Inr (f, [])" "h_type (fr_header f) = MT_Pair"
    "decodePayload decode_Pair (fr_payload f) = Inr ?q"
    by (rule read_pair_frame) simp
  then obtain job srv1 where b: "begin_frame 1 f sample_server = (Inr job, srv1)"
    by (cases "apply_locked 1 (setOwner (I32 5) ?q) sample_server") (simp add: begin_frame_def)
  have own: "srv_owner sample_server = I32 5" "node_inv (srv_node sample_server)" "srv_node sample_server = sample_node"
    by (simp_all add: sample_server_def)
  obtain p cbs where job: "job = Notifying p cbs [I32 7]" "key_of p = ?k" "getValue p = ''old''"
    "srv1 = set_space (addPair 1 (setOwner (I32 5) ?q) (node_space sample_node)) sample_server"
    by (rule begin_incoming [OF own(2) f(2,3) b refl]) (use own(1,3) q in auto)
  show thesis
    by (rule that [OF f(2,3) q b job(1)])
      (use own(2,3) job in \<open>simp_all add: key_of_def node_invD ps_inv_addPair subscribers_addPair client_identity_def\<close>)
qed

theorem late_fan_out_wins_witness:
  "\<exists>f job srv1 n2 n3 s older ob g. begin_frame 1 f sample_server = (Inr job, srv1) \<and>
     client_setPair 2 ''k'' ''new'' PT_String (srv_node srv1) = (Inr True, n2) \<and> run_job job n2 = (Inr (), n3) \<and>
     peer_session (node_client n3) (I32 7) = Some s \<and> published (node_space n3) (PairKey (I32 5) ''k'') = Some (''new'', PT_String) \<and>
     updates_of (PairKey (I32 5) ''k'') (session_out s) = older @ [ob] \<and> channel_read (ob_bytes ob @ []) = Inr (g, []) \<and>
     published (node_space (srv_node (snd (handle_frame 3 g sample_server)))) (PairKey (I32 5) ''k'') = Some (''old'', PT_String)"
proof -
  let ?k = "PairKey (I32 5) ''k''"
  obtain f q job srv1 p cbs where f: "h_type (fr_header f) = MT_Pair" "decodePayload decode_Pair (fr_payload f) = Inr q"
    and q: "getKey q = ''k''" "getValue q = ''old''" "getType q = PT_String"
    and b: "begin_frame 1 f sample_server = (Inr job, srv1)" "job = Notifying p cbs [I32 7]" "getKey p = ''k''" "getValue p = ''old''"
    and n1: "node_inv (srv_node srv1)" "client_identity (node_client (srv_node srv1)) = (I32 5, True)"
      "peer_session (node_client (srv_node srv1)) (I32 7) = Some (new_session ''h'' ''p'' (I32 7))"
      "subscribers_of (node_space (srv_node srv1)) ?k = [I32 7]"
    by (rule sample_incoming)
  have id: "ready (node_client (srv_node srv1))" "owner_id (node_client (srv_node srv1)) = I32 5"
    using n1(2) by (simp_all add: client_identity_def)
  have fits: "29 + length ''k'' + length ''new'' \<le> kMaxPayload" "29 + length (getKey p) + length (getValue p) \<le> kMaxPayload"
    by (simp_all add: b(3,4) kMaxPayload_def)
  obtain n2 where n2: "client_setPair 2 ''k'' ''new'' PT_String (srv_node srv1) = (Inr True, n2)"
    using setPair_succeeds [OF n1(1) id(1) fits(1)] by (metis prod.collapse)
  obtain fr2 where s2: "peer_session (node_client n2) (I32 7) = Some (session_send fr2 (Some ?k) (new_session ''h'' ''p'' (I32 7)))"
    using setPair_effect [OF n1(1) id(1) n2, of ?k] n1(3,4) id(2) by (auto split: if_splits)
  have inv2: "node_inv n2"
    using setPair_locked_keeps(1) [OF n1(1), of 2 "''k''" "''new''" PT_String] run_job_keeps n2
    by (auto simp: setPair_segments split: prod.splits sum.splits)
  obtain n3 where n3: "run_job job n2 = (Inr (), n3)"
    using run_incoming_ok [OF fits(2), of cbs "[I32 7]" n2] b(2) by (metis prod.collapse)
  obtain fr3 where s3: "peer_session (node_client n3) (I32 7) = Some (session_send fr3 (Some (key_of p)) (session_send fr2 (Some ?k)
      (new_session ''h'' ''p'' (I32 7))))"
    by (rule late_job_session [OF inv2 _ _ n3 [unfolded b(2)] s2]) simp_all
  have live: "session_live (session_send fr3 (Some (key_of p)) (session_send fr2 (Some ?k) (new_session ''h'' ''p'' (I32 7))))"
    by (simp add: session_live_def idle_session_send new_session_def)
  have own: "node_inv (srv_node sample_server)" "srv_owner sample_server = I32 5"
    "client_identity (node_client (srv_node sample_server)) = (srv_owner sample_server, True)"
    "I32 7 \<in> set (subscribers_of (node_space (srv_node sample_server)) ?k)"
    by (simp_all add: sample_server_def client_identity_def)
  from late_fan_out_wins [OF own(1,3) f _ b(1), of 2 "''new''" PT_String n2 n3 ?k "I32 7" _ sample_server "[]" 3] show ?thesis
    using b(1) q n2 n3 s3 live own by fastforce
qed

text \<open>
  The same holds for the first value a new subscriber is sent, which is collected under the mutex and queued after
  it: a publication in between is queued first, and the subscriber ends with the value from before.
\<close>

lemma late_first_value_wins:
  assumes "node_inv n" "run_job (Updating [p] j) n = (Inr (), n')" "peer_session (node_client n') j = Some s"
    and "session_live s" "node_inv (srv_node srv)"
  shows "\<exists>older ob f. updates_of (key_of p) (session_out s) = older @ [ob] \<and>
    channel_read (ob_bytes ob @ rest) = Inr (f, rest) \<and>
    published (node_space (srv_node (snd (handle_frame later f srv)))) (key_of p) =
      (if getType p = PT_Invalid then None else Some (getValue p, getType p))"
proof -
  obtain c where "fanOutPair p [j] (node_client n) = Inr c" "node_client n' = c"
    using assms(2) by (auto simp: run_job.simps [of "Updating _ j"] split: sum.splits)
  then show ?thesis using fan_out_is_last [OF assms(1) _ _ _ _ assms(4,5), of "[j]" j p] assms(3) by simp
qed

text \<open>A removal that a peer requested is announced after the mutex is released, so behind an update published since.\<close>

lemma late_removal_follows_update:
  assumes "node_inv (srv_node srv)" "begin_removal m srv = (Announcing m subs, srv1)"
    and "client_setPair now (rp_key m) v ty (srv_node srv1) = (Inr True, n2)" "run_job (Announcing m subs) n2 = (Inr (), n3)"
    and "client_identity (node_client (srv_node srv)) = (srv_owner srv, True)" "j \<in> set subs"
    and "peer_session (node_client (srv_node srv)) j = Some s"
  obtains update removal where "frameOf encode_RemovePairRequest MT_PairRemoved m = Inr removal"
    "peer_session (node_client n3) j =
       Some (session_send removal None (session_send update (Some (PairKey (srv_owner srv) (rp_key m))) s))"
proof -
  let ?k = "PairKey (srv_owner srv) (rp_key m)"
  obtain e where e: "rp_owner m = srv_owner srv" "find_entry (rp_owner m) (rp_key m) (node_space (srv_node srv)) = Some e"
    "subs = subscribers e" "srv1 = set_space (removePair (rp_owner m) (rp_key m) (node_space (srv_node srv))) srv"
    using assms(2) by (auto simp: begin_removal_def split: option.splits if_splits)
  have inv: "node_inv (srv_node srv1)" using assms(1) by (simp add: e(4) node_invD ps_inv_intros)
  have id: "ready (node_client (srv_node srv1))" "owner_id (node_client (srv_node srv1)) = srv_owner srv"
    using assms(5) by (simp_all add: e(4) client_identity_def)
  have "subscribers_of (node_space (srv_node srv)) ?k = subs" "distinct subs"
    using e assms(1) by (auto simp: subscribers_of_def find_entry_def node_inv_def ps_inv_def entries_ok_def)
  then have subs: "subscribers_of (node_space (srv_node srv1)) ?k = subs" "distinct subs"
    using assms(6) by (auto simp: e(4) subscribers_removePair)
  have node: "node_client (srv_node srv1) = node_client (srv_node srv)" by (simp add: e(4))
  obtain update where "peer_session (node_client n2) j = Some (session_send update (Some ?k) s)"
    using setPair_effect [OF inv id(1) assms(3), of ?k] id(2) subs(1) assms(6,7) node by (metis option.map(2))
  moreover have "node_inv n2"
    using setPair_locked_keeps(1) [OF inv, of now "rp_key m" v ty] run_job_keeps assms(3)
    by (auto simp: setPair_segments split: prod.splits sum.splits)
  moreover obtain c where "fanOutRemoval m subs (node_client n2) = Inr c" "node_client n3 = c"
    using assms(4) by (auto simp: run_Announcing split: sum.splits)
  ultimately show thesis
    using own_client.fan_removal_sends [OF node_invD(2) subs(2), of n2 m c j] assms(6) that by auto
qed

text \<open>
  Two threads publish, and the one whose value was applied first posts its callbacks last: the strand then runs
  the callbacks of the older value after those of the newer one.
\<close>

lemma posts_out_of_order:
  "cbs1 \<noteq> [] \<Longrightarrow> cbs2 \<noteq> [] \<Longrightarrow>
   callback_strand (node_client (snd (run_job (Posting p1 cbs1) (snd (run_job (Posting p2 cbs2) n))))) =
     callback_strand (node_client n) @ [(p2, cbs2), (p1, cbs1)]"
  by (simp add: run_Posting notifyLocal_def)


subsection \<open>Jobs end\<close>

text \<open>The job after a segment on each of these nodes: what other threads made of the node in between.\<close>

fun job_after :: "'cb job \<Rightarrow> 'cb Node list \<Rightarrow> 'cb job result" where
  "job_after j [] = Inr j"
| "job_after j (n # ns) = (case fst (job_step j n) of Inl err \<Rightarrow> Inl err | Inr j' \<Rightarrow> job_after j' ns)"

lemma job_after_ends:
  "job_left j \<le> length ns \<Longrightarrow> job_after j ns = Inr Returned \<or> (\<exists>err. job_after j ns = Inl err)"
proof (induction ns arbitrary: j)
  case Nil
  then show ?case by (cases j) auto
next
  case (Cons n ns)
  obtain r n' where r: "job_step j n = (r, n')" by (cases "job_step j n")
  show ?case
  proof (cases "j = Returned")
    case True
    then show ?thesis using Cons.IH [of j] by simp
  next
    case False
    then have "job_left j' \<le> length ns" if "r = Inr j'" for j'
      using job_step_left [of j n j' n'] r that Cons.prems by simp
    then show ?thesis using Cons.IH r by (cases r) auto
  qed
qed

end
