(* ===== verification/Kernel.thy ===== *)
theory Kernel
  imports Segments
begin

text \<open>
  \<^verbatim>\<open>include/srnp/srnp_kernel.h\<close> and \<^verbatim>\<open>src/srnp_kernel.cpp\<close>: the one node of a process, how it is started and
  shut down, and the public functions, each of which needs a live node.

  The four pointers of \<^verbatim>\<open>KernelInstance\<close> are set by \<^verbatim>\<open>initialize\<close> and reset by \<^verbatim>\<open>shutdown\<close>, always together
  when either returns, so they are one field \<open>running\<close>: the server, which contains the node with the client
  and the pair space that the other pointers lead to. \<open>retired\<close> records the nodes that were shut down, as
  \<^verbatim>\<open>shutdown\<close> left them, \<open>in_progress\<close> holds what the threads have still to do after their critical sections. What the environment decides when a server starts is the argument \<open>dial\<close>: the
  exception of the constructor's socket calls, or the port we listen on and the bytes the master sends.

  Shown: in every history of a process the running node satisfies its invariant, is ready, and its two
  halves agree on the owner id; without a running node every call throws and changes nothing; a start that
  fails leaves no node behind; the options and the snapshot mean what they say.
\<close>

subsection \<open>Life cycle\<close>

record 'cb Kernel =
  running :: "'cb Server option"
  retired :: "'cb Server list"
  in_progress :: "'cb job list"

definition no_node :: "'cb Kernel" where
  "no_node = \<lparr>running = None, retired = [], in_progress = []\<rparr>"

fun what :: "error \<Rightarrow> string" where
  "what (DecodeError s) = s"
| "what (InitError s) = s"
| "what (SocketError s) = s"
| "what (LengthError s) = s"

definition ok :: "'cb Kernel \<Rightarrow> bool" where
  "ok k \<longleftrightarrow> running k \<noteq> None"

definition shutdown_server :: "'cb Server \<Rightarrow> 'cb Server" where
  "shutdown_server srv =
     server_stop (srv\<lparr>srv_node := (srv_node srv)\<lparr>node_client := client_close (node_client (srv_node srv))\<rparr>\<rparr>)"

text \<open>
  Joining the threads lets each of them finish the call it is in; a call that is left finds no session to send to,
  since the client was closed before.
\<close>

definition finish_jobs :: "'cb job list \<Rightarrow> 'cb Server \<Rightarrow> 'cb Server" where
  "finish_jobs js srv = srv\<lparr>srv_node := fold (\<lambda>j n. snd (run_job j n)) js (srv_node srv)\<rparr>"

definition shutdown :: "'cb Kernel \<Rightarrow> 'cb Kernel" where
  "shutdown k =
     (case running k of
        None \<Rightarrow> k
      | Some srv \<Rightarrow> \<lparr>running = None, retired = retired k @ [finish_jobs (in_progress k) (shutdown_server srv)],
          in_progress = []\<rparr>)"

text \<open>
  When the constructor of the server throws there is only a client without sessions, which \<^verbatim>\<open>shutdown\<close>
  releases; that leaves the kernel as it was.
\<close>

definition initialize ::
    "string \<Rightarrow> string \<Rightarrow> i32 \<Rightarrow> (16 word \<times> byte list) result \<Rightarrow> 'cb Kernel \<Rightarrow> unit result \<times> 'cb Kernel" where
  "initialize master_ip master_port desired_owner_id dial k =
     (if ok k then (Inl (InitError ''this process already has a running SRNP node''), k)
      else case bindE dial (\<lambda>(our_port, input).
                  new_server master_ip master_port our_port desired_owner_id input new_node) of
             Inl e \<Rightarrow>
               (Inl (InitError (''could not reach the master at '' @ master_ip @ '':'' @ master_port @
                  '' ('' @ what e @ '')'')), k)
           | Inr (srv, rest) \<Rightarrow>
               let k1 = k\<lparr>running := Some srv\<rparr>
               in if \<not> ready (node_client (srv_node srv))
                  then (Inl (InitError ''the master never sent us an owner id''), shutdown k1)
                  else (Inr (), k1))"

text \<open>The loop over the arguments after the program name; \<open>desired\<close> is what the last option said.\<close>

fun owner_id_option :: "string list \<Rightarrow> i32 \<Rightarrow> i32 result" where
  "owner_id_option [] desired = Inr desired"
| "owner_id_option (arg # args) desired =
     (if arg \<noteq> ''--owner-id'' then owner_id_option args desired
      else case args of
             [] \<Rightarrow> Inl (InitError ''--owner-id needs a number after it'')
           | text # _ \<Rightarrow>
               (case from_chars text of
                  Parsed v _ \<Rightarrow> owner_id_option args v
                | _ \<Rightarrow> Inl (InitError (''--owner-id got '' @ [CHR 0x22] @ text @ [CHR 0x22] @
                         '', which is not a number''))))"

definition initialize_argv ::
    "(string \<Rightarrow> string option) \<Rightarrow> string list \<Rightarrow> (16 word \<times> byte list) result \<Rightarrow> 'cb Kernel \<Rightarrow>
       unit result \<times> 'cb Kernel" where
  "initialize_argv getenv argv dial k =
     (case (getenv ''SRNP_MASTER_IP'', getenv ''SRNP_MASTER_PORT'') of
        (Some ip, Some prt) \<Rightarrow>
          (case owner_id_option (tl argv) kAnyOwner of
             Inl e \<Rightarrow> (Inl e, k)
           | Inr desired \<Rightarrow> initialize ip prt desired dial k)
      | _ \<Rightarrow> (Inl (InitError ''set SRNP_MASTER_IP and SRNP_MASTER_PORT before starting a node''), k))"

subsection \<open>The public functions\<close>

definition with_client :: "('cb Node \<Rightarrow> 'a result \<times> 'cb Node) \<Rightarrow> 'cb Kernel \<Rightarrow> 'a result \<times> 'cb Kernel" where
  "with_client f k =
     (case running k of
        None \<Rightarrow> (Inl (InitError ''no SRNP node is running. Call initialize() first''), k)
      | Some srv \<Rightarrow>
          (case f (srv_node srv) of (r, n) \<Rightarrow> (r, k\<lparr>running := Some (srv\<lparr>srv_node := n\<rparr>)\<rparr>)))"

definition reading :: "('cb Node \<Rightarrow> 'a) \<Rightarrow> 'cb Node \<Rightarrow> 'a result \<times> 'cb Node" where
  "reading f n = (Inr (f n), n)"

definition on_client :: "('cb Client \<Rightarrow> 'a result \<times> 'cb Client) \<Rightarrow> 'cb Node \<Rightarrow> 'a result \<times> 'cb Node" where
  "on_client f n = (case f (node_client n) of (r, c) \<Rightarrow> (r, n\<lparr>node_client := c\<rparr>))"

definition srnp_setPair :: "TimePoint \<Rightarrow> string \<Rightarrow> string \<Rightarrow> PairType \<Rightarrow> 'cb Kernel \<Rightarrow> bool result \<times> 'cb Kernel" where
  "srnp_setPair now key value ty = with_client (client_setPair now key value ty)"

definition srnp_setRemotePair :: "i32 \<Rightarrow> string \<Rightarrow> string \<Rightarrow> PairType \<Rightarrow> 'cb Kernel \<Rightarrow> bool result \<times> 'cb Kernel" where
  "srnp_setRemotePair owner key value ty = with_client (client_setRemotePair owner key value ty)"

definition srnp_setPairIndirectly ::
    "TimePoint \<Rightarrow> i32 \<Rightarrow> string \<Rightarrow> string \<Rightarrow> 'cb Kernel \<Rightarrow> bool result \<times> 'cb Kernel" where
  "srnp_setPairIndirectly now metaowner metakey value =
     with_client (client_setPairIndirectly now metaowner metakey value)"

definition srnp_setMetaPair ::
    "TimePoint \<Rightarrow> i32 \<Rightarrow> string \<Rightarrow> i32 \<Rightarrow> string \<Rightarrow> 'cb Kernel \<Rightarrow> bool result \<times> 'cb Kernel" where
  "srnp_setMetaPair now meta_owner meta_key owner key =
     with_client (client_setMetaPair now meta_owner meta_key owner key)"

definition srnp_initMetaPair :: "TimePoint \<Rightarrow> i32 \<Rightarrow> string \<Rightarrow> 'cb Kernel \<Rightarrow> bool result \<times> 'cb Kernel" where
  "srnp_initMetaPair now meta_owner meta_key = with_client (client_initMetaPair now meta_owner meta_key)"

definition srnp_removePair :: "string \<Rightarrow> 'cb Kernel \<Rightarrow> bool result \<times> 'cb Kernel" where
  "srnp_removePair key = with_client (client_removePair key)"

definition srnp_removeRemotePair :: "i32 \<Rightarrow> string \<Rightarrow> 'cb Kernel \<Rightarrow> bool result \<times> 'cb Kernel" where
  "srnp_removeRemotePair owner key = with_client (client_removeRemotePair owner key)"

definition srnp_getPair :: "i32 \<Rightarrow> string \<Rightarrow> 'cb Kernel \<Rightarrow> Pair option result \<times> 'cb Kernel" where
  "srnp_getPair owner key = with_client (reading (client_getPair owner key))"

definition srnp_getPairIndirectly :: "i32 \<Rightarrow> string \<Rightarrow> 'cb Kernel \<Rightarrow> Pair option result \<times> 'cb Kernel" where
  "srnp_getPairIndirectly metaowner metakey = with_client (reading (client_getPairIndirectly metaowner metakey))"

definition visible_pairs :: "'cb PairSpace \<Rightarrow> Pair list" where
  "visible_pairs s = filter (\<lambda>p. getType p \<noteq> PT_Invalid) (map (\<lambda>(k, e). pe_pair e) (getAllPairs s))"

definition snapshotPairs :: "'cb Kernel \<Rightarrow> Pair list result \<times> 'cb Kernel" where
  "snapshotPairs = with_client (reading (\<lambda>n. visible_pairs (node_space n)))"

definition srnp_components :: "'cb Kernel \<Rightarrow> (i32, ComponentInfo) std_map result \<times> 'cb Kernel" where
  "srnp_components = with_client (reading (\<lambda>n. components (node_client n)))"

definition srnp_registerCallback ::
    "TimePoint \<Rightarrow> i32 \<Rightarrow> string \<Rightarrow> 'cb \<Rightarrow> 'cb Kernel \<Rightarrow> CallbackHandle result \<times> 'cb Kernel" where
  "srnp_registerCallback now owner key cb =
     with_client (\<lambda>n. case client_registerCallback now owner key cb n of (h, n) \<Rightarrow> (Inr h, n))"

definition srnp_cancelCallback :: "CallbackHandle \<Rightarrow> 'cb Kernel \<Rightarrow> unit result \<times> 'cb Kernel" where
  "srnp_cancelCallback h = with_client (\<lambda>n. (Inr (), client_cancelCallback h n))"

definition srnp_registerSubscription ::
    "i32 \<Rightarrow> string \<Rightarrow> 'cb Kernel \<Rightarrow> SubscriptionHandle result \<times> 'cb Kernel" where
  "srnp_registerSubscription owner key = with_client (on_client (registerSubscription owner key))"

definition srnp_registerSubscription_any :: "string \<Rightarrow> 'cb Kernel \<Rightarrow> SubscriptionHandle result \<times> 'cb Kernel" where
  "srnp_registerSubscription_any key = with_client (on_client (registerSubscription_any key))"

definition srnp_cancelSubscription :: "SubscriptionHandle \<Rightarrow> 'cb Kernel \<Rightarrow> unit result \<times> 'cb Kernel" where
  "srnp_cancelSubscription h = with_client (on_client (cancelSubscription h))"

definition srnp_cancelSubscription_key :: "i32 \<Rightarrow> string \<Rightarrow> 'cb Kernel \<Rightarrow> unit result \<times> 'cb Kernel" where
  "srnp_cancelSubscription_key owner key = with_client (on_client (cancelSubscription_key owner key))"

definition srnp_cancelSubscription_any :: "string \<Rightarrow> 'cb Kernel \<Rightarrow> unit result \<times> 'cb Kernel" where
  "srnp_cancelSubscription_any key = with_client (on_client (cancelSubscription_any key))"

definition getOwnerID :: "'cb Kernel \<Rightarrow> i32 result \<times> 'cb Kernel" where
  "getOwnerID = with_client (reading (\<lambda>n. owner_id (node_client n)))"

subsection \<open>What every operation keeps\<close>

text \<open>
  The parts of a server that only starting and stopping it may change. A node operation is \<open>node_op\<close> when
  it keeps the node's invariant and its identity.
\<close>

definition srv_fixed :: "'cb Server \<Rightarrow> 16 word \<times> i32 \<times> MasterLink \<times> nat \<times> bool \<times> bool \<times> bool" where
  "srv_fixed srv = (srv_port srv, srv_owner srv, srv_link srv, srv_workers srv, srv_running srv,
     srv_close_posted srv, srv_stopped srv)"

definition srv_same :: "'cb Server \<Rightarrow> 'cb Server \<Rightarrow> bool" where
  "srv_same srv srv' \<longleftrightarrow> srv_fixed srv' = srv_fixed srv \<and>
     client_identity (node_client (srv_node srv')) = client_identity (node_client (srv_node srv))"

definition node_op :: "'cb Node \<Rightarrow> 'cb Node \<Rightarrow> bool" where
  "node_op n n' \<longleftrightarrow> (node_inv n \<longrightarrow> node_inv n') \<and>
     client_identity (node_client n') = client_identity (node_client n)"

lemma srv_same_refl [simp]: "srv_same srv srv"
  by (simp add: srv_same_def)

lemma srv_same_trans: "srv_same a b \<Longrightarrow> srv_same b c \<Longrightarrow> srv_same a c"
  by (simp add: srv_same_def)

lemma srv_same_set_space [simp]: "srv_same srv (set_space s srv)"
  by (simp add: srv_same_def srv_fixed_def set_space_def)

lemma fanOut_identity:
  "fanOutPair p subs c = Inr c' \<Longrightarrow> client_identity c' = client_identity c"
  "fanOutRemoval r subs c = Inr c' \<Longrightarrow> client_identity c' = client_identity c"
  by (auto simp: fanOutPair_def fanOutRemoval_def bindE_eq_Inr client_identity_def)

lemma srv_same_fan_out: "srv_same srv (snd (fan_out p subs srv))"
  by (auto simp: fan_out_def srv_same_def srv_fixed_def fanOut_identity split: sum.splits)

lemma srv_same_sendPairUpdates: "srv_same srv (snd (sendPairUpdates ps sub srv))"
proof (induction ps sub srv rule: sendPairUpdates.induct)
  case (2 p ps sub srv)
  obtain r srv1 where f: "sendPairUpdate p sub srv = (r, srv1)" by (cases "sendPairUpdate p sub srv")
  then have "srv_same srv srv1"
    using srv_same_fan_out [of srv p "[sub]"] by (simp add: sendPairUpdate_def)
  then show ?case using 2 f srv_same_trans by (cases r) auto
qed simp

lemma srv_same_applyAndNotify: "srv_same srv (snd (applyAndNotify now p srv))"
proof -
  have "srv_same srv (snd (fan_out q subs (srv\<lparr>srv_node := n\<rparr>)))"
    if "client_identity (node_client n) = client_identity (node_client (srv_node srv))" for q subs n
    using srv_same_trans [OF _ srv_same_fan_out, of srv "srv\<lparr>srv_node := n\<rparr>"] that
    by (simp add: srv_same_def srv_fixed_def)
  then show ?thesis
    by (auto simp: applyAndNotify_def Let_def set_space_def srv_same_def srv_fixed_def split: option.splits)
qed

lemma srv_same_handle_frame: "srv_same srv (snd (handle_frame now fr srv))"
proof -
  have "srv_same srv (snd (handleSubscription now fr srv))"
    using srv_same_trans [OF srv_same_set_space srv_same_sendPairUpdates]
    by (auto simp: handleSubscription_def Let_def split: sum.splits)
  moreover have "srv_same srv (snd (handleRemovePair fr srv))"
    by (auto simp: handleRemovePair_def Let_def srv_same_def srv_fixed_def set_space_def fanOut_identity
        split: sum.splits option.splits)
  ultimately show ?thesis
    using srv_same_applyAndNotify
    by (auto simp: handle_frame_def handleIncomingPair_def handlePairUpdate_def handlePairRemoved_def
        split: MessageType.splits sum.splits)
qed

lemma srv_same_session_run: "srv_same srv (snd (session_run clock i input srv))"
proof (induction clock i input srv rule: session_run.induct)
  case (1 clock i input srv)
  show ?case
  proof (cases "channel_read input")
    case (Inr r)
    obtain fr rest where r: "r = (fr, rest)" by (cases r)
    obtain res srv1 where h: "handle_frame (clock i) fr srv = (res, srv1)"
      by (cases "handle_frame (clock i) fr srv")
    then have "srv_same srv srv1" using srv_same_handle_frame [of srv "clock i" fr] by simp
    moreover have "srv_same srv1 (snd (session_run clock (Suc i) rest srv1))" if "res = Inr ()"
      using 1 [OF Inr r [symmetric] h [symmetric]] that by simp
    ultimately show ?thesis using Inr r h srv_same_trans
      by (cases res) (auto simp: session_run.simps [of clock i input])
  qed (simp add: session_run.simps)
qed

lemma onComponentUpdate_identity [simp]: "client_identity (onComponentUpdate u c) = client_identity c"
  by (simp add: onComponentUpdate_def addSession_def removeSession_def client_identity_def Let_def
      split: Operation.splits option.splits)

lemma link_run_keeps:
  "client_identity (snd (link_run ip input c)) = client_identity c \<and>
    (client_inv c \<longrightarrow> client_inv (snd (link_run ip input c)))"
proof (induction ip input c rule: link_run.induct)
  case (1 ip input c)
  then show ?case
    by (subst (1 2) link_run.simps) (auto simp: client_inv_onComponentUpdate split: sum.splits prod.splits)
qed

subsection \<open>Node operations\<close>

lemma node_opI:
  "(node_inv n \<Longrightarrow> node_inv n') \<Longrightarrow> client_identity (node_client n') = client_identity (node_client n) \<Longrightarrow>
   node_op n n'"
  by (simp add: node_op_def)

lemma node_op_refl [simp]: "node_op n n"
  by (simp add: node_op_def)

lemma node_op_space: "(ps_inv (node_space n) \<Longrightarrow> ps_inv s) \<Longrightarrow> node_op n (n\<lparr>node_space := s\<rparr>)"
  by (simp add: node_op_def node_inv_def)

lemma node_op_client:
  "(client_inv (node_client n) \<Longrightarrow> client_inv c) \<Longrightarrow> client_identity c = client_identity (node_client n) \<Longrightarrow>
   node_op n (n\<lparr>node_client := c\<rparr>)"
  by (simp add: node_op_def node_inv_def)

lemma node_op_send: "node_op n (n\<lparr>node_client := update_object sid (session_send fr key) (node_client n)\<rparr>)"
  by (rule node_op_client) (simp_all add: client_inv_send_on client_identity_def)

lemma notifyLocal_identity [simp]: "client_identity (notifyLocal p cbs c) = client_identity c"
  by (simp add: notifyLocal_def client_identity_def)

lemma node_op_setPair: "node_op n (snd (client_setPair now key value ty n))"
proof (rule node_opI)
  assume "node_inv n"
  then show "node_inv (snd (client_setPair now key value ty n))"
    by (auto simp: client_setPair_def Let_def node_inv_def ps_inv_addPair client_inv_notifyLocal
        dest: client_inv_fanOutPair split: option.splits sum.splits)
qed (auto simp: client_setPair_def Let_def fanOut_identity split: option.splits sum.splits)

lemma node_op_removePair: "node_op n (snd (client_removePair key n))"
proof (rule node_opI)
  assume "node_inv n"
  then show "node_inv (snd (client_removePair key n))"
    by (auto simp: client_removePair_def Let_def node_inv_def ps_inv_removePair
        dest: client_inv_fanOutRemoval split: option.splits sum.splits)
qed (auto simp: client_removePair_def Let_def fanOut_identity split: option.splits sum.splits)

lemma node_op_setRemotePair: "node_op n (snd (client_setRemotePair owner key value ty n))"
  by (simp add: client_setRemotePair_def node_op_send split: option.splits sum.splits)

lemma node_op_removeRemotePair: "node_op n (snd (client_removeRemotePair owner key n))"
  by (simp add: client_removeRemotePair_def node_op_send node_op_removePair split: option.splits sum.splits)

lemma node_op_meta:
  "node_op n (snd (client_setPairIndirectly now owner key value n))"
  "node_op n (snd (client_setMetaPair now owner key o2 k2 n))"
  "node_op n (snd (client_initMetaPair now owner key n))"
  by (simp_all add: client_setPairIndirectly_def client_setMetaPair_def client_initMetaPair_def
      node_op_setPair node_op_setRemotePair split: option.splits)

lemma node_op_registerCallback:
  assumes "next_callback_handle (node_space n) + 1 \<noteq> 0"
  shows "node_op n (snd (client_registerCallback now owner key cb n))"
proof -
  have "node_op n (n\<lparr>node_space := snd (addCallbackToAll cb (node_space n))\<rparr>)"
    "node_op n (n\<lparr>node_space := snd (addCallback now owner key cb (node_space n))\<rparr>)"
    using assms by (simp_all add: node_op_space ps_inv_addCallbackToAll ps_inv_addCallback)
  then show ?thesis by (simp add: client_registerCallback_def split_beta)
qed

lemma node_op_cancelCallback: "node_op n (client_cancelCallback h n)"
  by (simp add: client_cancelCallback_def node_op_space ps_inv_intros)

lemma subscription_identity:
  "client_identity (snd (send_subscriptions sids key b c)) = client_identity c"
  "client_identity (snd (sendSubscription owner key b c)) = client_identity c"
proof -
  show s: "client_identity (snd (send_subscriptions sids key b c)) = client_identity c" for sids c
    by (induction sids key b c rule: send_subscriptions.induct) (auto simp: client_identity_def split: sum.splits)
  show "client_identity (snd (sendSubscription owner key b c)) = client_identity c"
    by (auto simp: sendSubscription_def s split: option.splits sum.splits) (auto simp: client_identity_def)
qed

lemma sendSubscription_identity:
  assumes "sendSubscription owner key b c = (r, c')"
  shows "client_identity c' = client_identity c"
  using subscription_identity(2) [of owner key b c] assms by simp

lemma client_identity_table [simp]:
  "client_identity (c\<lparr>subscriptions := t\<rparr>) = client_identity c"
  "client_identity (c\<lparr>next_subscription_handle := h\<rparr>) = client_identity c"
  "client_identity (c\<lparr>callback_strand := q\<rparr>) = client_identity c"
  by (simp_all add: client_identity_def)

lemma table_identity:
  "client_identity (snd (registerSubscription owner key c)) = client_identity c"
  "client_identity (snd (cancelSubscription h c)) = client_identity c"
  "client_identity (snd (cancelSubscription_key owner key c)) = client_identity c"
  by (auto simp: registerSubscription_def cancelSubscription_def cancelSubscription_key_def Let_def
      dest!: sendSubscription_identity split: option.splits sum.splits prod.splits)

lemma node_op_on_client:
  assumes "client_inv (node_client n) \<Longrightarrow> client_inv (snd (f (node_client n)))"
    "client_identity (snd (f (node_client n))) = client_identity (node_client n)"
  shows "node_op n (snd (on_client f n))"
  using node_op_client [OF assms] by (simp add: on_client_def split_beta)

lemma node_op_registerSubscription:
  "next_subscription_handle (node_client n) + 1 \<noteq> 0 \<Longrightarrow> node_op n (snd (on_client (registerSubscription owner key) n))"
  by (rule node_op_on_client) (simp_all add: client_inv_registerSubscription table_identity)

lemma node_op_cancelSubscription:
  "node_op n (snd (on_client (cancelSubscription h) n))"
  "node_op n (snd (on_client (cancelSubscription_key owner key) n))"
  by (rule node_op_on_client; simp add: client_inv_cancelSubscription table_identity)+

lemma node_op_run:
  "node_op n (run_strand n)"
  "node_op n (n\<lparr>node_client := client_connected sid (node_client n)\<rparr>)"
  "node_op n (n\<lparr>node_client := client_run_step sid (node_client n)\<rparr>)"
  "node_op n (n\<lparr>node_client := client_drain sid succeeds (node_client n)\<rparr>)"
proof -
  show "node_op n (run_strand n)"
    by (auto simp: run_strand_def node_op_def node_inv_def split: list.splits)
  show "node_op n (n\<lparr>node_client := client_connected sid (node_client n)\<rparr>)"
    "node_op n (n\<lparr>node_client := client_run_step sid (node_client n)\<rparr>)"
    "node_op n (n\<lparr>node_client := client_drain sid succeeds (node_client n)\<rparr>)"
    by (rule node_op_client,
      auto simp: client_connected_def client_run_step_def client_drain_def client_identity_def
        intro!: client_inv_update intro: session_inv_ops)+
qed

lemmas node_ops = node_op_setPair node_op_removePair node_op_setRemotePair node_op_removeRemotePair node_op_meta
  node_op_registerCallback node_op_cancelCallback node_op_registerSubscription node_op_cancelSubscription
  node_op_run

subsection \<open>Histories of a process\<close>

text \<open>
  Everything that can happen to a process: a public call, bytes that a peer sends on a connection it opened
  to us, bytes of the master, the steps of the sessions' coroutines, of their drains and of the callback strand.
  The handling of a frame and \<^verbatim>\<open>setPair\<close> occur whole (\<open>Ev_peer\<close>, \<open>Ev_setPair\<close>) and in segments (\<open>Ev_begin\<close>,
  \<open>Ev_begin_setPair\<close>, \<open>Ev_job\<close>), between which anything else may happen.
\<close>

datatype 'cb event =
    Ev_initialize string string i32 "(16 word \<times> byte list) result"
  | Ev_shutdown
  | Ev_setPair TimePoint string string PairType
  | Ev_setRemotePair i32 string string PairType
  | Ev_setPairIndirectly TimePoint i32 string string
  | Ev_setMetaPair TimePoint i32 string i32 string
  | Ev_initMetaPair TimePoint i32 string
  | Ev_removePair string
  | Ev_removeRemotePair i32 string
  | Ev_registerCallback TimePoint i32 string 'cb
  | Ev_cancelCallback CallbackHandle
  | Ev_registerSubscription i32 string
  | Ev_cancelSubscription SubscriptionHandle
  | Ev_cancelSubscription_key i32 string
  | Ev_peer "nat \<Rightarrow> TimePoint" "byte list"
  | Ev_master "byte list"
  | Ev_connected nat
  | Ev_session nat
  | Ev_callbacks
  | Ev_drain nat bool
  | Ev_begin TimePoint Frame
  | Ev_begin_setPair TimePoint string string PairType
  | Ev_job nat

text \<open>
  A thread that has left its critical section works on a job of \<open>in_progress\<close> until the call returns or throws.
\<close>

definition start_job :: "'cb job \<Rightarrow> 'cb job list \<Rightarrow> 'cb job list" where
  "start_job j js = (if j = Returned then js else js @ [j])"

definition continue_job :: "nat \<Rightarrow> 'cb job result \<Rightarrow> 'cb job list \<Rightarrow> 'cb job list" where
  "continue_job i r js =
     (case r of
        Inl err \<Rightarrow> remove_nth i js
      | Inr j \<Rightarrow> if j = Returned then remove_nth i js else js[i := j])"

definition begin_call :: "'cb job result \<times> 'cb Server \<Rightarrow> 'cb Kernel \<Rightarrow> 'cb Kernel" where
  "begin_call r k =
     (case r of
        (Inl err, srv) \<Rightarrow> k\<lparr>running := Some srv\<rparr>
      | (Inr j, srv) \<Rightarrow> k\<lparr>running := Some srv, in_progress := start_job j (in_progress k)\<rparr>)"

definition continue_call :: "nat \<Rightarrow> 'cb Kernel \<Rightarrow> 'cb Kernel" where
  "continue_call i k =
     (case running k of
        None \<Rightarrow> k
      | Some srv \<Rightarrow>
          if i < length (in_progress k)
          then case job_step (in_progress k ! i) (srv_node srv) of
                 (r, n) \<Rightarrow> k\<lparr>running := Some (srv\<lparr>srv_node := n\<rparr>), in_progress := continue_job i r (in_progress k)\<rparr>
          else k)"

definition begin_setPair :: "TimePoint \<Rightarrow> string \<Rightarrow> string \<Rightarrow> PairType \<Rightarrow> 'cb Server \<Rightarrow> 'cb job result \<times> 'cb Server" where
  "begin_setPair now key val ty srv =
     (case setPair_locked now key val ty (srv_node srv) of
        (r, n) \<Rightarrow> (case r of Inl err \<Rightarrow> Inl err | Inr (b, j) \<Rightarrow> Inr j, srv\<lparr>srv_node := n\<rparr>))"

definition on_server :: "('cb Server \<Rightarrow> 'cb Server) \<Rightarrow> 'cb Kernel \<Rightarrow> 'cb Kernel" where
  "on_server f k = k\<lparr>running := map_option f (running k)\<rparr>"

definition on_node :: "('cb Node \<Rightarrow> 'cb Node) \<Rightarrow> 'cb Server \<Rightarrow> 'cb Server" where
  "on_node f srv = srv\<lparr>srv_node := f (srv_node srv)\<rparr>"

fun kernel_step :: "'cb event \<Rightarrow> 'cb Kernel \<Rightarrow> 'cb Kernel" where
  "kernel_step (Ev_initialize ip prt desired dial) k = snd (initialize ip prt desired dial k)"
| "kernel_step Ev_shutdown k = shutdown k"
| "kernel_step (Ev_setPair now key val ty) k = snd (srnp_setPair now key val ty k)"
| "kernel_step (Ev_setRemotePair owner key val ty) k = snd (srnp_setRemotePair owner key val ty k)"
| "kernel_step (Ev_setPairIndirectly now owner key val) k = snd (srnp_setPairIndirectly now owner key val k)"
| "kernel_step (Ev_setMetaPair now mo mk owner key) k = snd (srnp_setMetaPair now mo mk owner key k)"
| "kernel_step (Ev_initMetaPair now mo mk) k = snd (srnp_initMetaPair now mo mk k)"
| "kernel_step (Ev_removePair key) k = snd (srnp_removePair key k)"
| "kernel_step (Ev_removeRemotePair owner key) k = snd (srnp_removeRemotePair owner key k)"
| "kernel_step (Ev_registerCallback now owner key cb) k = snd (srnp_registerCallback now owner key cb k)"
| "kernel_step (Ev_cancelCallback h) k = snd (srnp_cancelCallback h k)"
| "kernel_step (Ev_registerSubscription owner key) k = snd (srnp_registerSubscription owner key k)"
| "kernel_step (Ev_cancelSubscription h) k = snd (srnp_cancelSubscription h k)"
| "kernel_step (Ev_cancelSubscription_key owner key) k = snd (srnp_cancelSubscription_key owner key k)"
| "kernel_step (Ev_peer clock input) k = on_server (\<lambda>srv. snd (session_run clock 0 input srv)) k"
| "kernel_step (Ev_master input) k =
     on_server (\<lambda>srv. on_node (\<lambda>n. n\<lparr>node_client :=
       snd (link_run (link_master_ip (srv_link srv)) input (node_client n))\<rparr>) srv) k"
| "kernel_step (Ev_connected sid) k =
     on_server (on_node (\<lambda>n. n\<lparr>node_client := client_connected sid (node_client n)\<rparr>)) k"
| "kernel_step (Ev_session sid) k =
     on_server (on_node (\<lambda>n. n\<lparr>node_client := client_run_step sid (node_client n)\<rparr>)) k"
| "kernel_step Ev_callbacks k = on_server (on_node run_strand) k"
| "kernel_step (Ev_drain sid succeeds) k =
     on_server (on_node (\<lambda>n. n\<lparr>node_client := client_drain sid succeeds (node_client n)\<rparr>)) k"
| "kernel_step (Ev_begin now fr) k =
     (case running k of None \<Rightarrow> k | Some srv \<Rightarrow> begin_call (begin_frame now fr srv) k)"
| "kernel_step (Ev_begin_setPair now key val ty) k =
     (case running k of None \<Rightarrow> k | Some srv \<Rightarrow> begin_call (begin_setPair now key val ty srv) k)"
| "kernel_step (Ev_job i) k = continue_call i k"

text \<open>Handles are 64 bits wide; a history stops before the counters wrap.\<close>

definition handles_left :: "'cb Kernel \<Rightarrow> bool" where
  "handles_left k \<longleftrightarrow> (case running k of None \<Rightarrow> True
     | Some srv \<Rightarrow> next_callback_handle (node_space (srv_node srv)) + 1 \<noteq> 0 \<and>
         next_subscription_handle (node_client (srv_node srv)) + 1 \<noteq> 0)"

inductive kernel_reach :: "'cb Kernel \<Rightarrow> bool" where
  reach_start: "kernel_reach no_node"
| reach_step: "kernel_reach k \<Longrightarrow> handles_left k \<Longrightarrow> kernel_reach (kernel_step ev k)"

definition node_up :: "'cb Server \<Rightarrow> bool" where
  "node_up srv \<longleftrightarrow> node_inv (srv_node srv) \<and> client_identity (node_client (srv_node srv)) = (srv_owner srv, True) \<and>
     srv_workers srv = 4 \<and> srv_running srv \<and> \<not> srv_stopped srv \<and> \<not> srv_close_posted srv"

definition node_down :: "'cb Server \<Rightarrow> bool" where
  "node_down srv \<longleftrightarrow> node_inv (srv_node srv) \<and> sessions (node_client (srv_node srv)) = m_empty \<and>
     srv_workers srv = 0 \<and> \<not> srv_running srv \<and> srv_stopped srv \<and> closed (link_channel (srv_link srv))"

definition kernel_inv :: "'cb Kernel \<Rightarrow> bool" where
  "kernel_inv k \<longleftrightarrow> pred_option node_up (running k) \<and> list_all node_down (retired k) \<and>
     (running k = None \<longrightarrow> in_progress k = []) \<and> Returned \<notin> set (in_progress k)"

lemma node_up_same: "node_up srv \<Longrightarrow> srv_same srv srv' \<Longrightarrow> node_inv (srv_node srv') \<Longrightarrow> node_up srv'"
  by (simp add: node_up_def srv_same_def srv_fixed_def)

lemma node_up_op: "node_up srv \<Longrightarrow> node_op (srv_node srv) n \<Longrightarrow> node_up (srv\<lparr>srv_node := n\<rparr>)"
  by (simp add: node_up_def node_op_def)

lemma node_inv_new [simp]: "node_inv new_node"
  by (simp add: node_inv_def new_node_def ps_inv_empty)

lemma new_server_up: "new_server ip prt p desired input new_node = Inr (srv, rest) \<Longrightarrow> node_up srv"
  by (auto simp: new_server_def startWorkers_def bindE_eq_Inr node_up_def node_inv_space node_invD
      own_client.welcome_identity own_client.welcome_inv)

lemma sessions_client_close [simp]: "sessions (client_close c) = m_empty"
proof -
  have "sessions (fold (\<lambda>sid. update_object sid session_close) sids c) = sessions c" for sids and c :: "'a Client"
    by (induction sids arbitrary: c) simp_all
  then show ?thesis by (simp add: client_close_def)
qed

lemma node_down_shutdown: "node_up srv \<Longrightarrow> node_down (shutdown_server srv)"
  by (auto simp: node_up_def node_down_def shutdown_server_def server_stop_def link_close_def channel_close_def
      close_flag_def close_locked_def node_inv_space node_invD client_inv_close)

lemma finish_jobs_keeps:
  "node_down srv \<Longrightarrow> node_down (finish_jobs js srv)"
proof -
  have "(node_inv n \<longrightarrow> node_inv (fold (\<lambda>j n. snd (run_job j n)) js n)) \<and>
      sessions (node_client (fold (\<lambda>j n. snd (run_job j n)) js n)) = sessions (node_client n)" for n :: "'a Node"
    by (induction js arbitrary: n) (use run_job_keeps in \<open>auto\<close>)
  then show "node_down srv \<Longrightarrow> node_down (finish_jobs js srv)"
    by (simp add: node_down_def finish_jobs_def)
qed

lemma kernel_inv_shutdown: "kernel_inv k \<Longrightarrow> kernel_inv (shutdown k)"
  by (auto simp: kernel_inv_def shutdown_def node_down_shutdown finish_jobs_keeps split: option.splits)

lemma kernel_inv_running: "kernel_inv k \<Longrightarrow> node_up srv \<Longrightarrow> kernel_inv (k\<lparr>running := Some srv\<rparr>)"
  by (simp add: kernel_inv_def)

lemma kernel_inv_initialize: "kernel_inv k \<Longrightarrow> kernel_inv (snd (initialize ip prt desired dial k))"
  by (auto simp: initialize_def Let_def bindE_eq_Inr intro!: kernel_inv_shutdown kernel_inv_running
      dest!: new_server_up split: sum.splits)

lemma kernel_inv_with_client:
  assumes "kernel_inv k" "\<And>srv. running k = Some srv \<Longrightarrow> node_op (srv_node srv) (snd (f (srv_node srv)))"
  shows "kernel_inv (snd (with_client f k))"
  using assms by (auto simp: with_client_def kernel_inv_def node_up_op split_beta split: option.splits)

lemma kernel_inv_on_server:
  assumes "kernel_inv k" "\<And>srv. node_up srv \<Longrightarrow> node_up (f srv)"
  shows "kernel_inv (on_server f k)"
  using assms by (cases "running k") (auto simp: on_server_def kernel_inv_def)

lemma kernel_inv_on_node:
  "kernel_inv k \<Longrightarrow> (\<And>srv. node_op (srv_node srv) (f srv (srv_node srv))) \<Longrightarrow>
   kernel_inv (on_server (\<lambda>srv. on_node (f srv) srv) k)"
  by (rule kernel_inv_on_server) (simp_all add: on_node_def node_up_op)

lemma node_up_session_run: "node_up srv \<Longrightarrow> node_up (snd (session_run clock i input srv))"
  by (rule node_up_same [OF _ srv_same_session_run]) (simp_all add: node_up_def session_run_inv)

lemma node_up_begin: "node_up srv \<Longrightarrow> node_up (snd (begin_frame now fr srv))"
proof -
  assume up: "node_up srv"
  obtain s where "snd (begin_frame now fr srv) = set_space s srv" "ps_inv (node_space (srv_node srv)) \<longrightarrow> ps_inv s"
    using locked_step_begin [of srv now fr] by (auto simp: locked_step_def)
  then show ?thesis using up node_up_same [OF up srv_same_set_space, of s] by (simp add: node_up_def node_invD)
qed

lemma node_op_segments:
  "node_op n (snd (setPair_locked now key val ty n))" "node_op n (snd (job_step j n))"
  by (simp_all add: node_op_def setPair_locked_keeps job_step_keeps)

lemma kernel_inv_begin:
  assumes "kernel_inv k" "node_up (snd r)"
  shows "kernel_inv (begin_call r k)"
  using assms by (cases r) (auto simp: begin_call_def kernel_inv_def start_job_def split: sum.splits)

lemma remove_nth_subset: "set (remove_nth i xs) \<subseteq> set xs"
  by (auto simp: remove_nth_def dest: in_set_takeD in_set_dropD)

lemma continue_job_mem:
  "j \<in> set (continue_job i r js) \<Longrightarrow> j \<in> set js \<or> (r = Inr j \<and> j \<noteq> Returned)"
  using remove_nth_subset [of i js] set_update_subset_insert [of js i]
  by (auto simp: continue_job_def split: sum.splits if_splits)

lemma kernel_inv_continue:
  assumes "kernel_inv k"
  shows "kernel_inv (continue_call i k)"
proof (cases "running k")
  case (Some srv)
  obtain r n where r: "job_step (in_progress k ! i) (srv_node srv) = (r, n)"
    by (cases "job_step (in_progress k ! i) (srv_node srv)")
  then have "node_up (srv\<lparr>srv_node := n\<rparr>)"
    using assms Some node_op_segments(2) [of "srv_node srv" "in_progress k ! i"] by (simp add: kernel_inv_def node_up_op)
  then show ?thesis using assms Some r continue_job_mem [of Returned i r "in_progress k"]
    by (auto simp: continue_call_def kernel_inv_def)
qed (use assms in \<open>simp add: continue_call_def\<close>)

lemma node_op_link_run: "node_op n (n\<lparr>node_client := snd (link_run ip input (node_client n))\<rparr>)"
  by (rule node_op_client) (simp_all add: link_run_keeps)

lemmas api_defs = srnp_setPair_def srnp_setRemotePair_def srnp_setPairIndirectly_def srnp_setMetaPair_def
  srnp_initMetaPair_def srnp_removePair_def srnp_removeRemotePair_def srnp_registerCallback_def
  srnp_cancelCallback_def srnp_registerSubscription_def srnp_registerSubscription_any_def
  srnp_cancelSubscription_def srnp_cancelSubscription_key_def srnp_cancelSubscription_any_def
  srnp_getPair_def srnp_getPairIndirectly_def snapshotPairs_def srnp_components_def getOwnerID_def
  registerSubscription_any_def cancelSubscription_any_def

lemma kernel_inv_step:
  assumes "kernel_inv k" "handles_left k"
  shows "kernel_inv (kernel_step ev k)"
proof (cases ev)
  case (Ev_begin now fr)
  have "node_up (snd (begin_frame now fr srv))" if "running k = Some srv" for srv
    using assms(1) that by (simp add: kernel_inv_def node_up_begin)
  then show ?thesis using assms(1) Ev_begin by (simp add: kernel_inv_begin split: option.splits)
next
  case (Ev_begin_setPair now key val ty)
  have "node_up (snd (begin_setPair now key val ty srv))" if "running k = Some srv" for srv
    using assms(1) that by (simp add: kernel_inv_def begin_setPair_def split_beta node_up_op node_op_segments)
  then show ?thesis using assms(1) Ev_begin_setPair by (simp add: kernel_inv_begin split: option.splits)
next
  case (Ev_peer clock input)
  then show ?thesis using assms(1) by (simp add: kernel_inv_on_server node_up_session_run)
next
  case (Ev_registerCallback now owner key cb)
  then show ?thesis using assms node_op_registerCallback
    by (auto simp: api_defs handles_left_def split_beta intro!: kernel_inv_with_client)
next
  case (Ev_registerSubscription owner key)
  then show ?thesis using assms node_op_registerSubscription
    by (auto simp: api_defs handles_left_def intro!: kernel_inv_with_client)
qed (use assms(1) in \<open>simp_all add: api_defs kernel_inv_with_client kernel_inv_initialize kernel_inv_shutdown
      kernel_inv_on_node node_op_link_run node_ops kernel_inv_continue\<close>)

lemma kernel_reach_inv: "kernel_reach k \<Longrightarrow> kernel_inv k"
  by (induction rule: kernel_reach.induct) (simp_all add: kernel_inv_step, simp add: kernel_inv_def no_node_def)

subsection \<open>Snapshots and options\<close>

lemma with_client_none:
  "\<not> ok k \<Longrightarrow> with_client f k = (Inl (InitError ''no SRNP node is running. Call initialize() first''), k)"
  by (simp add: with_client_def ok_def)

lemma with_client_reading: "running k = Some srv \<Longrightarrow> with_client (reading f) k = (Inr (f (srv_node srv)), k)"
  by (simp add: with_client_def reading_def)

lemma visible_pairs_mem:
  assumes "ps_inv s"
  shows "p \<in> set (visible_pairs s) \<longleftrightarrow>
    getType p \<noteq> PT_Invalid \<and> (\<exists>e. m_find (pairs s) (key_of p) = Some e \<and> pe_pair e = p)"
proof -
  have "key_of (pe_pair e) = k" if "m_find (pairs s) k = Some e" for k e
    using assms that by (simp add: ps_inv_def entries_ok_def)
  then show ?thesis
    by (force simp: visible_pairs_def getAllPairs_def smap.mem_entries_iff)
qed

lemma visible_pairs_sorted:
  assumes "ps_inv s"
  shows "sorted_wrt (<) (map key_of (visible_pairs s))"
proof -
  have keys: "map (key_of \<circ> (\<lambda>(k, e). pe_pair e)) (m_entries (pairs s)) = map fst (m_entries (pairs s))"
    using assms by (auto simp: ps_inv_def entries_ok_def smap.mem_entries_iff)
  have "sorted_wrt (<) (map key_of (map (\<lambda>(k, e). pe_pair e) (m_entries (pairs s))))"
    unfolding map_map keys by (rule smap.entries_ascending)
  then show ?thesis
    unfolding visible_pairs_def getAllPairs_def by (simp add: sorted_wrt_map sorted_wrt_filter)
qed

lemma getPair_visible:
  assumes "node_inv n"
  shows "client_getPair (getOwner p) (getKey p) n = Some p \<longleftrightarrow> p \<in> set (visible_pairs (node_space n))"
  using visible_pairs_mem [OF node_invD(1) [OF assms], of p]
  by (auto simp: client_getPair_def copyOf_def find_entry_def key_of_def split: option.splits)

text \<open>An owner id that is printed behind the option is the one the node asks for.\<close>

lemma owner_id_option_roundtrip:
  "''--owner-id'' \<notin> set before \<Longrightarrow> ''--owner-id'' \<notin> set after \<Longrightarrow>
   owner_id_option (before @ [''--owner-id'', show_int (ival i)] @ after) desired = Inr i"
proof (induction before arbitrary: desired)
  case Nil
  have skip: "''--owner-id'' \<notin> set args \<Longrightarrow> owner_id_option args d = Inr d" for args d
    by (induction args) auto
  have "show_int (ival i) \<noteq> ''--owner-id''"
  proof
    assume "show_int (ival i) = ''--owner-id''"
    then have "from_chars ''--owner-id'' = Parsed i []"
      using from_chars_show_int [of "[]" "ival i"] ival_range [of i] by simp
    then show False by (simp add: from_chars_def is_digit_def)
  qed
  then show ?case using Nil from_chars_show_int [of "[]" "ival i"] ival_range [of i] by (simp add: skip)
qed auto

subsection \<open>Properties\<close>

text \<open>
  C5. In every history of a process, as long as a node runs its invariant holds, it is ready, server and client
  agree on the owner id the master assigned, and its four threads are running; every node that was shut
  down is stopped for good, with its invariant, no thread, no session in its table and its link to the master closed;
  and no call is in progress once no node runs. A history interleaves the segments of calls and handlers at will.
\<close>

theorem running_node_sound:
  assumes "kernel_reach k"
  shows "(\<forall>srv. running k = Some srv \<longrightarrow> node_inv (srv_node srv) \<and> ready (node_client (srv_node srv)) \<and>
      owner_id (node_client (srv_node srv)) = srv_owner srv \<and> srv_workers srv = 4 \<and> \<not> srv_stopped srv) \<and>
    (\<forall>srv \<in> set (retired k). srv_stopped srv \<and> srv_workers srv = 0 \<and> node_inv (srv_node srv) \<and>
      sessions (node_client (srv_node srv)) = m_empty \<and> closed (link_channel (srv_link srv))) \<and>
    (\<not> ok k \<longrightarrow> in_progress k = [])"
  using kernel_reach_inv [OF assms]
  by (auto simp: kernel_inv_def node_up_def node_down_def client_identity_def list_all_iff ok_def)

text \<open>A process that starts a node, publishes, and shuts it down.\<close>

definition sample_welcome :: MasterMessage where
  "sample_welcome = \<lparr>mm_owner = I32 5, mm_all_components = []\<rparr>"

definition sample_reply :: "byte list" where
  "sample_reply = projr (frameOf encode_MasterMessage MT_MasterMessage sample_welcome)"

definition sample_start :: "nat event" where
  "sample_start = Ev_initialize ''10.0.0.1'' ''33133'' kAnyOwner (Inr (4000, sample_reply))"

lemma sample_reply_ok:
  "frameOf encode_MasterMessage MT_MasterMessage sample_welcome = Inr sample_reply" "plausible sample_welcome"
  by (simp_all add: sample_reply_def sample_welcome_def frameOf_def encode_MasterMessage_eq all_fit_def
      frame_def kMaxPayload_def plausible_def)

lemma initialize_welcomed:
  fixes k :: "'cb Kernel"
  assumes "frameOf encode_MasterMessage MT_MasterMessage w = Inr fr" "plausible w" "\<not> ok k"
  obtains srv where "initialize ip prt desired (Inr (p, fr @ rest)) k = (Inr (), k\<lparr>running := Some srv\<rparr>)"
    "srv_owner srv = mm_owner w" "srv_node srv = new_node\<lparr>node_client := onWelcome (welcomed ip w) new_client\<rparr>"
proof -
  obtain srv :: "'cb Server" where srv: "new_server ip prt p desired (fr @ rest) new_node = Inr (srv, rest)"
    "srv_owner srv = mm_owner w" "srv_node srv = new_node\<lparr>node_client := onWelcome (welcomed ip w) new_client\<rparr>"
    using new_server_starts [OF assms(1,2)] by (metis Node.select_convs(2) new_node_def)
  then have "ready (node_client (srv_node srv))" by (simp add: onWelcome_def)
  then have "initialize ip prt desired (Inr (p, fr @ rest)) k = (Inr (), k\<lparr>running := Some srv\<rparr>)"
    using srv(1) assms(3) by (simp add: initialize_def)
  then show thesis using that srv(2,3) by blast
qed

theorem running_node_sound_witness:
  "\<exists>srv. running (kernel_step sample_start no_node) = Some srv \<and>
     owner_id (node_client (srv_node srv)) = srv_owner srv \<and> srv_owner srv = I32 5 \<and>
     kernel_reach (kernel_step sample_start no_node)"
proof -
  let ?k = "kernel_step sample_start no_node"
  have "kernel_reach ?k"
    by (rule reach_step [OF reach_start]) (simp add: handles_left_def no_node_def)
  moreover have "\<not> ok (no_node :: nat Kernel)" by (simp add: ok_def no_node_def)
  then obtain srv where "initialize ''10.0.0.1'' ''33133'' kAnyOwner (Inr (4000, sample_reply @ [])) no_node =
      (Inr (), (no_node :: nat Kernel)\<lparr>running := Some srv\<rparr>)" "srv_owner srv = mm_owner sample_welcome"
    by (rule initialize_welcomed [OF sample_reply_ok])
  then have "running ?k = Some srv" "srv_owner srv = I32 5"
    by (simp_all add: sample_start_def sample_welcome_def)
  ultimately show ?thesis using running_node_sound [of ?k] by auto
qed



text \<open>
  Before a node is started and after it was shut down, every public function throws the same error and
  changes nothing.
\<close>

lemma calls_need_a_node:
  assumes "\<not> ok k"
  defines "e \<equiv> InitError ''no SRNP node is running. Call initialize() first''"
  shows "srnp_setPair now key val ty k = (Inl e, k) \<and> srnp_setRemotePair owner key val ty k = (Inl e, k) \<and>
    srnp_setPairIndirectly now owner key val k = (Inl e, k) \<and> srnp_setMetaPair now mo mk owner key k = (Inl e, k) \<and>
    srnp_initMetaPair now mo mk k = (Inl e, k) \<and> srnp_removePair key k = (Inl e, k) \<and>
    srnp_removeRemotePair owner key k = (Inl e, k) \<and> srnp_getPair owner key k = (Inl e, k) \<and>
    srnp_getPairIndirectly owner key k = (Inl e, k) \<and> snapshotPairs k = (Inl e, k) \<and>
    srnp_components k = (Inl e, k) \<and> srnp_registerCallback now owner key cb k = (Inl e, k) \<and>
    srnp_cancelCallback h k = (Inl e, k) \<and> srnp_registerSubscription owner key k = (Inl e, k) \<and>
    srnp_cancelSubscription h k = (Inl e, k) \<and> getOwnerID k = (Inl e, k)"
  using assms(1) by (simp add: api_defs with_client_none e_def)

text \<open>
  C32. A snapshot and \<^verbatim>\<open>getPair\<close> agree: in every reachable state the snapshot lists, in key order and without
  repetition, exactly the pairs that \<^verbatim>\<open>getPair\<close> finds under their own owner and key, and taking it changes
  nothing.
\<close>

theorem snapshot_agrees_with_getPair:
  assumes "kernel_reach k" "ok k"
  shows "\<exists>ps. snapshotPairs k = (Inr ps, k) \<and> sorted_wrt (<) (map key_of ps) \<and>
    (\<forall>p. p \<in> set ps \<longleftrightarrow> srnp_getPair (getOwner p) (getKey p) k = (Inr (Some p), k))"
proof -
  obtain srv where srv: "running k = Some srv" using assms(2) by (auto simp: ok_def)
  then have inv: "node_inv (srv_node srv)"
    using kernel_reach_inv [OF assms(1)] by (simp add: kernel_inv_def node_up_def)
  show ?thesis
    using inv getPair_visible [OF inv] visible_pairs_sorted [OF node_invD(1) [OF inv]]
    by (intro exI [of _ "visible_pairs (node_space (srv_node srv))"])
      (simp add: snapshotPairs_def srnp_getPair_def with_client_reading [OF srv])
qed

theorem snapshot_agrees_with_getPair_witness:
  "\<exists>ps. snapshotPairs (kernel_step sample_start no_node) = (Inr ps, kernel_step sample_start no_node) \<and>
     sorted_wrt (<) (map key_of ps)"
proof -
  let ?k = "kernel_step sample_start no_node"
  have "kernel_reach ?k" by (rule reach_step [OF reach_start]) (simp add: handles_left_def no_node_def)
  moreover have "\<not> ok (no_node :: nat Kernel)" by (simp add: ok_def no_node_def)
  then obtain srv where "initialize ''10.0.0.1'' ''33133'' kAnyOwner (Inr (4000, sample_reply @ [])) no_node =
      (Inr (), (no_node :: nat Kernel)\<lparr>running := Some srv\<rparr>)"
    by (rule initialize_welcomed [OF sample_reply_ok])
  then have "ok ?k" by (simp add: sample_start_def ok_def)
  ultimately show ?thesis using snapshot_agrees_with_getPair [of ?k] by blast
qed

end
