(* ===== verification/Membership.thy ===== *)
theory Membership
  imports Master_Hub Kernel
begin

text \<open>
  The master and a node together: what the server of a component (\<^verbatim>\<open>src/server.cpp\<close>) makes of the bytes that
  its session at the master (\<^verbatim>\<open>src/master_hub.cpp\<close>) writes.

  \<open>scripted\<close> is the protocol on such a session: one welcome with the id of the session, then updates only. It holds
  of every live registered session in every reachable master, so the node's synchronous registration and its
  read loop take the stream apart without an error, and the list of peers that results is the master's table.
\<close>

subsection \<open>What the master writes on a session\<close>

definition is_welcome :: "i32 \<Rightarrow> Outbound \<Rightarrow> bool" where
  "is_welcome owner ob \<longleftrightarrow> (\<exists>w. frameOf encode_MasterMessage MT_MasterMessage w = Inr (ob_bytes ob) \<and>
     plausible w \<and> mm_owner w = owner)"

definition is_update :: "Outbound \<Rightarrow> bool" where
  "is_update ob \<longleftrightarrow> (\<exists>u. frameOf encode_UpdateComponents MT_UpdateComponents u = Inr (ob_bytes ob))"

definition script :: "i32 \<Rightarrow> Outbound list \<Rightarrow> bool" where
  "script owner obs \<longleftrightarrow> obs \<noteq> [] \<and> is_welcome owner (hd obs) \<and> list_all is_update (tl obs)"

definition scripted :: "HubSession \<Rightarrow> bool" where
  "scripted s \<longleftrightarrow> (hs_stage s = Registered \<and> hs_live s \<longrightarrow> script (hs_owner s) (stream (hs_channel s)))"

text \<open>The sessions in \<open>news\<close> are in the middle of their introduction.\<close>

definition scripts_but :: "nat set \<Rightarrow> MasterHub \<Rightarrow> bool" where
  "scripts_but news hub \<longleftrightarrow> (\<forall>sid < length (hub_objects hub).
     plain (hub_objects hub ! sid) \<and> (sid \<notin> news \<longrightarrow> scripted (hub_objects hub ! sid)))"

lemma scripts_but_update:
  assumes "scripts_but news hub" "sid < length (hub_objects hub)"
    and "plain (hub_objects hub ! sid) \<Longrightarrow> plain (f (hub_objects hub ! sid))"
    and "plain (hub_objects hub ! sid) \<Longrightarrow> sid \<notin> news' \<Longrightarrow> scripted (f (hub_objects hub ! sid))"
    and "news \<subseteq> insert sid news'"
  shows "scripts_but news' (hub_update sid f hub)"
  using assms by (auto simp: scripts_but_def)

lemma scripted_send:
  assumes "plain s" "scripted s" "is_update \<lparr>ob_bytes = fr, ob_key = None\<rparr>"
  shows "scripted (hub_send fr s)"
proof -
  have "script (hs_owner s) (stream (hs_channel (hub_send fr s)))" if "hs_stage s = Registered" "hs_live (hub_send fr s)"
  proof -
    have "hs_live s" "stream (hs_channel (hub_send fr s)) = stream (hs_channel s) @ [\<lparr>ob_bytes = fr, ob_key = None\<rparr>]"
      using channel_send_live [of "hs_channel s" fr] assms(1) that(2)
      by (simp_all add: plain_def hs_live_def hub_send_def)
    then show ?thesis using assms(2,3) that(1) by (auto simp: scripted_def script_def)
  qed
  then show ?thesis by (simp add: scripted_def)
qed

lemma scripts_but_sendToAll:
  assumes "scripts_but news hub" "sendToAll u hub = Inr hub'"
  shows "scripts_but news hub'"
proof -
  obtain fr where fr: "is_update \<lparr>ob_bytes = fr, ob_key = None\<rparr>"
    and hub': "hub' = fold (\<lambda>sid. hub_update sid (hub_send fr)) (targets (ci_owner (uc_component u)) hub) hub"
    using assms(2) by (auto simp: sendToAll_def bindE_eq_Inr is_update_def)
  have step: "scripts_but news (hub_update sid (hub_send fr) h)" if "scripts_but news h" for sid h
  proof (cases "sid < length (hub_objects h)")
    case True
    then show ?thesis using that fr
      by (intro scripts_but_update [OF that]) (auto simp: plain_hub_send scripts_but_def intro: scripted_send)
  qed (use that in \<open>simp add: hub_update_def list_update_beyond\<close>)
  have "scripts_but news (fold (\<lambda>sid. hub_update sid (hub_send fr)) sids h)" if "scripts_but news h" for sids h
    using that by (induction sids arbitrary: h) (simp_all add: step)
  then show ?thesis using assms(1) by (simp add: hub')
qed

lemma scripts_goodbye:
  assumes "scripts_but news hub" "sid < length (hub_objects hub)" "news \<subseteq> {sid}"
  shows "scripts_but {} (hub_goodbye sid hub)"
proof -
  let ?o = "hs_owner (hub_objects hub ! sid)"
  let ?u = "\<lparr>uc_operation = Op_Remove, uc_component = \<lparr>ci_owner = ?o, ci_ip = [], ci_port = []\<rparr>\<rparr>"
  have removed: "scripts_but news (removeComponent ?o hub)"
    using assms(1) by (simp add: scripts_but_def removeComponent_def)
  have len: "length (hub_objects h) = length (hub_objects hub)" if "sendToAll ?u (removeComponent ?o hub) = Inr h" for h
    using that by (auto simp: sendToAll_def bindE_eq_Inr removeComponent_def)
  define h where "h = (if ?o = kAnyOwner then hub else case sendToAll ?u (removeComponent ?o hub) of
      Inl err \<Rightarrow> removeComponent ?o hub | Inr h \<Rightarrow> h)"
  have "scripts_but news h" "length (hub_objects h) = length (hub_objects hub)"
    using removed assms(1) scripts_but_sendToAll [OF removed] len
    by (auto simp: h_def removeComponent_def split: sum.splits)
  then have "scripts_but {} (hub_update sid finish h)"
    using assms(2,3) by (intro scripts_but_update [of news]) (auto simp: plain_finish scripted_def)
  moreover have "hub_goodbye sid hub = hub_update sid finish h"
    by (simp add: hub_goodbye_def h_def finish_def [abs_def] Let_def split: sum.splits)
  ultimately show ?thesis by simp
qed

lemma scripted_welcome:
  assumes "plain s" "stream (hs_channel s) = []" "frameOf encode_MasterMessage MT_MasterMessage w = Inr fr"
    and "plausible w" "hs_owner s = mm_owner w"
  shows "scripted (hub_send fr s)"
  using channel_send_live [of "hs_channel s" fr] assms
  by (auto simp: scripted_def script_def is_welcome_def plain_def hs_live_def hub_send_def)

lemma scripts_greet:
  assumes "scripts_but {} hub" "sid < length (hub_objects hub)" "stream (hs_channel (hub_objects hub ! sid)) = []"
    and "plausible w" "hub_greet w sid hub = (res, hub')"
  shows "scripts_but {} (case res of Inl err \<Rightarrow> hub_goodbye sid hub' | Inr _ \<Rightarrow> hub')"
proof -
  let ?f = "\<lambda>s. s\<lparr>hs_owner := mm_owner w, hs_stage := Registered\<rparr>"
  let ?h = "hub_update sid ?f hub"
  have h: "scripts_but {sid} ?h" using assms(1,2) by (intro scripts_but_update [of "{}"]) (auto simp: plain_def)
  show ?thesis
  proof (cases "frameOf encode_MasterMessage MT_MasterMessage w")
    case (Inl err)
    then have "res = Inl err" "hub' = ?h" using assms(5) by (simp_all add: hub_greet_def Let_def)
    then show ?thesis using scripts_goodbye [OF h] assms(2) by simp
  next
    case (Inr fr)
    let ?h2 = "hub_update sid (hub_send fr) ?h"
    have "scripted (hub_send fr (?f (hub_objects hub ! sid)))"
      using assms(1-4) Inr by (intro scripted_welcome) (auto simp: scripts_but_def plain_def)
    then have h2: "scripts_but {} ?h2"
      using assms(2) by (intro scripts_but_update [OF h]) (simp_all add: plain_hub_send)
    show ?thesis
    proof (cases res)
      case err: (Inl err)
      then have "hub' = ?h2" using assms(5) Inr by (auto simp: hub_greet_def Let_def split: sum.splits)
      then show ?thesis using scripts_goodbye [OF h2] assms(2) err by simp
    next
      case ok: (Inr u)
      then show ?thesis using assms(5) Inr scripts_but_sendToAll [OF h2]
        by (auto simp: hub_greet_def Let_def split: sum.splits)
    qed
  qed
qed

lemma scripts_hello:
  assumes "hub_inv hub" "scripts_but {} hub" "sid < length (hub_objects hub)"
    and "hs_stage (hub_objects hub ! sid) = Waiting" "hub_hello draw sid f hub = Some hub'"
    and "length (m_entries (hub_sessions hub)) \<le> kMaxPayload div sizeof_ComponentInfo"
  shows "scripts_but {} hub'"
proof -
  obtain res hub1 where intro: "hub_introduce draw sid f hub = Some (res, hub1)"
    and hub': "hub' = (case res of Inl err \<Rightarrow> hub_goodbye sid hub1 | Inr _ \<Rightarrow> hub1)"
    using assms(5) by (auto simp: hub_hello_def)
  show ?thesis
  proof (cases "h_type (fr_header f) = MT_IndicatePresence \<and>
      (\<exists>p. decodePayload decode_IndicatePresence (fr_payload f) = Inr p)")
    case False
    then have "hub1 = hub" "\<exists>err. res = Inl err"
      using intro by (auto simp: hub_introduce_def split: if_splits sum.splits)
    then show ?thesis using scripts_goodbye [OF assms(2,3)] hub' by auto
  next
    case True
    then obtain p where p: "decodePayload decode_IndicatePresence (fr_payload f) = Inr p" by blast
    let ?h = "hub_update sid (\<lambda>s. s\<lparr>hs_port := ip_port p\<rparr>) hub"
    obtain w hub2 where reg: "registerComponent draw sid p ?h = Some (w, hub2)"
      and greet: "hub_greet w sid hub2 = (res, hub1)"
      using intro True p by (auto simp: hub_introduce_def Let_def)
    from reg have w: "plausible w" "hub_objects hub2 = hub_objects ?h"
      using assms(6) by (auto simp: registerComponent_def plausible_def all_components_def)
    have "scripts_but {} ?h"
      using assms(2-4) by (intro scripts_but_update [of "{}"]) (auto simp: plain_def scripted_def)
    then have "scripts_but {} hub2" "sid < length (hub_objects hub2)"
      using w(2) assms(3) by (simp_all add: scripts_but_def)
    moreover have "stream (hs_channel (hub_objects hub2 ! sid)) = []"
      using assms(1,3,4) stages_okD(6) by (auto simp: w(2) hub_inv_def)
    ultimately show ?thesis using scripts_greet [OF _ _ _ w(1) greet] hub' by simp
  qed
qed

lemma hub_reach_scripts:
  assumes "hub_reach draw hub" "\<And>seed. 1000 \<le> ival (draw seed)"
  shows "hub_inv hub \<and> scripts_but {} hub"
  using assms(1)
proof (induction rule: hub_reach.induct)
  case start
  show ?case by (simp add: hub_inv_new) (simp add: scripts_but_def new_hub_def)
next
  case (accept hub address)
  then have "scripts_but {} (hub_accept address hub)"
    by (auto simp: scripts_but_def hub_accept_def less_Suc_eq nth_append plain_def scripted_def)
  then show ?case using accept by (simp add: accept_inv)
next
  case (hello hub sid f hub')
  then show ?case using hello_inv [OF _ hello.hyps(2-4) assms(2)] scripts_hello by blast
next
  case (goodbye hub sid)
  then show ?case using goodbye_inv [of hub sid "{}"] scripts_goodbye [of "{}" hub sid] by (simp add: hub_inv_def)
next
  case (drain hub sid)
  then have ch: "ch_inv (hs_channel (hub_objects hub ! sid))" by (simp add: scripts_but_def plain_def)
  have "scripts_but {} (hub_drain sid hub)"
    unfolding hub_drain_def using drain run_drain_one [OF ch]
    by (intro scripts_but_update [of "{}"]) (auto simp: plain_def scripted_def scripts_but_def hs_live_def)
  then show ?case using drain by (simp add: drain_inv)
qed

subsection \<open>What the node makes of it\<close>

definition relocate :: "string \<Rightarrow> UpdateComponents \<Rightarrow> UpdateComponents" where
  "relocate ip u = u\<lparr>uc_component := reachable_from ip (uc_component u)\<rparr>"

text \<open>The updates in a list of frames, and what the read loop of the link makes of the frames' bytes.\<close>

lemma updates_obtain:
  "list_all is_update obs \<Longrightarrow>
     \<exists>us. list_all2 (\<lambda>ob u. frameOf encode_UpdateComponents MT_UpdateComponents u = Inr (ob_bytes ob)) obs us"
proof (induction obs)
  case (Cons ob obs)
  then obtain u us where "frameOf encode_UpdateComponents MT_UpdateComponents u = Inr (ob_bytes ob)"
    "list_all2 (\<lambda>ob u. frameOf encode_UpdateComponents MT_UpdateComponents u = Inr (ob_bytes ob)) obs us"
    by (auto simp: is_update_def)
  then show ?case by (intro exI [of _ "u # us"]) simp
qed (auto intro: exI [of _ "[]"])

lemma link_run_updates:
  assumes "list_all2 (\<lambda>ob u. frameOf encode_UpdateComponents MT_UpdateComponents u = Inr (ob_bytes ob)) obs us"
  shows "link_run ip (concat (map ob_bytes obs)) c =
      (SocketError ''End of file'', fold (\<lambda>u. onComponentUpdate (relocate ip u)) us c) \<and>
    fold (\<lambda>ob. hear (ob_bytes ob)) obs d = fold onComponentUpdate us d"
  using assms
proof (induction obs us arbitrary: c d rule: list_all2_induct)
  case Nil
  show ?case by (subst link_run.simps) (simp add: channel_read_def async_read_def kHeaderSize_def)
next
  case (Cons ob obs u us)
  obtain f where f: "channel_read (ob_bytes ob @ concat (map ob_bytes obs)) = Inr (f, concat (map ob_bytes obs))"
    "h_type (fr_header f) = MT_UpdateComponents" "encode_UpdateComponents u [] = Inr (fr_payload f)"
    using read_framed [OF Cons.hyps(1)] by (metis MessageType.distinct(11))
  then have "decodePayload decode_UpdateComponents (fr_payload f) = Inr u"
    using update_codec.roundtrip by blast
  then have "link_run ip (concat (map ob_bytes (ob # obs))) c =
      link_run ip (concat (map ob_bytes obs)) (onComponentUpdate (relocate ip u) c)"
    using f by (subst link_run.simps) (simp add: relocate_def)
  then show ?case using Cons.IH hear_update [OF Cons.hyps(1)] by simp
qed

lemma relocated_components:
  assumes "\<And>j. m_find (components c) j = map_option (reachable_from ip) (m_find (components d) j)"
  shows "m_find (components (fold (\<lambda>u. onComponentUpdate (relocate ip u)) us c)) j =
    map_option (reachable_from ip) (m_find (components (fold onComponentUpdate us d)) j)"
  using assms
proof (induction us arbitrary: c d)
  case (Cons u us)
  have owner: "ci_owner (reachable_from ip i) = ci_owner i" for i by (simp add: reachable_from_def)
  show ?case unfolding fold.simps comp_def
    by (rule Cons.IH) (simp add: components_onComponentUpdate Cons.prems relocate_def owner split: Operation.splits)
qed simp

lemma relocated_welcome:
  "m_find (components (onWelcome (welcomed ip w) new_client)) j =
     map_option (reachable_from ip) (m_find (components (onWelcome w new_client)) j)"
proof -
  have owner: "ci_owner (reachable_from ip i) = ci_owner i" for i by (simp add: reachable_from_def)
  have "m_find (components (fold addSession (map (reachable_from ip) is) c)) j =
      map_option (reachable_from ip) (m_find (components (fold addSession is d)) j)"
    if "\<And>j. m_find (components c) j = map_option (reachable_from ip) (m_find (components d) j)"
    for "is" and c :: "'a Client" and d :: "'b Client"
    using that by (induction "is" arbitrary: c d) (simp_all add: addSession_fields owner)
  note this [of "new_client\<lparr>owner_id := mm_owner w\<rparr>" "new_client\<lparr>owner_id := mm_owner w\<rparr>" "mm_all_components w"]
  then show ?thesis by (simp add: onWelcome_def welcomed_def) (simp add: new_client_def)
qed

subsection \<open>The sessions of a client follow its list of peers\<close>

definition dials :: "'cb Client \<Rightarrow> i32 \<Rightarrow> (string \<times> string) option" where
  "dials c j = map_option (\<lambda>s. (host s, port s)) (peer_session c j)"

definition directory :: "'cb Client \<Rightarrow> bool" where
  "directory c \<longleftrightarrow> client_inv c \<and> (\<forall>j. dials c j = map_option (\<lambda>i. (ci_ip i, ci_port i)) (m_find (components c) j))"

lemma dials_addSession:
  "client_inv c \<Longrightarrow> dials (addSession i c) j = (if j = ci_owner i then Some (ci_ip i, ci_port i) else dials c j)"
  by (cases "m_find (sessions c) j")
    (auto simp: dials_def peer_session_def addSession_def nth_append new_session_def client_inv_def sessions_ok_def)

lemma dials_removeSession: "dials (removeSession owner c) j = (if j = owner then None else dials c j)"
proof -
  have "(host (objects (update_object sid session_close d) ! i), port (objects (update_object sid session_close d) ! i)) =
      (host (objects d ! i), port (objects d ! i))" for sid i and d :: "'a Client"
    by (cases "sid < length (objects d)")
      (auto simp: update_object_def nth_list_update session_close_def list_update_beyond)
  then show ?thesis
    by (cases "m_find (sessions c) owner"; cases "m_find (sessions c) j")
      (auto simp: dials_def peer_session_def removeSession_def Let_def)
qed

lemma directory_addSession: "directory c \<Longrightarrow> directory (addSession i c)"
  by (simp add: directory_def client_inv_addSession dials_addSession addSession_fields)

lemma directory_onComponentUpdate: "directory c \<Longrightarrow> directory (onComponentUpdate u c)"
  by (auto simp: directory_def onComponentUpdate_def client_inv_addSession client_inv_removeSession dials_addSession
      dials_removeSession addSession_fields components_removeSession split: Operation.splits)

lemma directory_fold: "directory c \<Longrightarrow> (\<And>x c. directory c \<Longrightarrow> directory (f x c)) \<Longrightarrow> directory (fold f xs c)"
  by (induction xs arbitrary: c) auto

lemma directory_onWelcome: "directory (onWelcome w new_client)"
proof -
  have "directory (new_client\<lparr>owner_id := mm_owner w\<rparr>)"
    by (simp add: directory_def dials_def peer_session_def new_client_def client_inv_def sessions_ok_def subscriptions_ok_def)
  then have "directory (fold addSession (mm_all_components w) (new_client\<lparr>owner_id := mm_owner w\<rparr>))"
    by (rule directory_fold) (rule directory_addSession)
  then show ?thesis
    by (simp add: onWelcome_def directory_def dials_def peer_session_def client_inv_def sessions_ok_def subscriptions_ok_def)
qed

subsection \<open>Property\<close>

text \<open>
  C4. The master's table and a component's own list of peers agree, through the code of both. Take any
  reachable master and a registered component whose connection there is live, and let a server start on the
  bytes of that connection: it gets the id under which it is registered, its link handles everything that follows
  without an error, and its client then lists exactly the other registered components, a loopback address
  replaced by the address of the master, and has one session for each, to that address and port.
\<close>

theorem node_lists_members:
  assumes "hub_reach draw hub" "\<forall>seed. 1000 \<le> ival (draw seed)"
    and "m_find (hub_sessions hub) owner = Some sid" "\<not> closed (hs_channel (hub_objects hub ! sid))"
  shows "\<exists>(srv :: 'cb Server) rest c. new_server ip prt our_port desired
      (concat (map ob_bytes (stream (hs_channel (hub_objects hub ! sid))))) new_node = Inr (srv, rest) \<and>
    link_run ip rest (node_client (srv_node srv)) = (SocketError ''End of file'', c) \<and>
    srv_owner srv = owner \<and> owner_id c = owner \<and>
    (\<forall>j. m_find (components c) j = (if j = owner then None
       else map_option (\<lambda>i. reachable_from ip (info_of j (hub_objects hub ! i))) (m_find (hub_sessions hub) j)) \<and>
      map_option (\<lambda>s. (host s, port s)) (peer_session c j) = map_option (\<lambda>i. (ci_ip i, ci_port i)) (m_find (components c) j))"
proof -
  let ?s = "hub_objects hub ! sid"
  have inv: "hub_inv hub" "scripts_but {} hub" using hub_reach_scripts [OF assms(1)] assms(2) by simp_all
  then have ok: "stages_ok hub" by (simp add: hub_inv_def)
  have "sid < length (hub_objects hub)" "hs_owner ?s = owner" "hs_stage ?s = Registered"
    using table_okD [OF stages_okD(1) [OF ok] assms(3)] stages_okD(3) [OF ok assms(3)] by simp_all
  then have "script owner (stream (hs_channel ?s))"
    using inv(2) assms(4) by (auto simp: scripts_but_def scripted_def hs_live_def)
  then obtain ob obs w where st: "stream (hs_channel ?s) = ob # obs"
    and w: "frameOf encode_MasterMessage MT_MasterMessage w = Inr (ob_bytes ob)" "plausible w" "mm_owner w = owner"
    and "list_all is_update obs"
    by (cases "stream (hs_channel ?s)") (auto simp: script_def is_welcome_def)
  then obtain us where us: "list_all2 (\<lambda>ob u. frameOf encode_UpdateComponents MT_UpdateComponents u = Inr (ob_bytes ob)) obs us"
    using updates_obtain by blast
  obtain srv :: "'cb Server" where srv: "new_server ip prt our_port desired (ob_bytes ob @ concat (map ob_bytes obs)) new_node =
      Inr (srv, concat (map ob_bytes obs))" "srv_owner srv = mm_owner w"
    "srv_node srv = new_node\<lparr>node_client := onWelcome (welcomed ip w) (node_client new_node)\<rparr>"
    using new_server_starts [OF w(1,2)] by blast
  let ?start = "onWelcome (welcomed ip w) new_client :: 'cb Client"
  let ?c = "fold (\<lambda>u. onComponentUpdate (relocate ip u)) us ?start"
  have c0: "node_client (srv_node srv) = ?start" by (simp add: srv(3) new_node_def)
  note run = link_run_updates [OF us, of ip ?start "onWelcome w new_client"]
  have told: "told (stream (hs_channel ?s)) = fold onComponentUpdate us (onWelcome w new_client)"
    using run hear_welcome [OF w(1,2)] by (simp add: told_def st)
  have "views_except {} hub" using inv(1) by (simp add: hub_inv_def)
  then have "knows ?s j = (if j = owner then None else member hub j)" for j
    using views_exceptD [OF _ assms(3), of "{}" j] assms(4) by (simp add: hs_live_def)
  then have comps: "m_find (components ?c) j = (if j = owner then None
      else map_option (\<lambda>i. reachable_from ip (info_of j (hub_objects hub ! i))) (m_find (hub_sessions hub) j))" for j
    using relocated_components [of ?start ip "onWelcome w new_client :: unit Client", OF relocated_welcome, of us j] told
    by (auto simp: knows_def member_def option.map_comp comp_def)
  have "directory ?c" by (intro directory_fold directory_onWelcome directory_onComponentUpdate)
  moreover have "client_identity (fold (\<lambda>u. onComponentUpdate (relocate ip u)) us c) = client_identity c" for c :: "'cb Client"
    by (induction us arbitrary: c) simp_all
  then have "owner_id ?c = owner" by (simp add: client_identity_def onWelcome_def w(3))
  ultimately show ?thesis
    using srv(1,2) run w(3) comps c0 unfolding st
    by (intro exI [of _ srv] exI [of _ "concat (map ob_bytes obs)"] exI [of _ ?c]) (simp add: directory_def dials_def)
qed

theorem node_lists_members_witness:
  "\<exists>fr (srv :: nat Server) rest c. hub_reach (\<lambda>seed. i32_of 4242) (sample_hub fr) \<and>
     new_server ''10.0.0.1'' ''33133'' 80 kAnyOwner
       (concat (map ob_bytes (stream (hs_channel (hub_objects (sample_hub fr) ! 0))))) new_node = Inr (srv, rest) \<and>
     link_run ''10.0.0.1'' rest (node_client (srv_node srv)) = (SocketError ''End of file'', c) \<and>
     srv_owner srv = i32_of 4242 \<and> m_find (components c) (i32_of 4242) = None"
proof -
  obtain fr where fr: "hub_reach (\<lambda>seed. i32_of 4242) (sample_hub fr)"
    "\<not> closed (hs_channel (hub_objects (sample_hub fr) ! 0))" using sample_hub_reach by blast
  have find: "m_find (hub_sessions (sample_hub fr)) (i32_of 4242) = Some 0" by (simp add: sample_hub_def)
  have draws: "\<forall>seed :: i32. 1000 \<le> ival ((\<lambda>_. i32_of 4242) seed)" by (simp add: sample_draw)
  obtain srv :: "nat Server" and rest c where "new_server ''10.0.0.1'' ''33133'' 80 kAnyOwner
       (concat (map ob_bytes (stream (hs_channel (hub_objects (sample_hub fr) ! 0))))) new_node = Inr (srv, rest)"
    "link_run ''10.0.0.1'' rest (node_client (srv_node srv)) = (SocketError ''End of file'', c)"
    "srv_owner srv = i32_of 4242" "m_find (components c) (i32_of 4242) = None"
    using node_lists_members [where 'cb = nat, OF fr(1) draws find fr(2), of "''10.0.0.1''" "''33133''" 80 kAnyOwner] by auto
  then show ?thesis using fr(1) by blast
qed

end
