(* ===== verification/Network.thy ===== *)
theory Network
  imports Kernel
begin

text \<open>
  Several processes with a node each, connected by what their sessions write. A step of the network is a step
  of one process: a public call, a step of its coroutines, a segment of a call that one of its threads is in,
  anything the master sends, or one frame that some process of the network put on a socket. Such a frame may be delivered to any process, any number of
  times and in any order, or never, which includes the reordering between connections, reconnects and ports that
  a new process took over. Only bytes that no process of the network wrote are excluded.

  \<open>history\<close> records what a process holds under its own owner id after each of its steps, \<open>on_wire\<close> every frame whose
  write was begun. Both only grow; they are not state of the program.

  The bytes a client holds (queued, being written or written) are followed through every operation once, in the
  locale \<open>frame_property\<close>, for any property of frames and of pairs; the interpretation is on the
  frames the encoders of the model produce. Shown: a replica never shows a value that the owner of the pair did not hold.
\<close>

subsection \<open>Everything a client holds\<close>

definition channel_all :: "(byte list \<Rightarrow> bool) \<Rightarrow> FrameChannel \<Rightarrow> bool" where
  "channel_all G c \<longleftrightarrow> list_all (\<lambda>ob. G (ob_bytes ob)) (stream c)"

fun waiting :: "run_pc \<Rightarrow> Outbound list" where
  "waiting (Flushing obs) = obs"
| "waiting (Replaying obs) = obs"
| "waiting Connecting = []"
| "waiting Idle = []"

definition session_all :: "(byte list \<Rightarrow> bool) \<Rightarrow> ClientSession \<Rightarrow> bool" where
  "session_all G s \<longleftrightarrow> list_all (\<lambda>ob. G (ob_bytes ob)) (pending s @ waiting (run_at s)) \<and>
     pred_option (channel_all G) (channel s)"

definition client_all :: "(byte list \<Rightarrow> bool) \<Rightarrow> (Pair \<Rightarrow> bool) \<Rightarrow> 'cb Client \<Rightarrow> bool" where
  "client_all G K c \<longleftrightarrow> list_all (session_all G) (objects c) \<and> list_all (\<lambda>(p, cbs). K p) (callback_strand c)"

definition node_all :: "(byte list \<Rightarrow> bool) \<Rightarrow> (Pair \<Rightarrow> bool) \<Rightarrow> 'cb Node \<Rightarrow> bool" where
  "node_all G K n \<longleftrightarrow> client_all G K (node_client n) \<and> list_all (\<lambda>(p, cb). K p) (node_calls n)"

fun job_all :: "(byte list \<Rightarrow> bool) \<Rightarrow> (Pair \<Rightarrow> bool) \<Rightarrow> 'cb job \<Rightarrow> bool" where
  "job_all G K (Notifying p cbs subs) = K p"
| "job_all G K (Sending payload key subs) = G payload"
| "job_all G K (Updating ps subscriber) = list_all K ps"
| "job_all G K (Posting p cbs) = K p"
| "job_all G K _ = True"

definition space_all :: "(Pair \<Rightarrow> bool) \<Rightarrow> 'cb PairSpace \<Rightarrow> bool" where
  "space_all K s \<longleftrightarrow> (\<forall>k e. m_find (pairs s) k = Some e \<longrightarrow> K (pe_pair e))"

lemma in_flight_updates [simp]:
  "in_flight (c\<lparr>outbox := q\<rparr>) = in_flight c" "in_flight (c\<lparr>coalescable := m\<rparr>) = in_flight c"
  "in_flight (c\<lparr>writing := w\<rparr>) = in_flight c" "in_flight (c\<lparr>closed := b\<rparr>) = in_flight c"
  "in_flight (c\<lparr>next_node := i\<rparr>) = in_flight c" "in_flight (c\<lparr>wire_out := obs\<rparr>) = in_flight c"
  by (simp_all add: in_flight_def)

lemma channel_all_iff:
  "channel_all G c \<longleftrightarrow> (\<forall>ob \<in> set (wire_out c). G (ob_bytes ob)) \<and> (\<forall>ob \<in> set (in_flight c). G (ob_bytes ob)) \<and>
     (\<forall>x \<in> set (outbox c). G (ob_bytes (snd x)))"
  by (auto simp: channel_all_def stream_def list_all_iff)

lemma channel_all_new [simp]: "channel_all G new_channel"
  by (simp add: channel_all_iff new_channel_def in_flight_def)

lemma channel_all_close: "channel_all G c \<Longrightarrow> channel_all G (channel_close c)"
  by (simp add: channel_all_iff channel_close_def close_locked_def close_flag_def)

lemma channel_all_makeRoom:
  assumes "channel_all G c" "G fr" "makeRoomLocked key fr c = (b, c')"
  shows "channel_all G c'"
  using assms by (auto simp: channel_all_iff makeRoomLocked_def replace_bytes_def
      dest!: drop_oldest_Some split: if_splits option.splits) force

lemma channel_all_push: "channel_all G c \<Longrightarrow> G (ob_bytes ob) \<Longrightarrow> channel_all G (start_drain (push_outbound ob c))"
  by (auto simp: channel_all_iff start_drain_def push_outbound_def in_flight_def)

lemma channel_all_send:
  assumes "channel_all G c" "G fr"
  shows "channel_all G (channel_send fr key c)"
proof (cases "closed c")
  case False
  obtain b c1 where room: "makeRoomLocked key fr c = (b, c1)" by (cases "makeRoomLocked key fr c")
  with assms have "channel_all G c1" using channel_all_makeRoom by blast
  then show ?thesis using False room assms(2) channel_all_push [of G c1 "\<lparr>ob_bytes = fr, ob_key = key\<rparr>"]
    by (cases b) (simp_all add: channel_send_def send_locked_def channel_all_close start_drain_def Let_def)
qed (use assms in \<open>simp add: channel_send_def\<close>)

lemma channel_all_drain: "channel_all G c \<Longrightarrow> channel_all G (channel_drain succeeds c)"
proof (cases "drains c")
  case (Cons d ds)
  assume "channel_all G c"
  then show ?thesis using Cons
    by (cases d; cases "outbox c")
      (auto simp: channel_all_iff channel_drain_def drain_top_def drain_written_def drain_failed_def remove_nth_def
        in_flight_def Let_def)
qed (simp add: channel_drain_def)

lemma session_all_new [simp]: "session_all G (new_session h p owner)"
  by (simp add: session_all_def new_session_def)

lemma session_all_send: "session_all G s \<Longrightarrow> G fr \<Longrightarrow> session_all G (session_send fr key s)"
  by (cases "pending s"; cases "channel s")
    (auto simp: session_all_def session_send_def session_send_locked_def channel_all_send)

lemma session_all_close: "session_all G s \<Longrightarrow> session_all G (session_close s)"
  by (simp add: session_all_def session_close_def)

lemma session_all_connected: "session_all G s \<Longrightarrow> session_all G (run_connected s)"
  by (auto simp: session_all_def run_connected_def split: run_pc.splits)

lemma session_all_drain: "session_all G s \<Longrightarrow> session_all G (session_drain succeeds s)"
  by (cases "channel s") (simp_all add: session_all_def session_drain_def channel_all_drain)

lemma session_all_at: "session_all G s \<Longrightarrow> list_all (\<lambda>ob. G (ob_bytes ob)) (waiting pc) \<Longrightarrow> session_all G (s\<lparr>run_at := pc\<rparr>)"
  by (simp add: session_all_def)

lemma session_all_step:
  assumes "session_all G s" "list_all (\<lambda>ob. G (ob_bytes ob)) subs"
  shows "session_all G (run_step subs s)"
proof (cases "run_at s")
  case (Flushing obs)
  then show ?thesis using assms
    by (cases obs; cases "channel s") (simp_all add: session_all_def run_step_def channel_all_send)
next
  case (Replaying obs)
  then show ?thesis using assms(1) session_all_send [OF assms(1)]
    by (cases obs) (simp_all add: run_step_def session_all_at, simp_all add: session_all_def)
qed (use assms in \<open>simp_all add: run_step_def\<close>)

lemmas session_all_ops = session_all_send session_all_close session_all_connected session_all_drain session_all_step


lemma client_all_update:
  assumes "client_all G K c" "\<And>s. session_all G s \<Longrightarrow> session_all G (f s)"
  shows "client_all G K (update_object sid f c)"
  using assms by (cases "sid < length (objects c)")
    (auto simp: client_all_def update_object_def list_all_length nth_list_update list_update_beyond)

lemma client_all_irrelevant [simp]:
  "client_all G K (c\<lparr>sessions := m\<rparr>) \<longleftrightarrow> client_all G K c"
  "client_all G K (c\<lparr>components := i\<rparr>) \<longleftrightarrow> client_all G K c"
  "client_all G K (c\<lparr>subscriptions := t\<rparr>) \<longleftrightarrow> client_all G K c"
  "client_all G K (c\<lparr>next_subscription_handle := h\<rparr>) \<longleftrightarrow> client_all G K c"
  "client_all G K (c\<lparr>ready := b\<rparr>) \<longleftrightarrow> client_all G K c"
  "client_all G K (c\<lparr>owner_id := j\<rparr>) \<longleftrightarrow> client_all G K c"
  by (simp_all add: client_all_def)

lemma client_all_fold:
  "client_all G K c \<Longrightarrow> (\<And>x c. client_all G K c \<Longrightarrow> client_all G K (f x c)) \<Longrightarrow> client_all G K (fold f xs c)"
  by (induction xs arbitrary: c) auto

lemma client_all_new [simp]: "client_all G K new_client"
  by (simp add: client_all_def new_client_def)

lemma client_all_addSession: "client_all G K c \<Longrightarrow> client_all G K (addSession info c)"
  by (simp add: client_all_def addSession_def)

lemma client_all_removeSession: "client_all G K c \<Longrightarrow> client_all G K (removeSession owner c)"
  by (simp add: removeSession_def Let_def client_all_update session_all_close split: option.splits)

lemma client_all_onComponentUpdate: "client_all G K c \<Longrightarrow> client_all G K (onComponentUpdate u c)"
  by (simp add: onComponentUpdate_def client_all_addSession client_all_removeSession split: Operation.splits)

lemma client_all_onWelcome: "client_all G K c \<Longrightarrow> client_all G K (onWelcome w c)"
  by (simp add: onWelcome_def client_all_fold client_all_addSession)

lemma client_all_link_run: "client_all G K c \<Longrightarrow> client_all G K (snd (link_run ip input c))"
proof (induction ip input c rule: link_run.induct)
  case (1 ip input c)
  then show ?case
    by (subst link_run.simps) (auto simp: client_all_onComponentUpdate split: sum.splits prod.splits)
qed

lemma client_all_send: "client_all G K c \<Longrightarrow> G fr \<Longrightarrow> client_all G K (update_object sid (session_send fr key) c)"
  by (rule client_all_update) (simp_all add: session_all_send)

lemma client_all_send_to: "client_all G K c \<Longrightarrow> G fr \<Longrightarrow> client_all G K (send_to fr key sub c)"
  by (simp add: send_to_def client_all_send split: option.splits)

lemma node_all_space [simp]: "node_all G K (n\<lparr>node_space := s\<rparr>) \<longleftrightarrow> node_all G K n"
  by (simp add: node_all_def)

lemma node_all_client: "node_all G K n \<Longrightarrow> client_all G K c \<Longrightarrow> node_all G K (n\<lparr>node_client := c\<rparr>)"
  by (simp add: node_all_def)

lemma node_all_run_strand: "node_all G K n \<Longrightarrow> node_all G K (run_strand n)"
  by (auto simp: node_all_def client_all_def run_strand_def list_all_iff split: list.splits)

lemma space_allD: "space_all K s \<Longrightarrow> find_entry owner key s = Some e \<Longrightarrow> K (pe_pair e)"
  by (simp add: space_all_def find_entry_def)

subsection \<open>Frames through a node\<close>

text \<open>
  What the encoders promise of the frames: \<open>G\<close> holds of every request and announcement, and of the update of every
  pair with \<open>K\<close>. Then \<open>G\<close> holds of everything a node writes, and its callbacks see \<open>K\<close> only, as long as the pairs
  it stores have \<open>K\<close>.
\<close>

locale frame_property =
  fixes G :: "byte list \<Rightarrow> bool" and K :: "Pair \<Rightarrow> bool"
  assumes update_frame: "K p \<Longrightarrow> frameOf encode_Pair MT_PairUpdate p = Inr fr \<Longrightarrow> G fr"
    and request_frame: "frameOf encode_Pair MT_Pair p = Inr fr \<Longrightarrow> G fr"
    and remove_frame: "frameOf encode_RemovePairRequest MT_RemovePair r = Inr fr \<Longrightarrow> G fr"
    and removed_frame: "frameOf encode_RemovePairRequest MT_PairRemoved r = Inr fr \<Longrightarrow> G fr"
    and subscription_frame: "subscription_frame owner key sub b = Inr fr \<Longrightarrow> G fr"
begin

lemma fanOutPair_all: "client_all G K c \<Longrightarrow> K p \<Longrightarrow> fanOutPair p subs c = Inr c' \<Longrightarrow> client_all G K c'"
  by (auto simp: fanOutPair_def bindE_eq_Inr update_frame intro!: client_all_fold client_all_send_to)

lemma fanOutRemoval_all: "client_all G K c \<Longrightarrow> fanOutRemoval r subs c = Inr c' \<Longrightarrow> client_all G K c'"
  by (auto simp: fanOutRemoval_def bindE_eq_Inr removed_frame intro!: client_all_fold client_all_send_to)

lemma setPair_all:
  assumes "node_all G K n" "space_all K (node_space (snd (client_setPair now key val ty n)))"
  shows "node_all G K (snd (client_setPair now key val ty n))"
proof -
  let ?s = "addPair now (new_pair (owner_id (node_client n)) key val ty) (node_space n)"
  have notify: "client_all G K (notifyLocal p cbs c)" if "client_all G K c" "K p" for p cbs c
    using that by (simp add: notifyLocal_def client_all_def)
  show ?thesis
  proof (cases "ready (node_client n)")
    case True
    then have "space_all K ?s"
      using assms(2) by (auto simp: client_setPair_def Let_def split: option.splits sum.splits)
    then show ?thesis using True assms(1)
      by (auto simp: client_setPair_def Let_def node_all_def intro!: notify intro: space_allD fanOutPair_all
          split: option.splits sum.splits)
  qed (use assms(1) in \<open>simp add: client_setPair_def Let_def\<close>)
qed

lemma removePair_all: "node_all G K n \<Longrightarrow> node_all G K (snd (client_removePair key n))"
  by (auto simp: client_removePair_def Let_def node_all_def dest: fanOutRemoval_all split: option.splits sum.splits)

lemma setRemotePair_all: "node_all G K n \<Longrightarrow> node_all G K (snd (client_setRemotePair owner key val ty n))"
  by (auto simp: client_setRemotePair_def node_all_def request_frame intro!: client_all_send
      split: option.splits sum.splits)

lemma removeRemotePair_all: "node_all G K n \<Longrightarrow> node_all G K (snd (client_removeRemotePair owner key n))"
  by (auto simp: client_removeRemotePair_def node_all_def remove_frame removePair_all [unfolded node_all_def]
      intro!: client_all_send split: option.splits sum.splits)

lemma meta_all:
  assumes "node_all G K n"
  shows "space_all K (node_space (snd (client_setPairIndirectly now owner key val n))) \<Longrightarrow>
      node_all G K (snd (client_setPairIndirectly now owner key val n))"
    "space_all K (node_space (snd (client_setMetaPair now owner key o2 k2 n))) \<Longrightarrow>
      node_all G K (snd (client_setMetaPair now owner key o2 k2 n))"
    "space_all K (node_space (snd (client_initMetaPair now owner key n))) \<Longrightarrow>
      node_all G K (snd (client_initMetaPair now owner key n))"
  using assms by (auto simp: client_setPairIndirectly_def client_setMetaPair_def client_initMetaPair_def
      setPair_all setRemotePair_all split: option.splits if_splits)

lemma sendSubscription_all: "client_all G K c \<Longrightarrow> client_all G K (snd (sendSubscription owner key b c))"
proof -
  have "client_all G K c \<Longrightarrow> client_all G K (snd (send_subscriptions sids key b c))" for sids c
    by (induction sids key b c rule: send_subscriptions.induct)
      (auto simp: subscription_frame client_all_send split: sum.splits)
  then show "client_all G K c \<Longrightarrow> client_all G K (snd (sendSubscription owner key b c))"
    by (auto simp: sendSubscription_def subscription_frame client_all_send split: option.splits sum.splits)
qed

lemma subscription_table_all:
  assumes "client_all G K c"
  shows "client_all G K (snd (registerSubscription owner key c))"
    "client_all G K (snd (cancelSubscription h c))" "client_all G K (snd (cancelSubscription_key owner key c))"
proof -
  have sent: "client_all G K c'" if "sendSubscription owner key b d = (r, c')" "client_all G K d"
    for owner key b d r c' using sendSubscription_all [OF that(2), of owner key b] that(1) by simp
  show "client_all G K (snd (registerSubscription owner key c))"
    "client_all G K (snd (cancelSubscription h c))" "client_all G K (snd (cancelSubscription_key owner key c))"
    using assms by (auto simp: registerSubscription_def cancelSubscription_def cancelSubscription_key_def Let_def
        dest!: sent split: option.splits sum.splits prod.splits)
qed

lemma run_step_all: "client_all G K c \<Longrightarrow> client_all G K (client_run_step sid c)"
proof -
  have ok: "list_all (\<lambda>r. \<forall>x. r = Inr x \<longrightarrow> P x) rs \<Longrightarrow> list_all P (ok_prefix rs)" for P and rs :: "byte list result list"
    by (induction rs rule: ok_prefix.induct) auto
  have "list_all (\<lambda>ob. G (ob_bytes ob)) (replay_frames owner c)" for owner
    by (simp add: replay_frames_def list.pred_map o_def) (rule ok, simp add: list_all_iff subscription_frame)
  then show "client_all G K c \<Longrightarrow> client_all G K (client_run_step sid c)"
    by (simp add: client_run_step_def client_all_update session_all_step)
qed

lemma fan_out_all:
  "node_all G K (srv_node srv) \<Longrightarrow> K p \<Longrightarrow> node_all G K (srv_node (snd (fan_out p subs srv)))"
  by (auto simp: fan_out_def node_all_def dest: fanOutPair_all split: sum.splits)

lemma sendPairUpdates_all:
  "node_all G K (srv_node srv) \<Longrightarrow> list_all K ps \<Longrightarrow> node_all G K (srv_node (snd (sendPairUpdates ps sub srv)))"
proof (induction ps sub srv rule: sendPairUpdates.induct)
  case (2 p ps sub srv)
  obtain r srv1 where f: "fan_out p [sub] srv = (r, srv1)" by (cases "fan_out p [sub] srv")
  with 2 have "node_all G K (srv_node srv1)" using fan_out_all [of srv p "[sub]"] by simp
  then show ?case using 2 f by (cases r) (simp_all add: sendPairUpdate_def)
qed simp

lemma applyAndNotify_all:
  assumes "node_all G K (srv_node srv)" "space_all K (addPair now p (node_space (srv_node srv)))"
  shows "node_all G K (srv_node (snd (applyAndNotify now p srv)))"
proof -
  have "node_all G K ((srv_node (set_space s srv))\<lparr>node_calls := node_calls (srv_node srv) @ map (Pair q) cbs\<rparr>)"
    if "K q" for s q cbs using assms(1) that by (auto simp: node_all_def list_all_iff)
  then show ?thesis using assms
    by (auto simp: applyAndNotify_def Let_def space_allD intro!: fan_out_all split: option.splits)
      (simp_all add: set_space_def)
qed

lemma pairs_to_send_all: "space_all K s \<Longrightarrow> list_all K (pairs_to_send owner m s)"
  by (auto simp: pairs_to_send_def list_all_iff getAllPairs_def smap.mem_entries_iff space_all_def
      find_entry_def split: option.splits)

lemma handleSubscription_all:
  assumes "node_all G K (srv_node srv)" "space_all K (node_space (srv_node (snd (handleSubscription now fr srv))))"
  shows "node_all G K (srv_node (snd (handleSubscription now fr srv)))"
proof -
  have "node_all G K (srv_node (set_space s srv))" for s
    using assms(1) by (simp add: set_space_def)
  then show ?thesis using assms pairs_to_send_all
    by (auto simp: handleSubscription_def Let_def intro!: sendPairUpdates_all split: sum.splits if_splits)
qed

lemma handle_frame_all:
  assumes "node_all G K (srv_node srv)" "space_all K (node_space (srv_node (snd (handle_frame now fr srv))))"
  shows "node_all G K (srv_node (snd (handle_frame now fr srv)))"
proof -
  have "node_all G K (srv_node (snd (handleRemovePair fr srv)))"
    using assms(1) by (auto simp: handleRemovePair_def Let_def node_all_def dest: fanOutRemoval_all
        split: sum.splits option.splits)
  then show ?thesis using assms
    by (auto simp: handle_frame_def handleIncomingPair_def handlePairUpdate_def handlePairRemoved_def
        applyAndNotify_space node_all_def [of _ _ "srv_node (set_space _ _)"]
        intro: applyAndNotify_all handleSubscription_all split: MessageType.splits sum.splits)
      (simp_all add: node_all_def)
qed

lemma job_step_all:
  assumes "node_all G K n" "job_all G K j"
  shows "node_all G K (snd (job_step j n)) \<and> (\<forall>j'. fst (job_step j n) = Inr j' \<longrightarrow> job_all G K j')"
  using assms
proof (induction j n rule: job_step.induct)
  case (5 payload key subscriber subs n)
  then show ?case by (simp add: node_all_def client_all_send_to)
next
  case (9 p cbs n)
  then show ?case by (simp add: node_all_def notifyLocal_def client_all_def)
qed (auto simp: node_all_def update_frame removed_frame dest: fanOutPair_all split: sum.splits)

lemma begin_frame_all:
  assumes "node_all G K (srv_node srv)" "begin_frame now fr srv = (r, srv')" "space_all K (node_space (srv_node srv'))"
  shows "node_all G K (srv_node srv') \<and> (\<forall>j. r = Inr j \<longrightarrow> job_all G K j)"
proof -
  have "node_all G K (srv_node srv')"
    using locked_step_begin [of srv now fr] assms(1,2) by (auto simp: locked_step_def set_space_def)
  moreover have "job_all G K j" if "r = Inr j" for j
    using assms(2,3) that pairs_to_send_all
    by (auto simp: begin_frame_def apply_locked_def begin_subscription_def begin_removal_def Let_def space_allD
        split: MessageType.splits sum.splits option.splits if_splits prod.splits)
  ultimately show ?thesis by blast
qed

lemma setPair_locked_all:
  assumes "node_all G K n" "setPair_locked now key val ty n = (r, n')" "space_all K (node_space n')"
  shows "node_all G K n' \<and> (\<forall>b j. r = Inr (b, j) \<longrightarrow> job_all G K j)"
  using assms by (auto simp: setPair_locked_def Let_def node_all_def intro: fanOutPair_all [OF _ space_allD] space_allD
      split: option.splits sum.splits if_splits)

lemma kernel_step_all:
  assumes "running k = Some srv" "node_all G K (srv_node srv)" "running (kernel_step ev k) = Some srv'"
    and "space_all K (node_space (srv_node srv'))" "\<And>clock bs. ev \<noteq> Ev_peer clock bs"
    and "list_all (job_all G K) (in_progress k)"
  shows "node_all G K (srv_node srv')"
proof (cases ev)
  case (Ev_begin now fr)
  then show ?thesis using assms(1-4) begin_frame_all [OF assms(2), of now fr]
    by (auto simp: begin_call_def split: prod.splits sum.splits)
next
  case (Ev_begin_setPair now key val ty)
  then show ?thesis using assms(1-4) setPair_locked_all [OF assms(2), of now key val ty]
    by (auto simp: begin_call_def begin_setPair_def split: prod.splits sum.splits)
next
  case (Ev_job i)
  then show ?thesis using assms(1-3,6) job_step_all [OF assms(2), of "in_progress k ! i"]
    by (auto simp: continue_call_def list_all_length split: prod.splits if_splits)
next
  case (Ev_peer clock bs)
  then show ?thesis using assms(5) by blast
next
  case (Ev_initialize ip prt desired dial)
  then show ?thesis using assms(1-3) by (simp add: initialize_def ok_def)
next
  case Ev_shutdown
  then show ?thesis using assms(1,3) by (simp add: shutdown_def)
next
  case (Ev_registerCallback now owner key cb)
  then show ?thesis using assms(1-3)
    by (auto simp: api_defs with_client_def client_registerCallback_def split_beta)
qed (use assms(1-4) in \<open>auto simp: api_defs with_client_def on_server_def on_node_def on_client_def split_beta
      client_cancelCallback_def setPair_all removePair_all setRemotePair_all removeRemotePair_all meta_all
      node_all_run_strand client_connected_def client_drain_def run_step_all client_all_update session_all_ops
      client_all_link_run subscription_table_all node_all_def [THEN iffD1, THEN conjunct1] intro!: node_all_client\<close>)

lemma in_progress_step_all:
  assumes "running k = Some srv" "node_all G K (srv_node srv)" "list_all (job_all G K) (in_progress k)"
    and "\<And>srv'. running (kernel_step ev k) = Some srv' \<Longrightarrow> space_all K (node_space (srv_node srv'))"
  shows "list_all (job_all G K) (in_progress (kernel_step ev k))"
proof (cases ev)
  case (Ev_begin now fr)
  then show ?thesis using assms begin_frame_all [OF assms(2), of now fr]
    by (auto simp: begin_call_def start_job_def split: prod.splits sum.splits)
next
  case (Ev_begin_setPair now key val ty)
  then show ?thesis using assms setPair_locked_all [OF assms(2), of now key val ty]
    by (auto simp: begin_call_def begin_setPair_def start_job_def split: prod.splits sum.splits)
next
  case (Ev_job i)
  then show ?thesis using assms(1-3) job_step_all [OF assms(2), of "in_progress k ! i"]
    by (auto simp: continue_call_def list_all_iff dest!: continue_job_mem split: prod.splits if_splits)
next
  case (Ev_initialize ip prt desired dial)
  then show ?thesis using assms(1,3) by (simp add: initialize_def ok_def)
qed (use assms(1,3) in \<open>simp_all add: api_defs with_client_def on_server_def shutdown_def split_beta\<close>)

end

subsection \<open>Published values\<close>

text \<open>A value under a key, and what a step of a component may do to the values it does not own.\<close>

type_synonym entry = "PairKey \<times> string \<times> PairType"

definition fine :: "entry list \<Rightarrow> Pair \<Rightarrow> bool" where
  "fine H p \<longleftrightarrow> getType p = PT_Invalid \<or> (key_of p, getValue p, getType p) \<in> set H"

definition space_fine :: "entry list \<Rightarrow> 'cb PairSpace \<Rightarrow> bool" where
  "space_fine H s \<longleftrightarrow> (\<forall>k x. published s k = Some x \<longrightarrow> (k, x) \<in> set H)"

definition own_step :: "entry list \<Rightarrow> i32 \<Rightarrow> 'cb PairSpace \<Rightarrow> 'cb PairSpace \<Rightarrow> bool" where
  "own_step H owner s s' \<longleftrightarrow> (\<forall>k x. published s' k = Some x \<longrightarrow>
     published s k = Some x \<or> pk_owner k = owner \<or> (k, x) \<in> set H)"

lemma space_fine_all:
  assumes "ps_inv s" "space_fine H s"
  shows "space_all (fine H) s"
proof -
  have "key_of (pe_pair e) = k" if "m_find (pairs s) k = Some e" for k e
    using assms(1) that by (simp add: ps_inv_def entries_ok_def)
  then show ?thesis using assms(2)
    by (fastforce simp: space_all_def space_fine_def published_def fine_def split: option.splits if_splits)
qed

lemma own_step_same: "published s' = published s \<Longrightarrow> own_step H owner s s'"
  by (simp add: own_step_def)

lemma own_step_addPair: "getOwner p = owner \<or> fine H p \<Longrightarrow> own_step H owner s (addPair now p s)"
  by (auto simp: own_step_def published_addPair key_of_def fine_def)

lemma own_step_removePair: "own_step H owner s (removePair o2 key s)"
  by (simp add: own_step_def published_removePair)

lemma own_step_setPair:
  "own_step H (owner_id (node_client n)) (node_space n) (node_space (snd (client_setPair now key val ty n)))"
  by (auto simp: client_setPair_def Let_def own_step_same own_step_addPair new_pair_def split: option.splits sum.splits)

lemma own_step_remotePair:
  "own_step H owner (node_space n) (node_space (snd (client_removePair key n)))"
  "own_step H owner (node_space n) (node_space (snd (client_setRemotePair o2 key val ty n)))"
  "own_step H owner (node_space n) (node_space (snd (client_removeRemotePair o2 key n)))"
proof -
  show remove: "own_step H owner (node_space n) (node_space (snd (client_removePair key n)))"
    by (auto simp: client_removePair_def Let_def own_step_same own_step_removePair split: option.splits sum.splits)
  show "own_step H owner (node_space n) (node_space (snd (client_setRemotePair o2 key val ty n)))"
    by (auto simp: client_setRemotePair_def own_step_same split: option.splits sum.splits)
  show "own_step H owner (node_space n) (node_space (snd (client_removeRemotePair o2 key n)))"
    by (auto simp: client_removeRemotePair_def own_step_same remove split: option.splits sum.splits)
qed

lemma own_step_meta:
  "own_step H (owner_id (node_client n)) (node_space n) (node_space (snd (client_setPairIndirectly now o2 key val n)))"
  "own_step H (owner_id (node_client n)) (node_space n) (node_space (snd (client_setMetaPair now o2 key o3 k3 n)))"
  "own_step H (owner_id (node_client n)) (node_space n) (node_space (snd (client_initMetaPair now o2 key n)))"
  by (auto simp: client_setPairIndirectly_def client_setMetaPair_def client_initMetaPair_def own_step_same
      own_step_setPair own_step_remotePair split: option.splits)

lemma own_step_callbacks:
  "own_step H owner (node_space n) (node_space (snd (client_registerCallback now o2 key cb n)))"
  "own_step H owner (node_space n) (node_space (client_cancelCallback h n))"
proof -
  have "published (snd (addCallbackToAll cb s)) = published s" for s :: "'a PairSpace"
    by (simp add: addCallbackToAll_def Let_def fun_eq_iff published_def)
  then show "own_step H owner (node_space n) (node_space (snd (client_registerCallback now o2 key cb n)))"
    by (simp add: client_registerCallback_def split_beta own_step_same published_addCallback)
  show "own_step H owner (node_space n) (node_space (client_cancelCallback h n))"
    by (simp add: client_cancelCallback_def own_step_same published_removeCallback)
qed

lemma own_step_handle_frame:
  assumes "\<And>p. h_type (fr_header f) = MT_PairUpdate \<Longrightarrow> decodePayload decode_Pair (fr_payload f) = Inr p \<Longrightarrow> fine H p"
  shows "own_step H (srv_owner srv) (node_space (srv_node srv)) (node_space (srv_node (snd (handle_frame now f srv))))"
proof -
  have "own_step H (srv_owner srv) (node_space (srv_node srv)) (node_space (srv_node (snd (handleSubscription now f srv))))"
    by (auto simp: handleSubscription_def Let_def own_step_same published_addSubscription published_removeSubscription
        published_addSubscriptionToAll published_removeSubscriptionToAll split: sum.splits)
  moreover have "own_step H (srv_owner srv) (node_space (srv_node srv)) (node_space (srv_node (snd (handleRemovePair f srv))))"
    by (auto simp: handleRemovePair_def Let_def own_step_same own_step_removePair split: sum.splits option.splits)
  ultimately show ?thesis using assms
    by (auto simp: handle_frame_def handleIncomingPair_def handlePairUpdate_def handlePairRemoved_def
        applyAndNotify_space own_step_same own_step_addPair own_step_removePair setOwner_def
        split: MessageType.splits sum.splits)
qed

subsection \<open>The frames of this network\<close>

text \<open>A frame as the encoders build it, whose pair, if it is an update, is in the history.\<close>

definition honest :: "entry list \<Rightarrow> byte list \<Rightarrow> bool" where
  "honest H bs \<longleftrightarrow> (\<exists>f. sendable f \<and> bs = frame_bytes f \<and>
     (h_type (fr_header f) = MT_PairUpdate \<longrightarrow> (\<exists>p. decodePayload decode_Pair (fr_payload f) = Inr p \<and> fine H p)))"

lemma frameOf_honest:
  assumes "frameOf encode ty m = Inr bs" "ty \<noteq> MT_Invalid"
    and "\<And>payload. ty = MT_PairUpdate \<Longrightarrow> encode m [] = Inr payload \<Longrightarrow>
      \<exists>p. decodePayload decode_Pair payload = Inr p \<and> fine H p"
  shows "honest H bs"
proof -
  from assms(1) obtain payload where p: "encode m [] = Inr payload" "frame ty payload (I32 (-1)) = Inr bs"
    by (auto simp: frameOf_def bindE_eq_Inr)
  let ?f = "\<lparr>fr_header = \<lparr>h_type = ty, payload_length = of_nat (length payload),
      h_subscriber = I32 (-1)\<rparr>, fr_payload = payload\<rparr>"
  have "sendable ?f" using p(2) assms(2) by (simp add: sendable_def frame_def split: if_splits)
  then show ?thesis unfolding honest_def
    using frame_eq_frame_bytes [OF p(2)] assms(3) p(1) by (intro exI [of _ ?f]) auto
qed

interpretation net: frame_property "honest H" "fine H" for H
proof
  show "fine H p \<Longrightarrow> frameOf encode_Pair MT_PairUpdate p = Inr fr \<Longrightarrow> honest H fr" for p fr
    by (erule frameOf_honest) (use pair_codec.roundtrip in auto)
  show "frameOf encode_Pair MT_Pair p = Inr fr \<Longrightarrow> honest H fr" for p fr
    by (erule frameOf_honest) auto
  show "frameOf encode_RemovePairRequest MT_RemovePair r = Inr fr \<Longrightarrow> honest H fr" for r fr
    by (erule frameOf_honest) auto
  show "frameOf encode_RemovePairRequest MT_PairRemoved r = Inr fr \<Longrightarrow> honest H fr" for r fr
    by (erule frameOf_honest) auto
  show "subscription_frame owner key sub b = Inr fr \<Longrightarrow> honest H fr" for owner key sub b fr
    unfolding subscription_frame_def by (erule frameOf_honest) auto
qed

subsection \<open>The network\<close>

record 'cb Net =
  procs :: "'cb Kernel list"
  history :: "entry list"
  on_wire :: "byte list list"

definition net_start :: "nat \<Rightarrow> 'cb Net" where
  "net_start n = \<lparr>procs = replicate n no_node, history = [], on_wire = []\<rparr>"

definition own_values :: "'cb Server \<Rightarrow> entry list" where
  "own_values srv = map (\<lambda>p. (key_of p, getValue p, getType p))
     (filter (\<lambda>p. getOwner p = srv_owner srv) (visible_pairs (node_space (srv_node srv))))"

definition begun :: "'cb Server \<Rightarrow> byte list list" where
  "begun srv = concat (map (\<lambda>s. case channel s of None \<Rightarrow> [] | Some c \<Rightarrow> map ob_bytes (in_flight c @ wire_out c))
     (objects (node_client (srv_node srv))))"

definition observe :: "('cb Server \<Rightarrow> 'a list) \<Rightarrow> 'cb Kernel \<Rightarrow> 'a list" where
  "observe f k = (case running k of None \<Rightarrow> [] | Some srv \<Rightarrow> f srv)"

definition net_advance :: "nat \<Rightarrow> 'cb event \<Rightarrow> 'cb Net \<Rightarrow> 'cb Net" where
  "net_advance i ev N =
     (let k = kernel_step ev (procs N ! i)
      in \<lparr>procs = (procs N)[i := k], history = history N @ observe own_values k,
          on_wire = on_wire N @ observe begun k\<rparr>)"

definition allowed :: "nat \<Rightarrow> 'cb event \<Rightarrow> 'cb Net \<Rightarrow> bool" where
  "allowed i ev N \<longleftrightarrow> i < length (procs N) \<and> handles_left (procs N ! i) \<and>
     (case ev of
        Ev_peer clock bs \<Rightarrow> bs \<in> set (on_wire N)
      | Ev_begin now f \<Rightarrow> sendable f \<and> frame_bytes f \<in> set (on_wire N)
      | _ \<Rightarrow> True)"

inductive net_reach :: "'cb Net \<Rightarrow> bool" where
  net_begin: "net_reach (net_start n)"
| net_step: "net_reach N \<Longrightarrow> allowed i ev N \<Longrightarrow> net_reach (net_advance i ev N)"

definition sound :: "entry list \<Rightarrow> 'cb Kernel \<Rightarrow> bool" where
  "sound H k \<longleftrightarrow> pred_option (\<lambda>srv. space_fine H (node_space (srv_node srv)) \<and>
     node_all (honest H) (fine H) (srv_node srv)) (running k) \<and>
     list_all (job_all (honest H) (fine H)) (in_progress k)"

definition net_inv :: "'cb Net \<Rightarrow> bool" where
  "net_inv N \<longleftrightarrow> list_all kernel_reach (procs N) \<and> list_all (sound (history N)) (procs N) \<and>
     list_all (honest (history N)) (on_wire N)"

subsection \<open>Growing histories\<close>

lemma fine_mono: "fine H p \<Longrightarrow> fine (H @ H') p"
  by (auto simp: fine_def)

lemma honest_mono: "honest H bs \<Longrightarrow> honest (H @ H') bs"
  using fine_mono by (fastforce simp: honest_def)

lemma channel_all_mono: "channel_all (honest H) c \<Longrightarrow> channel_all (honest (H @ H')) c"
  by (simp add: channel_all_iff honest_mono)

lemma node_all_mono: "node_all (honest H) (fine H) n \<Longrightarrow> node_all (honest (H @ H')) (fine (H @ H')) n"
proof -
  have "session_all (honest H) s \<Longrightarrow> session_all (honest (H @ H')) s" for s
    by (cases "channel s") (simp_all add: session_all_def list_all_iff honest_mono channel_all_mono)
  then show "node_all (honest H) (fine H) n \<Longrightarrow> node_all (honest (H @ H')) (fine (H @ H')) n"
    by (fastforce simp: node_all_def client_all_def list_all_iff fine_mono)
qed

lemma job_all_mono: "job_all (honest H) (fine H) j \<Longrightarrow> job_all (honest (H @ H')) (fine (H @ H')) j"
  by (cases j) (auto simp: honest_mono fine_mono list_all_iff)

lemma sound_mono: "sound H k \<Longrightarrow> sound (H @ H') k"
  by (cases "running k") (auto simp: sound_def node_all_mono space_fine_def list_all_iff job_all_mono)

lemma begun_honest:
  assumes "node_all (honest H) (fine H) (srv_node srv)"
  shows "list_all (honest H) (begun srv)"
proof -
  have c: "channel_all (honest H) c" if "s \<in> set (objects (node_client (srv_node srv)))" "channel s = Some c" for s c
    using assms that by (auto simp: node_all_def client_all_def session_all_def list_all_iff)
  show ?thesis
    by (auto simp: begun_def list_all_iff split: option.splits dest!: c [OF _ sym]) (auto simp: channel_all_iff)
qed

subsection \<open>The invariant of the network\<close>

lemma session_run_frame:
  assumes "sendable f"
  shows "snd (session_run clock 0 (frame_bytes f) srv) = snd (handle_frame (clock 0) f srv)"
proof -
  obtain r srv1 where h: "handle_frame (clock 0) f srv = (r, srv1)" by (cases "handle_frame (clock 0) f srv")
  have "channel_read [] = Inl (SocketError ''End of file'')"
    by (simp add: channel_read_def async_read_def kHeaderSize_def)
  then have "session_run clock (Suc 0) [] srv1 = (SocketError ''End of file'', srv1)"
    by (subst session_run.simps) simp
  then show ?thesis using channel_read_frame [OF assms, of "[]"] h
    by (cases r) (simp_all add: session_run.simps [of clock 0])
qed

text \<open>The frames that reach a process are honest.\<close>

fun honest_event :: "entry list \<Rightarrow> 'cb event \<Rightarrow> bool" where
  "honest_event H (Ev_peer clock bs) = honest H bs"
| "honest_event H (Ev_begin now f) = (sendable f \<and> honest H (frame_bytes f))"
| "honest_event H _ = True"

lemma honest_frame:
  assumes "sendable f" "honest H (frame_bytes f)"
  shows "h_type (fr_header f) = MT_PairUpdate \<longrightarrow> (\<exists>p. decodePayload decode_Pair (fr_payload f) = Inr p \<and> fine H p)"
proof -
  obtain g where g: "sendable g" "frame_bytes f = frame_bytes g" "h_type (fr_header g) = MT_PairUpdate \<longrightarrow>
      (\<exists>p. decodePayload decode_Pair (fr_payload g) = Inr p \<and> fine H p)"
    using assms(2) by (auto simp: honest_def)
  then have "f = g" using channel_read_frame [OF assms(1), of "[]"] channel_read_frame [OF g(1), of "[]"] by simp
  then show ?thesis using g(3) by simp
qed

lemma own_step_kernel:
  assumes "kernel_inv k" "running k = Some srv" "running (kernel_step ev k) = Some srv'" "honest_event H ev"
  shows "srv_owner srv' = srv_owner srv \<and>
    own_step H (srv_owner srv) (node_space (srv_node srv)) (node_space (srv_node srv'))"
proof -
  have owner: "owner_id (node_client (srv_node srv)) = srv_owner srv"
    using assms(1,2) by (simp add: kernel_inv_def node_up_def client_identity_def)
  note own = own_step_setPair [of H "srv_node srv", unfolded owner] own_step_meta [of H "srv_node srv", unfolded owner]
  show ?thesis
  proof (cases ev)
    case (Ev_begin now f)
    then have f: "h_type (fr_header f) = MT_PairUpdate \<longrightarrow> (\<exists>p. decodePayload decode_Pair (fr_payload f) = Inr p \<and> fine H p)"
      using assms(4) honest_frame by simp
    have "srv' = snd (begin_frame now f srv)"
      using Ev_begin assms(2,3) by (auto simp: begin_call_def split: prod.splits sum.splits)
    moreover have "own_step H (srv_owner srv) (node_space (srv_node srv)) (node_space (srv_node (snd (handle_frame now f srv))))"
      using f by (intro own_step_handle_frame) auto
    ultimately show ?thesis by (simp add: begin_frame_space)
  next
    case (Ev_begin_setPair now key val ty)
    then have "srv' = srv\<lparr>srv_node := snd (setPair_locked now key val ty (srv_node srv))\<rparr>"
      using assms(2,3) by (auto simp: begin_call_def begin_setPair_def split: prod.splits sum.splits)
    then show ?thesis using own(1) by (simp add: setPair_locked_space)
  next
    case (Ev_job j)
    then have "srv_owner srv' = srv_owner srv \<and> node_space (srv_node srv') = node_space (srv_node srv)"
      using assms(2,3) by (auto simp: continue_call_def split_beta split: if_splits)
    then show ?thesis by (simp add: own_step_same)
  next
    case (Ev_peer clock bs)
    then obtain f where f: "sendable f" "bs = frame_bytes f" "h_type (fr_header f) = MT_PairUpdate \<longrightarrow>
        (\<exists>p. decodePayload decode_Pair (fr_payload f) = Inr p \<and> fine H p)"
      using assms(4) by (auto simp: honest_def)
    have "srv_owner (snd (handle_frame (clock 0) f srv)) = srv_owner srv"
      using srv_same_handle_frame [of srv "clock 0" f] by (simp add: srv_same_def srv_fixed_def)
    moreover have "own_step H (srv_owner srv) (node_space (srv_node srv))
        (node_space (srv_node (snd (handle_frame (clock 0) f srv))))"
      using f(3) by (intro own_step_handle_frame) auto
    ultimately show ?thesis using Ev_peer assms(2,3) f(1,2) by (auto simp: on_server_def session_run_frame)
  next
    case (Ev_initialize ip prt desired dial)
    then show ?thesis using assms(2,3) by (simp add: initialize_def ok_def own_step_same)
  next
    case Ev_shutdown
    then show ?thesis using assms(2,3) by (simp add: shutdown_def)
  next
    case (Ev_registerCallback now o2 key cb)
    then show ?thesis using assms(2,3) own_step_callbacks(1) [of H "srv_owner srv" "srv_node srv" now o2 key cb]
      by (auto simp: api_defs with_client_def split_beta)
  next
    case Ev_callbacks
    then show ?thesis using assms(2,3)
      by (auto simp: on_server_def on_node_def run_strand_def own_step_same split: list.splits)
  qed (use assms(2,3) own own_step_remotePair own_step_callbacks(2) in
    \<open>auto simp: api_defs with_client_def on_server_def on_node_def on_client_def split_beta own_step_same\<close>)
qed

lemma start_empty:
  assumes "running k = None" "running (kernel_step ev k) = Some srv"
  shows "published (node_space (srv_node srv)) = (\<lambda>_. None) \<and> node_all G K (srv_node srv) \<and>
    in_progress (kernel_step ev k) = in_progress k"
proof (cases ev)
  case (Ev_initialize ip prt desired dial)
  have "published empty_space = (\<lambda>_. None)" by (simp add: fun_eq_iff published_def empty_space_def)
  then show ?thesis using assms Ev_initialize
    by (auto simp: initialize_def ok_def new_server_def startWorkers_def bindE_eq_Inr Let_def shutdown_def
        new_node_def node_all_def client_all_onWelcome split: sum.splits if_splits)
qed (use assms in \<open>simp_all add: api_defs with_client_def on_server_def shutdown_def continue_call_def\<close>)

lemma own_values_mem:
  assumes "ps_inv (node_space (srv_node srv))"
  shows "(k, x) \<in> set (own_values srv) \<longleftrightarrow> published (node_space (srv_node srv)) k = Some x \<and> pk_owner k = srv_owner srv"
proof
  assume "(k, x) \<in> set (own_values srv)"
  then obtain p where "k = key_of p" "x = (getValue p, getType p)" "getOwner p = srv_owner srv"
    "p \<in> set (visible_pairs (node_space (srv_node srv)))" by (auto simp: own_values_def)
  then show "published (node_space (srv_node srv)) k = Some x \<and> pk_owner k = srv_owner srv"
    by (auto simp: visible_pairs_mem [OF assms] published_def key_of_def)
next
  assume "published (node_space (srv_node srv)) k = Some x \<and> pk_owner k = srv_owner srv"
  then obtain e where e: "m_find (pairs (node_space (srv_node srv))) k = Some e" "getType (pe_pair e) \<noteq> PT_Invalid"
    "x = (getValue (pe_pair e), getType (pe_pair e))" "pk_owner k = srv_owner srv"
    by (auto simp: published_def split: option.splits if_splits)
  then have k: "key_of (pe_pair e) = k" using assms by (simp add: ps_inv_def entries_ok_def)
  then have "pe_pair e \<in> set (visible_pairs (node_space (srv_node srv)))"
    using e by (auto simp: visible_pairs_mem [OF assms])
  then show "(k, x) \<in> set (own_values srv)"
    using e k unfolding own_values_def by (force simp: key_of_def)
qed

lemma sound_step:
  assumes "kernel_reach k" "handles_left k" "sound H k" "honest_event H ev"
  shows "sound (H @ observe own_values (kernel_step ev k)) (kernel_step ev k)"
proof (cases "running (kernel_step ev k)")
  case (Some srv')
  let ?H = "H @ own_values srv'"
  have inv: "kernel_inv k" "kernel_inv (kernel_step ev k)"
    using assms(1,2) by (simp_all add: kernel_reach_inv kernel_inv_step)
  then have ps: "ps_inv (node_space (srv_node srv'))"
    using Some by (simp add: kernel_inv_def node_up_def node_invD)
  have "space_fine ?H (node_space (srv_node srv')) \<and> node_all (honest ?H) (fine ?H) (srv_node srv') \<and>
      list_all (job_all (honest ?H) (fine ?H)) (in_progress (kernel_step ev k))"
  proof (cases "running k")
    case None
    then have "in_progress (kernel_step ev k) = []"
      using start_empty [OF None Some] inv(1) by (simp add: kernel_inv_def)
    then show ?thesis using start_empty [OF None Some] by (simp add: space_fine_def)
  next
    case old: (Some srv)
    have step: "srv_owner srv' = srv_owner srv"
      "own_step H (srv_owner srv) (node_space (srv_node srv)) (node_space (srv_node srv'))"
      using own_step_kernel [OF inv(1) old Some assms(4)] by auto
    have before: "space_fine H (node_space (srv_node srv))" "node_all (honest ?H) (fine ?H) (srv_node srv)"
      "list_all (job_all (honest ?H) (fine ?H)) (in_progress k)"
      using assms(3) old by (simp_all add: sound_def node_all_mono list_all_iff job_all_mono)
    have space: "space_fine ?H (node_space (srv_node srv'))"
      using step before(1) own_values_mem [OF ps] unfolding space_fine_def own_step_def by (metis Un_iff set_append)
    note all = space_fine_all [OF ps space]
    have "list_all (job_all (honest ?H) (fine ?H)) (in_progress (kernel_step ev k))"
      by (rule net.in_progress_step_all [OF old before(2,3)]) (use Some all in simp)
    moreover have "node_all (honest ?H) (fine ?H) (srv_node srv')"
    proof (cases "\<exists>clock bs. ev = Ev_peer clock bs")
      case True
      then obtain clock f where "ev = Ev_peer clock (frame_bytes f)" "sendable f"
        using assms(4) by (auto simp: honest_def)
      then have "srv' = snd (handle_frame (clock 0) f srv)"
        using Some old by (simp add: on_server_def session_run_frame)
      then show ?thesis using net.handle_frame_all [OF before(2)] all by blast
    next
      case False
      then show ?thesis using net.kernel_step_all [OF old before(2) Some all] before(3) by blast
    qed
    ultimately show ?thesis using space by simp
  qed
  then show ?thesis using Some by (simp add: sound_def observe_def)
next
  case None
  have "kernel_inv (kernel_step ev k)" using assms(1,2) by (simp add: kernel_reach_inv kernel_inv_step)
  then have "in_progress (kernel_step ev k) = []" using None by (simp add: kernel_inv_def)
  then show ?thesis using None by (simp add: sound_def observe_def)
qed

lemma net_inv_advance:
  assumes "net_inv N" "allowed i ev N"
  shows "net_inv (net_advance i ev N)"
proof -
  let ?k = "procs N ! i" and ?k' = "kernel_step ev (procs N ! i)"
  let ?H = "history N @ observe own_values ?k'"
  have i: "i < length (procs N)" "handles_left ?k" using assms(2) by (simp_all add: allowed_def)
  have honest: "honest_event (history N) ev"
    using assms by (cases ev) (simp_all add: allowed_def net_inv_def list_all_iff)
  have k: "kernel_reach ?k" "sound (history N) ?k" using assms(1) i(1) by (simp_all add: net_inv_def list_all_length)
  have sound: "sound ?H ?k'" using k i(2) honest by (intro sound_step)
  then have "list_all (honest ?H) (observe begun ?k')"
    by (cases "running ?k'") (auto simp: observe_def sound_def begun_honest)
  moreover have "list_all (sound ?H) (procs N)" "list_all (honest ?H) (on_wire N)"
    using assms(1) by (auto simp: net_inv_def list_all_iff sound_mono honest_mono)
  moreover have "kernel_reach ?k'" using k(1) i(2) by (rule reach_step)
  ultimately show ?thesis using assms(1) sound i(1)
    by (simp add: net_inv_def net_advance_def Let_def) (simp add: list_all_length nth_list_update)
qed

lemma net_reach_inv: "net_reach N \<Longrightarrow> net_inv N"
proof (induction rule: net_reach.induct)
  case (net_begin n)
  show ?case by (simp add: net_inv_def net_start_def list_all_iff reach_start sound_def) (simp add: no_node_def)
qed (rule net_inv_advance)

text \<open>
  Every entry of the history goes back to an earlier state of the network in which a process with that owner id
  held the value under its own id.
\<close>

definition net_next :: "'cb Net \<Rightarrow> 'cb Net \<Rightarrow> bool" where
  "net_next N N' \<longleftrightarrow> (\<exists>i ev. allowed i ev N \<and> N' = net_advance i ev N)"

definition held_by_owner :: "'cb Net \<Rightarrow> PairKey \<Rightarrow> string \<times> PairType \<Rightarrow> bool" where
  "held_by_owner N k x \<longleftrightarrow> (\<exists>N0 j srv. net_reach N0 \<and> net_next\<^sup>*\<^sup>* N0 N \<and> j < length (procs N0) \<and>
     running (procs N0 ! j) = Some srv \<and> srv_owner srv = pk_owner k \<and> published (node_space (srv_node srv)) k = Some x)"

lemma held_by_owner_step: "held_by_owner N k x \<Longrightarrow> net_next N N' \<Longrightarrow> held_by_owner N' k x"
  unfolding held_by_owner_def by (meson rtranclp.rtrancl_into_rtrancl)

lemma history_held: "net_reach N \<Longrightarrow> (k, x) \<in> set (history N) \<Longrightarrow> held_by_owner N k x"
proof (induction rule: net_reach.induct)
  case (net_step N i ev)
  let ?N = "net_advance i ev N"
  have "net_reach ?N" using net_step.hyps by (rule net_reach.net_step)
  show ?case
  proof (cases "(k, x) \<in> set (history N)")
    case True
    then have "held_by_owner N k x" by (rule net_step.IH)
    moreover have "net_next N ?N" using net_step.hyps(2) by (auto simp: net_next_def)
    ultimately show ?thesis by (rule held_by_owner_step)
  next
    case False
    with net_step.prems obtain srv where srv: "running (kernel_step ev (procs N ! i)) = Some srv" "(k, x) \<in> set (own_values srv)"
      by (cases "running (kernel_step ev (procs N ! i))") (auto simp: net_advance_def Let_def observe_def)
    have i: "i < length (procs N)" using net_step.hyps(2) by (simp add: allowed_def)
    then have k: "procs ?N ! i = kernel_step ev (procs N ! i)" "i < length (procs ?N)" by (simp_all add: net_advance_def Let_def)
    then have "kernel_inv (procs ?N ! i)"
      using net_reach_inv [OF \<open>net_reach ?N\<close>] by (auto simp: net_inv_def list_all_length kernel_reach_inv)
    then have "ps_inv (node_space (srv_node srv))"
      using k(1) srv(1) by (simp add: kernel_inv_def node_up_def node_invD)
    then have "published (node_space (srv_node srv)) k = Some x" "srv_owner srv = pk_owner k"
      using own_values_mem [of srv k x] srv(2) by simp_all
    then show ?thesis
      using srv(1) k \<open>net_reach ?N\<close> unfolding held_by_owner_def
      by (intro exI [of _ ?N] exI [of _ i] exI [of _ srv]) simp
  qed
qed (simp add: net_start_def)

subsection \<open>Runs\<close>

lemma procs_advance [simp]:
  "length (procs (net_advance i ev N)) = length (procs N)"
  "i < length (procs N) \<Longrightarrow> procs (net_advance i ev N) ! j = (if j = i then kernel_step ev (procs N ! i) else procs N ! j)"
  by (simp_all add: net_advance_def Let_def)

lemma on_wire_advance [simp]: "on_wire (net_advance i ev N) = on_wire N @ observe begun (kernel_step ev (procs N ! i))"
  by (simp add: net_advance_def Let_def)

text \<open>A step of one session object: the rest of the node stays.\<close>

definition on_object :: "nat \<Rightarrow> (ClientSession \<Rightarrow> ClientSession) \<Rightarrow> 'cb Server \<Rightarrow> 'cb Server" where
  "on_object sid f = on_node (\<lambda>n. n\<lparr>node_client := update_object sid f (node_client n)\<rparr>)"

lemma on_object_simps [simp]:
  "srv_owner (on_object sid f srv) = srv_owner srv"
  "node_space (srv_node (on_object sid f srv)) = node_space (srv_node srv)"
  "length (objects (node_client (srv_node (on_object sid f srv)))) = length (objects (node_client (srv_node srv)))"
  "next_subscription_handle (node_client (srv_node (on_object sid f srv))) = next_subscription_handle (node_client (srv_node srv))"
  "sid < length (objects (node_client (srv_node srv))) \<Longrightarrow> objects (node_client (srv_node (on_object sid f srv))) ! sid =
     f (objects (node_client (srv_node srv)) ! sid)"
  by (simp_all add: on_object_def on_node_def)

lemma session_steps:
  assumes "running k = Some srv"
  shows "running (kernel_step (Ev_connected sid) k) = Some (on_object sid run_connected srv)"
    "running (kernel_step (Ev_session sid) k) = Some (on_object sid (run_step (replay_frames
       (endpoint_owner_id (objects (node_client (srv_node srv)) ! sid)) (node_client (srv_node srv)))) srv)"
    "running (kernel_step (Ev_drain sid succeeds) k) = Some (on_object sid (session_drain succeeds) srv)"
  using assms by (simp_all add: on_server_def on_node_def on_object_def client_connected_def client_run_step_def
      client_drain_def)

text \<open>A frame that waits for its connection is on the wire once the session is connected and has run.\<close>

lemma pending_emitted:
  assumes "run_at s = Connecting" "\<not> closing s" "pending s = [ob]"
  shows "\<exists>c. channel (session_drain True (run_step subs (run_connected s))) = Some c \<and> ob \<in> set (in_flight c)"
proof -
  let ?c = "start_drain (push_outbound ob new_channel)"
  have "channel_send (ob_bytes ob) (ob_key ob) new_channel = ?c"
    by (simp add: channel_send_def send_locked_def makeRoomLocked_def new_channel_def kMaxOutboxFrames_def
        start_drain_def push_outbound_def Let_def)
  then have "channel (run_step subs (run_connected s)) = Some ?c"
    using assms by (simp add: run_connected_def run_step_def)
  moreover have "ob \<in> set (in_flight (channel_drain True ?c))"
    by (simp add: channel_drain_def drain_top_def start_drain_def push_outbound_def new_channel_def in_flight_def)
  ultimately show ?thesis by (simp add: session_drain_def)
qed

lemma begunI:
  "s \<in> set (objects (node_client (srv_node srv))) \<Longrightarrow> channel s = Some c \<Longrightarrow> ob \<in> set (in_flight c) \<Longrightarrow>
   ob_bytes ob \<in> set (begun srv)"
  by (force simp: begun_def)

lemma net_emit:
  assumes "net_reach N" "i < length (procs N)" "running (procs N ! i) = Some srv" "handles_left (procs N ! i)"
    and "sid < length (objects (node_client (srv_node srv)))" "objects (node_client (srv_node srv)) ! sid = s"
    and "run_at s = Connecting" "\<not> closing s" "pending s = [ob]"
  obtains N' srv' where "net_reach N'" "length (procs N') = length (procs N)" "\<forall>j. j \<noteq> i \<longrightarrow> procs N' ! j = procs N ! j"
    "running (procs N' ! i) = Some srv'" "node_space (srv_node srv') = node_space (srv_node srv)" "ob_bytes ob \<in> set (on_wire N')"
    "handles_left (procs N' ! i)" "srv_owner srv' = srv_owner srv"
proof -
  define srv1 where "srv1 = on_object sid run_connected srv"
  define subs where "subs = replay_frames (endpoint_owner_id (objects (node_client (srv_node srv1)) ! sid)) (node_client (srv_node srv1))"
  define srv2 where "srv2 = on_object sid (run_step subs) srv1"
  define srv3 where "srv3 = on_object sid (session_drain True) srv2"
  define N1 where "N1 = net_advance i (Ev_connected sid) N"
  define N2 where "N2 = net_advance i (Ev_session sid) N1"
  define N3 where "N3 = net_advance i (Ev_drain sid True) N2"
  have len: "length (procs N1) = length (procs N)" "length (procs N2) = length (procs N)" "length (procs N3) = length (procs N)"
    by (simp_all add: N1_def N2_def N3_def)
  have k1: "running (procs N1 ! i) = Some srv1"
    using assms(2,3) by (simp add: N1_def srv1_def session_steps del: kernel_step.simps)
  have k2: "running (procs N2 ! i) = Some srv2"
    using assms(2) k1 len(1) by (simp add: N2_def srv2_def subs_def session_steps del: kernel_step.simps)
  have k3: "running (procs N3 ! i) = Some srv3"
    using assms(2) k2 len(2) by (simp add: N3_def srv3_def session_steps del: kernel_step.simps)
  have left: "handles_left (procs N1 ! i)" "handles_left (procs N2 ! i)" "handles_left (procs N3 ! i)"
    using assms(3,4) k1 k2 k3 by (simp_all add: handles_left_def srv1_def srv2_def srv3_def)
  then have "net_reach N3"
    using assms(1,2,4) unfolding N3_def N2_def N1_def by (intro net_step) (simp_all add: allowed_def)
  moreover have "session_drain True (run_step subs (run_connected s)) \<in> set (objects (node_client (srv_node srv3)))"
  proof -
    have "objects (node_client (srv_node srv3)) ! sid = session_drain True (run_step subs (run_connected s))"
      using assms(5,6) by (simp add: srv1_def srv2_def srv3_def)
    then show ?thesis using assms(5) nth_mem [of sid "objects (node_client (srv_node srv3))"]
      by (simp add: srv1_def srv2_def srv3_def)
  qed
  then have "ob_bytes ob \<in> set (begun srv3)" using pending_emitted [OF assms(7-9), of subs] begunI by metis
  then have "ob_bytes ob \<in> set (on_wire N3)"
    using k3 assms(2) len(2) by (simp add: N3_def observe_def del: kernel_step.simps)
  moreover have "procs N3 ! j = procs N ! j" if "j \<noteq> i" for j
    using that assms(2) by (simp add: N1_def N2_def N3_def)
  ultimately show thesis using that [of N3 srv3] k3 len(3) left(3) by (simp add: srv1_def srv2_def srv3_def)
qed

lemma net_node_inv:
  assumes "net_reach N" "i < length (procs N)" "running (procs N ! i) = Some srv"
  shows "node_inv (srv_node srv)"
proof -
  have "kernel_inv (procs N ! i)"
    using net_reach_inv [OF assms(1)] assms(2) by (simp add: net_inv_def list_all_length kernel_reach_inv)
  then show ?thesis using assms(3) by (simp add: kernel_inv_def node_up_def)
qed

lemma handles_left_setPair:
  "next_subscription_handle (node_client (snd (client_setPair now key val ty n))) = next_subscription_handle (node_client n)"
  "next_callback_handle (node_space (snd (client_setPair now key val ty n))) = next_callback_handle (node_space n)"
proof -
  have "next_subscription_handle c' = next_subscription_handle c" if "fanOutPair p subs c = Inr c'" for p subs c' and c :: "'a Client"
  proof -
    have "next_subscription_handle (fold (send_to fr k) subs c) = next_subscription_handle c" for fr k and c :: "'a Client"
      by (induction subs arbitrary: c) (simp_all add: send_to_def split: option.splits)
    then show ?thesis using that by (auto simp: fanOutPair_def bindE_eq_Inr)
  qed
  then show "next_subscription_handle (node_client (snd (client_setPair now key val ty n))) = next_subscription_handle (node_client n)"
    "next_callback_handle (node_space (snd (client_setPair now key val ty n))) = next_callback_handle (node_space n)"
    by (auto simp: client_setPair_def Let_def notifyLocal_def split: option.splits sum.splits)
qed

text \<open>So is a frame queued for a peer that the node is not yet connected to.\<close>

lemma net_emit_peer:
  assumes "net_reach N" "i < length (procs N)" "running (procs N ! i) = Some srv" "handles_left (procs N ! i)"
    and "peer_session (node_client (srv_node srv)) j = Some (session_send fr key (new_session h p owner))"
  obtains N' srv' where "net_reach N'" "length (procs N') = length (procs N)" "\<forall>l. l \<noteq> i \<longrightarrow> procs N' ! l = procs N ! l"
    "running (procs N' ! i) = Some srv'" "node_space (srv_node srv') = node_space (srv_node srv)" "fr \<in> set (on_wire N')"
    "handles_left (procs N' ! i)" "srv_owner srv' = srv_owner srv"
proof -
  have "client_inv (node_client (srv_node srv))" using net_node_inv [OF assms(1-3)] by (rule node_invD)
  then obtain sid where sid: "sid < length (objects (node_client (srv_node srv)))"
    "objects (node_client (srv_node srv)) ! sid = session_send fr key (new_session h p owner)"
    using assms(5) by (auto simp: peer_session_def client_inv_def sessions_ok_def)
  show thesis
    by (rule net_emit [OF assms(1-4) sid, of "\<lparr>ob_bytes = fr, ob_key = key\<rparr>"])
      (use that in \<open>auto simp: session_send_def session_send_locked_def new_session_def\<close>)
qed

lemma net_deliver:
  assumes "net_reach N" "i < length (procs N)" "running (procs N ! i) = Some srv" "handles_left (procs N ! i)"
    and "bs \<in> set (on_wire N)" "channel_read (bs @ []) = Inr (f, [])"
  shows "net_reach (net_advance i (Ev_peer (\<lambda>_. t) bs) N)"
    "running (procs (net_advance i (Ev_peer (\<lambda>_. t) bs) N) ! i) = Some (snd (handle_frame t f srv))"
proof -
  show "net_reach (net_advance i (Ev_peer (\<lambda>_. t) bs) N)"
    using assms by (intro net_step) (simp_all add: allowed_def)
  obtain g where g: "sendable g" "bs = frame_bytes g"
    using net_reach_inv [OF assms(1)] assms(5) by (auto simp: net_inv_def list_all_iff honest_def)
  then have "g = f" using channel_read_frame [OF g(1), of "[]"] assms(6) by simp
  then show "running (procs (net_advance i (Ev_peer (\<lambda>_. t) bs) N) ! i) = Some (snd (handle_frame t f srv))"
    using assms(2,3) g by (simp add: on_server_def session_run_frame)
qed

end
