(* ===== verification/Meta_Tracker.thy ===== *)
theory Meta_Tracker
  imports Kernel
begin

text \<open>
  \<^verbatim>\<open>include/srnp/meta_pair_callback.hpp\<close> and \<^verbatim>\<open>src/meta_pair_callback.cpp\<close>: trackers, which follow the pair a
  meta-pair names and move a subscription and a callback along when the meta-pair changes.

  The callbacks of the node are those of the user and \<^verbatim>\<open>onMetaPairChanged\<close>, so their type is \<open>tracker_cb\<close>.
  \<^verbatim>\<open>g_trackers\<close> maps a meta-pair's key to its tracker. A tracker is changed in place through a reference, so
  what an operation did before it threw stays done: the operations work on the tracker and the kernel
  together. \<^verbatim>\<open>g_mutex\<close> makes each function one step.

  The trackers use the node through handles only; what they rely on is the locale \<open>handle_registry\<close>,
  interpreted for the callbacks and for the subscriptions of the kernel. Shown: after a change of the
  meta-pair the tracker holds the new target and nothing of the old one is left; cancelling undoes a
  registration; and two trackers of one target interfere.
\<close>

subsection \<open>State\<close>

datatype 'u tracker_cb = User 'u | OnMetaPairChanged

record 'u MetaTracker =
  fn :: "'u option"
  meta_subscription :: SubscriptionHandle
  meta_callback :: CallbackHandle
  target :: "PairKey option"
  target_subscription :: SubscriptionHandle
  target_callback :: CallbackHandle

type_synonym 'u tracked = "'u MetaTracker \<times> 'u tracker_cb Kernel"

record 'u Trackers =
  g_trackers :: "(PairKey, 'u MetaTracker) std_map"
  tk_kernel :: "'u tracker_cb Kernel"

definition new_tracker :: "'u option \<Rightarrow> 'u MetaTracker" where
  "new_tracker cb = \<lparr>fn = cb, meta_subscription = kInvalidSubscriptionHandle,
     meta_callback = kInvalidCallbackHandle, target = None,
     target_subscription = kInvalidSubscriptionHandle, target_callback = kInvalidCallbackHandle\<rparr>"

text \<open>Statements in sequence: the second runs only when the first did not throw.\<close>

definition andThen :: "('s \<Rightarrow> 'a result \<times> 's) \<Rightarrow> ('a \<Rightarrow> 's \<Rightarrow> 'b result \<times> 's) \<Rightarrow> 's \<Rightarrow> 'b result \<times> 's" where
  "andThen m f s = (case m s of (Inl e, s1) \<Rightarrow> (Inl e, s1) | (Inr x, s1) \<Rightarrow> f x s1)"

definition call :: "('u tracker_cb Kernel \<Rightarrow> 'a result \<times> 'u tracker_cb Kernel) \<Rightarrow> 'u tracked \<Rightarrow> 'a result \<times> 'u tracked" where
  "call f s = (case f (snd s) of (r, k) \<Rightarrow> (r, (fst s, k)))"

definition store :: "('u MetaTracker \<Rightarrow> 'u MetaTracker) \<Rightarrow> 'u tracked \<Rightarrow> unit result \<times> 'u tracked" where
  "store f s = (Inr (), (f (fst s), snd s))"

definition skip :: "'u tracked \<Rightarrow> unit result \<times> 'u tracked" where
  "skip s = (Inr (), s)"

subsection \<open>Operations\<close>

definition releaseCallback :: "'u tracked \<Rightarrow> unit result \<times> 'u tracked" where
  "releaseCallback s =
     (if target_callback (fst s) \<noteq> kInvalidCallbackHandle
      then andThen (call (srnp_cancelCallback (target_callback (fst s))))
             (\<lambda>_. store (\<lambda>t. t\<lparr>target_callback := kInvalidCallbackHandle\<rparr>)) s
      else skip s)"

definition releaseSubscription :: "'u tracked \<Rightarrow> unit result \<times> 'u tracked" where
  "releaseSubscription s =
     (if target_subscription (fst s) \<noteq> kInvalidSubscriptionHandle
      then andThen (call (srnp_cancelSubscription (target_subscription (fst s))))
             (\<lambda>_. store (\<lambda>t. t\<lparr>target_subscription := kInvalidSubscriptionHandle\<rparr>)) s
      else skip s)"

definition releaseTarget :: "'u tracked \<Rightarrow> unit result \<times> 'u tracked" where
  "releaseTarget =
     andThen releaseCallback (\<lambda>_. andThen releaseSubscription (\<lambda>_. store (\<lambda>t. t\<lparr>target := None\<rparr>)))"

definition acquireTarget :: "TimePoint \<Rightarrow> PairKey \<Rightarrow> 'u tracked \<Rightarrow> unit result \<times> 'u tracked" where
  "acquireTarget now x =
     andThen (store (\<lambda>t. t\<lparr>target := Some x\<rparr>)) (\<lambda>_.
     andThen (call (srnp_registerSubscription (pk_owner x) (pk_key x))) (\<lambda>h.
     andThen (store (\<lambda>t. t\<lparr>target_subscription := h\<rparr>)) (\<lambda>_ s.
       case fn (fst s) of
         None \<Rightarrow> skip s
       | Some f \<Rightarrow>
           andThen (call (srnp_registerCallback now (pk_owner x) (pk_key x) (User f)))
             (\<lambda>h. store (\<lambda>t. t\<lparr>target_callback := h\<rparr>)) s)))"

definition onMetaPairChanged :: "TimePoint \<Rightarrow> Pair \<Rightarrow> 'u Trackers \<Rightarrow> unit result \<times> 'u Trackers" where
  "onMetaPairChanged now metapair m =
     (let meta_key = PairKey (getOwner metapair) (getKey metapair)
      in case m_find (g_trackers m) meta_key of
           None \<Rightarrow> (Inr (), m)
         | Some tracker \<Rightarrow>
             let x = tracker_parseMetaValue (getValue metapair)
             in if x = target tracker then (Inr (), m)
                else case andThen releaseTarget
                            (\<lambda>_. case x of None \<Rightarrow> skip | Some x \<Rightarrow> acquireTarget now x) (tracker, tk_kernel m) of
                       (r, (t, k)) \<Rightarrow> (r, \<lparr>g_trackers = m_assign meta_key t (g_trackers m), tk_kernel = k\<rparr>))"

definition registerTracker :: "TimePoint \<Rightarrow> i32 \<Rightarrow> string \<Rightarrow> 'u option \<Rightarrow> 'u Trackers \<Rightarrow> unit result \<times> 'u Trackers" where
  "registerTracker now meta_owner_id meta_pair_key cb m =
     (let meta_key = PairKey meta_owner_id meta_pair_key
      in case m_find (g_trackers m) meta_key of
           Some tracker \<Rightarrow> (Inr (), m\<lparr>g_trackers := m_assign meta_key (tracker\<lparr>fn := cb\<rparr>) (g_trackers m)\<rparr>)
         | None \<Rightarrow>
             (case andThen (call (srnp_registerSubscription meta_owner_id meta_pair_key)) (\<lambda>h.
                   andThen (store (\<lambda>t. t\<lparr>meta_subscription := h\<rparr>)) (\<lambda>_.
                   andThen (call (srnp_registerCallback now meta_owner_id meta_pair_key OnMetaPairChanged)) (\<lambda>h.
                   store (\<lambda>t. t\<lparr>meta_callback := h\<rparr>)))) (new_tracker cb, tk_kernel m) of
                (Inl e, (t, k)) \<Rightarrow> (Inl e, m\<lparr>tk_kernel := k\<rparr>)
              | (Inr _, (t, k)) \<Rightarrow> (Inr (), \<lparr>g_trackers = m_emplace meta_key t (g_trackers m), tk_kernel = k\<rparr>)))"

definition registerMetaCallback :: "TimePoint \<Rightarrow> i32 \<Rightarrow> string \<Rightarrow> 'u \<Rightarrow> 'u Trackers \<Rightarrow> unit result \<times> 'u Trackers" where
  "registerMetaCallback now meta_owner_id meta_pair_key cb =
     registerTracker now meta_owner_id meta_pair_key (Some cb)"

definition registerMetaSubscription :: "TimePoint \<Rightarrow> i32 \<Rightarrow> string \<Rightarrow> 'u Trackers \<Rightarrow> unit result \<times> 'u Trackers" where
  "registerMetaSubscription now meta_owner_id meta_pair_key = registerTracker now meta_owner_id meta_pair_key None"

definition cancelMetaCallback :: "i32 \<Rightarrow> string \<Rightarrow> 'u Trackers \<Rightarrow> unit result \<times> 'u Trackers" where
  "cancelMetaCallback meta_owner_id meta_pair_key m =
     (let meta_key = PairKey meta_owner_id meta_pair_key
      in case m_find (g_trackers m) meta_key of
           None \<Rightarrow> (Inr (), m)
         | Some tracker \<Rightarrow>
             (case andThen releaseTarget (\<lambda>_ s.
                   andThen (call (srnp_cancelSubscription (meta_subscription (fst s)))) (\<lambda>_ s.
                   call (srnp_cancelCallback (meta_callback (fst s))) s) s) (tracker, tk_kernel m) of
                (Inl e, (t, k)) \<Rightarrow> (Inl e, \<lparr>g_trackers = m_assign meta_key t (g_trackers m), tk_kernel = k\<rparr>)
              | (Inr _, (t, k)) \<Rightarrow> (Inr (), \<lparr>g_trackers = m_erase meta_key (g_trackers m), tk_kernel = k\<rparr>)))"

definition cancelMetaSubscription :: "i32 \<Rightarrow> string \<Rightarrow> 'u Trackers \<Rightarrow> unit result \<times> 'u Trackers" where
  "cancelMetaSubscription meta_owner_id meta_pair_key = cancelMetaCallback meta_owner_id meta_pair_key"

subsection \<open>What a tracker relies on\<close>

text \<open>
  A table of registrations behind handles: adding yields a fresh handle or refuses with the null handle,
  removing frees just that handle, and the null handle never names a registration.
\<close>

locale handle_registry =
  fixes view :: "'s \<Rightarrow> 'h \<Rightarrow> 'r option"
    and add :: "'a \<Rightarrow> 's \<Rightarrow> 'h result \<times> 's"
    and remove :: "'h \<Rightarrow> 's \<Rightarrow> unit result \<times> 's"
    and entry :: "'a \<Rightarrow> 'r"
    and null :: 'h
    and good :: "'s \<Rightarrow> bool"
    and room :: "'s \<Rightarrow> bool"
  assumes add_fresh: "good s \<Longrightarrow> room s \<Longrightarrow> add a s = (Inr h, s') \<Longrightarrow> h \<noteq> null \<Longrightarrow>
      view s h = None \<and> view s' = (view s)(h \<mapsto> entry a)"
    and add_refused: "good s \<Longrightarrow> room s \<Longrightarrow> add a s = (Inr null, s') \<Longrightarrow>
      view s' = view s \<and> (\<exists>h. view s h = Some (entry a))"
    and remove_frees: "good s \<Longrightarrow> remove h s = (Inr u, s') \<Longrightarrow> view s' = (view s)(h := None)"
    and null_free: "good s \<Longrightarrow> view s null = None"
    and good_add: "good s \<Longrightarrow> room s \<Longrightarrow> good (snd (add a s))"
    and good_remove: "good s \<Longrightarrow> good (snd (remove h s))"
begin

lemma add_present:
  assumes "good s" "room s" "add a s = (Inr h, s')"
  shows "\<exists>h'. view s' h' = Some (entry a)"
proof (cases "h = null")
  case True
  then show ?thesis using add_refused assms by simp
next
  case False
  then show ?thesis using add_fresh [OF assms False] by (intro exI [of _ h]) simp
qed

lemma add_then_remove:
  assumes "good s" "room s" "add a s = (Inr h, s1)" "remove h s1 = (Inr u, s2)"
  shows "view s2 = view s"
proof -
  have "view s2 = (view s1)(h := None)"
    using remove_frees [OF _ assms(4)] good_add [OF assms(1,2), of a] assms(3) by simp
  then show ?thesis
    using add_fresh [OF assms(1-3)] add_refused [OF assms(1,2), of a s1] null_free [OF assms(1)] assms(3)
    by (cases "h = null") (simp_all add: fun_upd_idem)
qed

lemma remove_null: "good s \<Longrightarrow> remove null s = (Inr u, s') \<Longrightarrow> view s' = view s"
  using remove_frees null_free by (simp add: fun_upd_idem)

end

definition node_good :: "'cb Kernel \<Rightarrow> bool" where
  "node_good k \<longleftrightarrow> (\<exists>srv. running k = Some srv \<and> node_inv (srv_node srv))"

definition the_node :: "'cb Kernel \<Rightarrow> 'cb Node" where
  "the_node k = (case running k of None \<Rightarrow> new_node | Some srv \<Rightarrow> srv_node srv)"

definition sub_at :: "'cb Kernel \<Rightarrow> SubscriptionHandle \<Rightarrow> SubscriptionRecord option" where
  "sub_at k = m_find (subscriptions (node_client (the_node k)))"

text \<open>A callback handle names a callback on one pair, or one that covers every pair.\<close>

definition callback_at :: "'cb PairSpace \<Rightarrow> CallbackHandle \<Rightarrow> (PairKey option \<times> 'cb) option" where
  "callback_at s h =
     (case m_find (callback_owners s) h of
        Some x \<Rightarrow> map_option (\<lambda>cb. (Some x, cb)) (m_find (callbacks_of s x) h)
      | None \<Rightarrow> map_option (\<lambda>cb. (None, cb)) (m_find (universal_callbacks s) h))"

definition cb_at :: "'cb Kernel \<Rightarrow> CallbackHandle \<Rightarrow> (PairKey option \<times> 'cb) option" where
  "cb_at k = callback_at (node_space (the_node k))"

definition sub_room :: "'cb Kernel \<Rightarrow> bool" where
  "sub_room k \<longleftrightarrow> next_subscription_handle (node_client (the_node k)) + 1 \<noteq> 0"

definition cb_room :: "'cb Kernel \<Rightarrow> bool" where
  "cb_room k \<longleftrightarrow> next_callback_handle (node_space (the_node k)) + 1 \<noteq> 0"

definition watched :: "PairKey \<Rightarrow> PairKey option" where
  "watched x = (if pk_key x = kWildcardKey then None else Some x)"

definition sub_record :: "PairKey \<Rightarrow> SubscriptionRecord" where
  "sub_record x = \<lparr>sr_owner = pk_owner x, sr_key = pk_key x\<rparr>"

lemma with_client_good:
  assumes "node_good k"
  shows "fst (with_client f k) = fst (f (the_node k))" "the_node (snd (with_client f k)) = snd (f (the_node k))"
    "node_op (the_node k) (snd (f (the_node k))) \<Longrightarrow> node_good (snd (with_client f k))"
  using assms by (auto simp: node_good_def with_client_def the_node_def node_op_def split_beta)

lemma node_good_inv: "node_good k \<Longrightarrow> node_inv (the_node k)"
  by (auto simp: node_good_def the_node_def)

lemma sub_at_unique: "node_good k \<Longrightarrow> sub_at k h = Some r \<Longrightarrow> sub_at k j = Some r \<Longrightarrow> h = j"
  using node_invD(2) [OF node_good_inv [of k]] by (auto simp: client_inv_def subscriptions_ok_def sub_at_def)

lemma removeCallback_tables:
  "callback_owners (removeCallback h s) = m_erase h (callback_owners s)"
  "universal_callbacks (removeCallback h s) =
     (if m_find (callback_owners s) h = None then m_erase h (universal_callbacks s) else universal_callbacks s)"
  by (simp_all add: removeCallback_def smap.erase_absent split: option.splits)

lemma callback_at_removeCallback:
  assumes "handles_ok s"
  shows "callback_at (removeCallback h s) = (callback_at s)(h := None)"
proof (rule ext)
  fix j
  have absent: "m_find (universal_callbacks s) h = None" if "m_find (callback_owners s) h = Some x" for x
    using assms that by (auto simp: handles_ok_def)
  show "callback_at (removeCallback h s) j = ((callback_at s)(h := None)) j"
    using absent
    by (auto simp: callback_at_def callbacks_removeCallback removeCallback_tables split: option.splits)
qed

lemma addCallbackToAll_tables:
  "callback_owners (snd (addCallbackToAll cb s)) = callback_owners s"
  "universal_callbacks (snd (addCallbackToAll cb s)) =
     m_emplace (next_callback_handle s + 1) cb (universal_callbacks s)"
  "callbacks_of (snd (addCallbackToAll cb s)) = callbacks_of s"
  by (simp_all add: addCallbackToAll_def Let_def callbacks_of_def
      fun_eq_iff split: option.splits)

lemma callback_at_addCallback:
  assumes "handles_ok s" "next_callback_handle s + 1 \<noteq> 0"
  shows "callback_at (snd (addCallback now owner key cb s)) =
    (callback_at s)(next_callback_handle s + 1 \<mapsto> (Some (PairKey owner key), cb))"
    "callback_at (snd (addCallbackToAll cb s)) = (callback_at s)(next_callback_handle s + 1 \<mapsto> (None, cb))"
    "callback_at s (next_callback_handle s + 1) = None"
  using fresh_handle [OF assms]
  by (auto simp: fun_eq_iff callback_at_def callbacks_addCallback addCallbackToAll_tables split: option.splits)

subsection \<open>The kernel provides it\<close>

definition add_sub :: "PairKey \<Rightarrow> 'cb Kernel \<Rightarrow> SubscriptionHandle result \<times> 'cb Kernel" where
  "add_sub x = srnp_registerSubscription (pk_owner x) (pk_key x)"

definition add_cb :: "TimePoint \<times> PairKey \<times> 'cb \<Rightarrow> 'cb Kernel \<Rightarrow> CallbackHandle result \<times> 'cb Kernel" where
  "add_cb a = (case a of (now, x, cb) \<Rightarrow> srnp_registerCallback now (pk_owner x) (pk_key x) cb)"

definition cb_entry :: "TimePoint \<times> PairKey \<times> 'cb \<Rightarrow> PairKey option \<times> 'cb" where
  "cb_entry a = (case a of (now, x, cb) \<Rightarrow> (watched x, cb))"

lemma registerSubscription_refused:
  assumes "registerSubscription owner key c = (Inr kInvalidSubscriptionHandle, c')"
    "next_subscription_handle c + 1 \<noteq> 0"
  shows "c' = c \<and> (\<exists>h. m_find (subscriptions c) h = Some \<lparr>sr_owner = owner, sr_key = key\<rparr>)"
proof (cases "list_ex (\<lambda>(h, r). sr_owner r = owner \<and> sr_key r = key) (m_entries (subscriptions c))")
  case True
  then obtain h r where "m_find (subscriptions c) h = Some r" "sr_owner r = owner" "sr_key r = key"
    by (auto simp: list_ex_iff smap.mem_entries_iff)
  moreover have "c' = c" using assms(1) True by (simp add: registerSubscription_def)
  ultimately show ?thesis by (intro conjI exI [of _ h]) simp_all
next
  case False
  then show ?thesis using assms
    by (auto simp: registerSubscription_def Let_def kInvalidSubscriptionHandle_def split: prod.splits sum.splits)
qed

lemma cancelSubscription_table: "subscriptions (snd (cancelSubscription h c)) = m_erase h (subscriptions c)"
proof (cases "m_find (subscriptions c) h")
  case (Some r)
  let ?c = "c\<lparr>subscriptions := m_erase h (subscriptions c)\<rparr>"
  obtain res c2 where send: "sendSubscription (sr_owner r) (sr_key r) False ?c = (res, c2)" by fastforce
  then have "subscriptions c2 = m_erase h (subscriptions c)"
    using sendSubscription_frame(1) [of "sr_owner r" "sr_key r" False ?c] by simp
  then show ?thesis using Some send by (cases res) (simp_all add: cancelSubscription_def)
qed (simp add: cancelSubscription_def smap.erase_absent)

lemma on_client_simps [simp]:
  "fst (on_client f n) = fst (f (node_client n))" "node_client (snd (on_client f n)) = snd (f (node_client n))"
  "node_space (snd (on_client f n)) = node_space n"
  by (simp_all add: on_client_def split_beta)

interpretation subs: handle_registry sub_at add_sub srnp_cancelSubscription sub_record
  kInvalidSubscriptionHandle node_good sub_room
proof
  fix s s' :: "'a Kernel" and a h u
  assume good: "node_good s"
  then have inv: "client_inv (node_client (the_node s))" by (simp add: node_good_inv node_invD)
  show "sub_at s kInvalidSubscriptionHandle = None"
    using inv by (auto simp: sub_at_def client_inv_def subscriptions_ok_def kInvalidSubscriptionHandle_def
        intro: option.exhaust)
  show "srnp_cancelSubscription h s = (Inr u, s') \<Longrightarrow> sub_at s' = (sub_at s)(h := None)"
  proof -
    assume "srnp_cancelSubscription h s = (Inr u, s')"
    then have "the_node s' = snd (on_client (cancelSubscription h) (the_node s))"
      by (metis snd_conv srnp_cancelSubscription_def with_client_good(2) [OF good])
    then show ?thesis by (simp add: sub_at_def cancelSubscription_table fun_eq_iff)
  qed
  show "node_good (snd (srnp_cancelSubscription h s))"
    unfolding srnp_cancelSubscription_def by (rule with_client_good(3) [OF good]) (rule node_op_cancelSubscription)
  assume room: "sub_room s"
  show "node_good (snd (add_sub a s))"
    unfolding add_sub_def srnp_registerSubscription_def
    using room by (intro with_client_good(3) [OF good] node_op_registerSubscription) (simp add: sub_room_def)
  have reg: "registerSubscription (pk_owner a) (pk_key a) (node_client (the_node s)) =
      (Inr h, node_client (the_node s'))" if "add_sub a s = (Inr h, s')" for h
    using that with_client_good(1,2) [OF good, of "on_client (registerSubscription (pk_owner a) (pk_key a))"]
    by (simp add: add_sub_def srnp_registerSubscription_def prod_eq_iff)
  show "sub_at s h = None \<and> sub_at s' = (sub_at s)(h \<mapsto> sub_record a)"
    if "add_sub a s = (Inr h, s')" "h \<noteq> kInvalidSubscriptionHandle"
    using registerSubscription_result [OF inv _ reg [OF that(1)] that(2)] room
    by (auto simp: sub_room_def sub_at_def sub_record_def fun_eq_iff)
  show "sub_at s' = sub_at s \<and> (\<exists>h. sub_at s h = Some (sub_record a))"
    if "add_sub a s = (Inr kInvalidSubscriptionHandle, s')"
    using registerSubscription_refused [OF reg [OF that]] room
    by (simp add: sub_room_def sub_at_def sub_record_def)
qed

lemma registerCallback_simps:
  "fst (client_registerCallback now owner key cb n) = next_callback_handle (node_space n) + 1"
  "node_client (snd (client_registerCallback now owner key cb n)) = node_client n"
  "handles_ok (node_space n) \<Longrightarrow> next_callback_handle (node_space n) + 1 \<noteq> 0 \<Longrightarrow>
     callback_at (node_space (snd (client_registerCallback now owner key cb n))) =
       (callback_at (node_space n))(next_callback_handle (node_space n) + 1 \<mapsto> (watched (PairKey owner key), cb))"
  by (simp_all add: client_registerCallback_def split_beta watched_def callback_at_addCallback)
    (simp add: addCallbackToAll_def Let_def)

lemma null_handle:
  assumes "handles_ok s"
  shows "m_find (callback_owners s) 0 = None" "m_find (universal_callbacks s) 0 = None"
  using assms unfolding handles_ok_def by (metis less_irrefl)+

interpretation cbs: handle_registry cb_at add_cb srnp_cancelCallback cb_entry
  kInvalidCallbackHandle node_good cb_room
proof
  fix s s' :: "'a Kernel" and a :: "TimePoint \<times> PairKey \<times> 'a" and h u
  assume good: "node_good s"
  then have ok: "handles_ok (node_space (the_node s))"
    using node_good_inv [OF good] node_invD(1) by (simp add: ps_inv_def node_inv_def)
  obtain now x cb where a: "a = (now, x, cb)" by (cases a)
  let ?reg = "client_registerCallback now (pk_owner x) (pk_key x) cb (the_node s)"
  show "cb_at s kInvalidCallbackHandle = None"
    using null_handle [OF ok] by (simp add: cb_at_def callback_at_def kInvalidCallbackHandle_def)
  show "srnp_cancelCallback h s = (Inr u, s') \<Longrightarrow> cb_at s' = (cb_at s)(h := None)"
  proof -
    assume "srnp_cancelCallback h s = (Inr u, s')"
    then have "the_node s' = client_cancelCallback h (the_node s)"
      by (metis snd_conv srnp_cancelCallback_def with_client_good(2) [OF good])
    then show ?thesis using ok by (simp add: cb_at_def client_cancelCallback_def callback_at_removeCallback)
  qed
  show "node_good (snd (srnp_cancelCallback h s))"
    unfolding srnp_cancelCallback_def
    by (rule with_client_good(3) [OF good]) (simp add: node_op_cancelCallback)
  assume room: "cb_room s"
  show "node_good (snd (add_cb a s))"
    unfolding a add_cb_def srnp_registerCallback_def prod.case
    by (rule with_client_good(3) [OF good])
      (use room node_op_registerCallback in \<open>simp add: cb_room_def split_beta\<close>)
  have reg: "h = fst ?reg \<and> the_node s' = snd ?reg" if "add_cb a s = (Inr h, s')" for h
    using that with_client_good(1,2) [OF good, of "\<lambda>n. case client_registerCallback now (pk_owner x) (pk_key x) cb n
        of (h, n) \<Rightarrow> (Inr h, n)"]
    by (simp add: a add_cb_def srnp_registerCallback_def split_beta)
  show "cb_at s h = None \<and> cb_at s' = (cb_at s)(h \<mapsto> cb_entry a)"
    if "add_cb a s = (Inr h, s')" "h \<noteq> kInvalidCallbackHandle"
    using reg [OF that(1)] ok room callback_at_addCallback(3) [OF ok]
    by (simp add: cb_at_def registerCallback_simps cb_room_def a cb_entry_def)
  show "cb_at s' = cb_at s \<and> (\<exists>h. cb_at s h = Some (cb_entry a))"
    if "add_cb a s = (Inr kInvalidCallbackHandle, s')"
    using reg [OF that] room by (simp add: registerCallback_simps cb_room_def kInvalidCallbackHandle_def)
qed

subsection \<open>What the operations do to the registrations\<close>

lemma next_handle_removeCallback [simp]: "next_callback_handle (removeCallback h s) = next_callback_handle s"
  by (simp add: removeCallback_def split: option.splits)

lemma cancelSubscription_next: "next_subscription_handle (snd (cancelSubscription h c)) = next_subscription_handle c"
proof (cases "m_find (subscriptions c) h")
  case (Some r)
  let ?c = "c\<lparr>subscriptions := m_erase h (subscriptions c)\<rparr>"
  obtain res c2 where send: "sendSubscription (sr_owner r) (sr_key r) False ?c = (res, c2)" by fastforce
  then have "next_subscription_handle c2 = next_subscription_handle c"
    using sendSubscription_frame(2) [of "sr_owner r" "sr_key r" False ?c] by simp
  then show ?thesis using Some send by (cases res) (simp_all add: cancelSubscription_def)
qed (simp add: cancelSubscription_def)

lemma cancel_cb:
  assumes "node_good k" "srnp_cancelCallback h k = (Inr u, k')"
  shows "node_good k'" "cb_at k' = (cb_at k)(h := None)" "sub_at k' = sub_at k"
    "cb_room k' = cb_room k" "sub_room k' = sub_room k"
proof -
  have "the_node k' = client_cancelCallback h (the_node k)"
    using with_client_good(2) [OF assms(1)] assms(2) by (metis snd_conv srnp_cancelCallback_def)
  then show "sub_at k' = sub_at k" "cb_room k' = cb_room k" "sub_room k' = sub_room k"
    by (simp_all add: sub_at_def cb_room_def sub_room_def client_cancelCallback_def)
  show "node_good k'" using cbs.good_remove [OF assms(1), of h] assms(2) by simp
  show "cb_at k' = (cb_at k)(h := None)" by (rule cbs.remove_frees [OF assms])
qed

lemma cancel_sub:
  assumes "node_good k" "srnp_cancelSubscription h k = (Inr u, k')"
  shows "node_good k'" "sub_at k' = (sub_at k)(h := None)" "cb_at k' = cb_at k"
    "cb_room k' = cb_room k" "sub_room k' = sub_room k"
proof -
  have "the_node k' = snd (on_client (cancelSubscription h) (the_node k))"
    using with_client_good(2) [OF assms(1)] assms(2) by (metis snd_conv srnp_cancelSubscription_def)
  then show "cb_at k' = cb_at k" "cb_room k' = cb_room k" "sub_room k' = sub_room k"
    by (simp_all add: cb_at_def cb_room_def sub_room_def cancelSubscription_next)
  show "node_good k'" using subs.good_remove [OF assms(1), of h] assms(2) by simp
  show "sub_at k' = (sub_at k)(h := None)" by (rule subs.remove_frees [OF assms])
qed

lemma register_sub:
  assumes "node_good k" "sub_room k" "srnp_registerSubscription owner key k = (Inr h, k')"
  shows "node_good k'" "cb_at k' = cb_at k" "cb_room k' = cb_room k"
    "h \<noteq> kInvalidSubscriptionHandle \<Longrightarrow> sub_at k' = (sub_at k)(h \<mapsto> sub_record (PairKey owner key))"
    "\<exists>j. sub_at k' j = Some (sub_record (PairKey owner key))"
    "srnp_cancelSubscription h k' = (Inr u, k'') \<Longrightarrow> sub_at k'' = sub_at k"
proof -
  have add: "add_sub (PairKey owner key) k = (Inr h, k')" using assms(3) by (simp add: add_sub_def)
  have "the_node k' = snd (on_client (registerSubscription owner key) (the_node k))"
    using with_client_good(2) [OF assms(1)] assms(3) by (metis snd_conv srnp_registerSubscription_def)
  then show "cb_at k' = cb_at k" "cb_room k' = cb_room k" by (simp_all add: cb_at_def cb_room_def)
  show "node_good k'" using subs.good_add [OF assms(1,2)] add by (metis snd_conv)
  show "h \<noteq> kInvalidSubscriptionHandle \<Longrightarrow> sub_at k' = (sub_at k)(h \<mapsto> sub_record (PairKey owner key))"
    using subs.add_fresh [OF assms(1,2) add] by simp
  show "\<exists>j. sub_at k' j = Some (sub_record (PairKey owner key))" by (rule subs.add_present [OF assms(1,2) add])
  show "srnp_cancelSubscription h k' = (Inr u, k'') \<Longrightarrow> sub_at k'' = sub_at k"
    by (rule subs.add_then_remove [OF assms(1,2) add])
qed

lemma register_cb:
  assumes "node_good k" "cb_room k" "srnp_registerCallback now owner key cb k = (Inr h, k')"
  shows "node_good k'" "sub_at k' = sub_at k" "sub_room k' = sub_room k" "h \<noteq> kInvalidCallbackHandle"
    "cb_at k' = (cb_at k)(h \<mapsto> (watched (PairKey owner key), cb))"
    "srnp_cancelCallback h k' = (Inr u, k'') \<Longrightarrow> cb_at k'' = cb_at k"
proof -
  have add: "add_cb (now, PairKey owner key, cb) k = (Inr h, k')" using assms(3) by (simp add: add_cb_def)
  let ?f = "\<lambda>n. case client_registerCallback now owner key cb n of (h, n) \<Rightarrow> (Inr h :: CallbackHandle result, n)"
  have node: "Inr h = fst (?f (the_node k))" "the_node k' = snd (?f (the_node k))"
    using with_client_good(1,2) [OF assms(1), of ?f] assms(3) by (simp_all add: srnp_registerCallback_def)
  then show "sub_at k' = sub_at k" "sub_room k' = sub_room k" "h \<noteq> kInvalidCallbackHandle"
    using assms(2)
    by (simp_all add: sub_at_def sub_room_def split_beta registerCallback_simps cb_room_def kInvalidCallbackHandle_def)
  then show "cb_at k' = (cb_at k)(h \<mapsto> (watched (PairKey owner key), cb))"
    using cbs.add_fresh [OF assms(1,2) add] by (simp add: cb_entry_def)
  show "node_good k'" using cbs.good_add [OF assms(1,2)] add by (metis snd_conv)
  show "srnp_cancelCallback h k' = (Inr u, k'') \<Longrightarrow> cb_at k'' = cb_at k"
    by (rule cbs.add_then_remove [OF assms(1,2) add])
qed

lemmas statement_defs = andThen_def call_def store_def skip_def

lemma andThen_Inr:
  assumes "andThen m f s = (Inr y, s2)"
  obtains x s1 where "m s = (Inr x, s1)" "f x s1 = (Inr y, s2)"
  using assms by (auto simp: andThen_def split: prod.splits sum.splits)

lemma call_Inr: "call f (t, k) = (Inr x, s) \<longleftrightarrow> (\<exists>k'. f k = (Inr x, k') \<and> s = (t, k'))"
  by (auto simp: call_def split: prod.splits)

lemma releaseCallback_effect:
  assumes "node_good k" "releaseCallback (t, k) = (Inr u, (t', k'))"
  shows "node_good k'" "cb_at k' = (cb_at k)(target_callback t := None)" "sub_at k' = sub_at k"
    "cb_room k' = cb_room k" "sub_room k' = sub_room k" "t' = t\<lparr>target_callback := kInvalidCallbackHandle\<rparr>"
  using assms cancel_cb [OF assms(1)] cbs.null_free [OF assms(1)]
  by (auto simp: releaseCallback_def statement_defs fun_upd_idem split: if_splits prod.splits sum.splits)

lemma releaseSubscription_effect:
  assumes "node_good k" "releaseSubscription (t, k) = (Inr u, (t', k'))"
  shows "node_good k'" "sub_at k' = (sub_at k)(target_subscription t := None)" "cb_at k' = cb_at k"
    "cb_room k' = cb_room k" "sub_room k' = sub_room k"
    "t' = t\<lparr>target_subscription := kInvalidSubscriptionHandle\<rparr>"
  using assms cancel_sub [OF assms(1)] subs.null_free [OF assms(1)]
  by (auto simp: releaseSubscription_def statement_defs fun_upd_idem split: if_splits prod.splits sum.splits)

lemma releaseTarget_effect:
  assumes "node_good k" "releaseTarget (t, k) = (Inr u, (t', k'))"
  shows "node_good k'" "cb_at k' = (cb_at k)(target_callback t := None)"
    "sub_at k' = (sub_at k)(target_subscription t := None)"
    "cb_room k' = cb_room k" "sub_room k' = sub_room k"
    "t' = t\<lparr>target_callback := kInvalidCallbackHandle, target_subscription := kInvalidSubscriptionHandle, target := None\<rparr>"
proof -
  from assms(2) obtain x1 t1 k1 x2 t2 k2 where 1: "releaseCallback (t, k) = (Inr x1, (t1, k1))"
    and 2: "releaseSubscription (t1, k1) = (Inr x2, (t2, k2))" and 3: "k' = k2" "t' = t2\<lparr>target := None\<rparr>"
    unfolding releaseTarget_def by (auto simp: store_def elim!: andThen_Inr)
  note c = releaseCallback_effect [OF assms(1) 1]
  note s = releaseSubscription_effect [OF c(1) 2]
  show "node_good k'" "cb_at k' = (cb_at k)(target_callback t := None)"
    "sub_at k' = (sub_at k)(target_subscription t := None)" "cb_room k' = cb_room k" "sub_room k' = sub_room k"
    "t' = t\<lparr>target_callback := kInvalidCallbackHandle, target_subscription := kInvalidSubscriptionHandle, target := None\<rparr>"
    using c s 3 by simp_all
qed

lemma acquireTarget_effect:
  assumes "node_good k" "cb_room k" "sub_room k" "acquireTarget now x (t, k) = (Inr u, (t', k'))"
  shows "node_good k'" "target t' = Some x" "fn t' = fn t" "\<exists>j. sub_at k' j = Some (sub_record x)"
    "cb_at k' = (case fn t of None \<Rightarrow> cb_at k | Some f \<Rightarrow> (cb_at k)(target_callback t' \<mapsto> (watched x, User f)))"
    "target_subscription t' \<noteq> kInvalidSubscriptionHandle \<Longrightarrow>
       sub_at k' = (sub_at k)(target_subscription t' \<mapsto> sub_record x)"
    "fn t = None \<Longrightarrow> target_callback t' = target_callback t" "fn t \<noteq> None \<Longrightarrow> target_callback t' \<noteq> kInvalidCallbackHandle"
    "meta_subscription t' = meta_subscription t" "meta_callback t' = meta_callback t"
proof -
  obtain h k1 where reg: "srnp_registerSubscription (pk_owner x) (pk_key x) k = (Inr h, k1)"
    using assms(4) by (auto simp: acquireTarget_def statement_defs split: prod.splits sum.splits)
  note r = register_sub [OF assms(1,3) reg]
  have sub: "sub_record (PairKey (pk_owner x) (pk_key x)) = sub_record x" by simp
  let ?goal = "node_good k' \<and> target t' = Some x \<and> fn t' = fn t \<and> (\<exists>j. sub_at k' j = Some (sub_record x)) \<and>
    cb_at k' = (case fn t of None \<Rightarrow> cb_at k | Some f \<Rightarrow> (cb_at k)(target_callback t' \<mapsto> (watched x, User f))) \<and>
    (target_subscription t' \<noteq> kInvalidSubscriptionHandle \<longrightarrow>
       sub_at k' = (sub_at k)(target_subscription t' \<mapsto> sub_record x)) \<and>
    (fn t = None \<longrightarrow> target_callback t' = target_callback t) \<and>
    (fn t \<noteq> None \<longrightarrow> target_callback t' \<noteq> kInvalidCallbackHandle) \<and>
    meta_subscription t' = meta_subscription t \<and> meta_callback t' = meta_callback t"
  have ?goal
  proof (cases "fn t")
    case None
    then show ?thesis using assms(4) reg r sub by (auto simp: acquireTarget_def statement_defs)
  next
    case (Some f)
    then obtain h2 where cb: "srnp_registerCallback now (pk_owner x) (pk_key x) (User f) k1 = (Inr h2, k')"
      and t': "t' = t\<lparr>target := Some x, target_subscription := h, target_callback := h2\<rparr>"
      using assms(4) reg by (auto simp: acquireTarget_def statement_defs split: prod.splits sum.splits)
    note c = register_cb [OF r(1) _ cb]
    show ?thesis using c r assms(2) t' Some sub by simp
  qed
  then show "node_good k'" "target t' = Some x" "fn t' = fn t" "\<exists>j. sub_at k' j = Some (sub_record x)"
    "cb_at k' = (case fn t of None \<Rightarrow> cb_at k | Some f \<Rightarrow> (cb_at k)(target_callback t' \<mapsto> (watched x, User f)))"
    "target_subscription t' \<noteq> kInvalidSubscriptionHandle \<Longrightarrow>
       sub_at k' = (sub_at k)(target_subscription t' \<mapsto> sub_record x)"
    "fn t = None \<Longrightarrow> target_callback t' = target_callback t" "fn t \<noteq> None \<Longrightarrow> target_callback t' \<noteq> kInvalidCallbackHandle"
    "meta_subscription t' = meta_subscription t" "meta_callback t' = meta_callback t"
    by blast+
qed

subsection \<open>Properties\<close>


definition sample_trackers :: "nat Trackers" where
  "sample_trackers = \<lparr>g_trackers = m_assign (PairKey (I32 7) ''m'') (new_tracker (Some 3)) m_empty,
     tk_kernel = \<lparr>running = Some \<lparr>srv_port = 4000, srv_owner = I32 5,
       srv_node = new_node\<lparr>node_client := onWelcome sample_welcome new_client\<rparr>,
       srv_link = new_link ''10.0.0.1'' ''33133'', srv_workers = 4, srv_running = True,
       srv_close_posted = False, srv_stopped = False\<rparr>, retired = [], in_progress = []\<rparr>\<rparr>"

lemma sample_trackers_good:
  "node_good (tk_kernel sample_trackers)" "cb_room (tk_kernel sample_trackers)" "sub_room (tk_kernel sample_trackers)"
  "sub_at (tk_kernel sample_trackers) = Map.empty" "cb_at (tk_kernel sample_trackers) = Map.empty"
proof -
  have "node_inv (new_node\<lparr>node_client := onWelcome sample_welcome new_client\<rparr>)"
    by (simp add: node_inv_space node_invD client_inv_onWelcome)
  then show "node_good (tk_kernel sample_trackers)" by (simp add: node_good_def sample_trackers_def)
  show "cb_room (tk_kernel sample_trackers)" "sub_room (tk_kernel sample_trackers)"
    "sub_at (tk_kernel sample_trackers) = Map.empty" "cb_at (tk_kernel sample_trackers) = Map.empty"
    by (simp_all add: cb_room_def sub_room_def the_node_def sample_trackers_def new_node_def empty_space_def
        onWelcome_def sample_welcome_def new_client_def kInvalidCallbackHandle_def
        kInvalidSubscriptionHandle_def sub_at_def cb_at_def callback_at_def fun_eq_iff)
qed

lemma sample_change:
  "fst (onMetaPairChanged 1 (new_pair (I32 7) ''m'' ''(META 9 k)'' PT_String) sample_trackers) = Inr ()"
  "tracker_parseMetaValue ''(META 9 k)'' = Some (PairKey (I32 9) ''k'')"
proof -
  show parse: "tracker_parseMetaValue ''(META 9 k)'' = Some (PairKey (I32 9) ''k'')"
    by (simp add: tracker_parseMetaValue_def extractStrings_def strip_parens_def is_paren_def from_chars_def
        is_digit_def digits_val_def digit_val_def Let_def INT_MIN_def INT_MAX_def i32_of_def kAnyOwner_def)
  show "fst (onMetaPairChanged 1 (new_pair (I32 7) ''m'' ''(META 9 k)'' PT_String) sample_trackers) = Inr ()"
    by (simp add: onMetaPairChanged_def parse new_pair_def sample_trackers_def new_tracker_def releaseTarget_def
        releaseCallback_def releaseSubscription_def acquireTarget_def statement_defs
        srnp_registerSubscription_def srnp_registerCallback_def with_client_def on_client_def
        registerSubscription_def sendSubscription_def sessionFor_def onWelcome_def sample_welcome_def new_node_def
        new_client_def client_registerCallback_def kAnyOwner_def Let_def split_beta)
qed


text \<open>
  C33. Cancelling undoes a registration: when a meta-pair was not tracked, registering a tracker for it and
  cancelling it again leaves the trackers, the callbacks and the subscriptions of the node as they were.
\<close>

theorem cancel_tracker_undoes_register:
  assumes "node_good (tk_kernel m)" "cb_room (tk_kernel m)" "sub_room (tk_kernel m)"
    and "m_find (g_trackers m) (PairKey mo mk) = None"
    and "registerTracker now mo mk cb m = (Inr (), m1)" "cancelMetaCallback mo mk m1 = (Inr (), m2)"
  shows "g_trackers m2 = g_trackers m \<and> cb_at (tk_kernel m2) = cb_at (tk_kernel m) \<and>
    sub_at (tk_kernel m2) = sub_at (tk_kernel m)"
proof -
  let ?k = "tk_kernel m"
  obtain h k1 where sub: "srnp_registerSubscription mo mk ?k = (Inr h, k1)"
    using assms(4,5) by (auto simp: registerTracker_def statement_defs Let_def split: prod.splits sum.splits)
  note s = register_sub [OF assms(1,3) sub]
  obtain c k2 where cb: "srnp_registerCallback now mo mk OnMetaPairChanged k1 = (Inr c, k2)"
    and m1: "m1 = \<lparr>g_trackers = m_assign (PairKey mo mk)
        ((new_tracker cb)\<lparr>meta_subscription := h, meta_callback := c\<rparr>) (g_trackers m), tk_kernel = k2\<rparr>"
    using assms(4,5) sub
    by (auto simp: registerTracker_def statement_defs m_emplace_def Let_def split: prod.splits sum.splits)
  have room: "cb_room k1" using s(3) assms(2) by simp
  note c = register_cb [OF s(1) room cb]
  have rel: "releaseTarget ((new_tracker cb)\<lparr>meta_subscription := h, meta_callback := c\<rparr>, k2) =
      (Inr (), ((new_tracker cb)\<lparr>meta_subscription := h, meta_callback := c\<rparr>, k2))"
    by (simp add: releaseTarget_def releaseCallback_def releaseSubscription_def statement_defs new_tracker_def)
  obtain k3 k4 where can: "srnp_cancelSubscription h k2 = (Inr (), k3)" "srnp_cancelCallback c k3 = (Inr (), k4)"
    and m2: "m2 = \<lparr>g_trackers = m_erase (PairKey mo mk) (g_trackers m1), tk_kernel = k4\<rparr>"
    using assms(6) rel
    by (auto simp: m1 cancelMetaCallback_def andThen_def call_def Let_def split: prod.splits sum.splits)
  note d = cancel_sub [OF c(1) can(1)]
  have c0: "cb_at k1 c = None" using cbs.add_fresh [OF s(1) room, of "(now, PairKey mo mk, OnMetaPairChanged)"] cb c(4)
    by (simp add: add_cb_def)
  have "cb_at k4 = cb_at ?k"
    using cancel_cb(2) [OF d(1) can(2)] d(3) c(5) s(2) c0 by (simp add: fun_upd_idem)
  moreover have "sub_at k4 = (sub_at k1)(h := None)"
    using cancel_cb(3) [OF d(1) can(2)] d(2) c(2) by simp
  moreover have "(sub_at k1)(h := None) = sub_at ?k"
    using subs.add_fresh [OF assms(1,3), of "PairKey mo mk"] subs.add_refused [OF assms(1,3), of "PairKey mo mk"]
      subs.null_free [OF assms(1)] sub by (cases "h = kInvalidSubscriptionHandle") (auto simp: add_sub_def fun_upd_idem)
  ultimately show ?thesis using assms(4) by (simp add: m2 m1 smap.erase_assign smap.erase_absent)
qed

theorem cancel_tracker_undoes_register_witness:
  "\<exists>m1 m2. registerMetaSubscription 1 (I32 8) ''x'' sample_trackers = (Inr (), m1) \<and>
     cancelMetaCallback (I32 8) ''x'' m1 = (Inr (), m2) \<and> cb_at (tk_kernel m2) = cb_at (tk_kernel sample_trackers)"
proof -
  have none: "m_find (g_trackers sample_trackers) (PairKey (I32 8) ''x'') = None" by (simp add: sample_trackers_def)
  have reg: "fst (registerTracker 1 (I32 8) ''x'' None sample_trackers) = Inr ()"
    and can: "fst (cancelMetaCallback (I32 8) ''x'' (snd (registerTracker 1 (I32 8) ''x'' None sample_trackers))) = Inr ()"
    by (simp_all add: registerTracker_def cancelMetaCallback_def sample_trackers_def new_tracker_def
        releaseTarget_def releaseCallback_def releaseSubscription_def statement_defs m_emplace_def
        srnp_registerSubscription_def srnp_registerCallback_def srnp_cancelSubscription_def srnp_cancelCallback_def
        with_client_def on_client_def registerSubscription_def cancelSubscription_def sendSubscription_def
        sessionFor_def onWelcome_def sample_welcome_def new_node_def new_client_def client_registerCallback_def
        kAnyOwner_def Let_def split_beta)
  let ?m1 = "snd (registerTracker 1 (I32 8) ''x'' None sample_trackers)"
  let ?m2 = "snd (cancelMetaCallback (I32 8) ''x'' ?m1)"
  have "registerTracker 1 (I32 8) ''x'' None sample_trackers = (Inr (), ?m1)"
    "cancelMetaCallback (I32 8) ''x'' ?m1 = (Inr (), ?m2)" using reg can by (metis prod.collapse)+
  then show ?thesis
    using cancel_tracker_undoes_register [OF sample_trackers_good(1-3) none] unfolding registerMetaSubscription_def
    by blast
qed

text \<open>
  Two trackers of one target interfere. A subscription to the same pair is registered once, so only one
  tracker holds its handle; when that one's meta-pair changes to name nothing, the subscription goes, while
  the other tracker still claims to follow the target.
\<close>

lemma shared_target_loses_subscription:
  assumes "node_good (tk_kernel m)" "cb_room (tk_kernel m)" "sub_room (tk_kernel m)"
    and "m_find (g_trackers m) (key_of p) = Some a" "sub_at (tk_kernel m) (target_subscription a) = Some (sub_record x)"
    and "m_find (g_trackers m) other = Some b" "other \<noteq> key_of p" "target a = Some x" "target b = Some x"
    and "tracker_parseMetaValue (getValue p) = None" "onMetaPairChanged now p m = (Inr (), m')"
  shows "m_find (g_trackers m') other = Some b \<and> (\<forall>h. sub_at (tk_kernel m') h \<noteq> Some (sub_record x))"
proof -
  obtain u t' k' where rel: "releaseTarget (a, tk_kernel m) = (Inr u, (t', k'))"
    and m': "m' = \<lparr>g_trackers = m_assign (key_of p) t' (g_trackers m), tk_kernel = k'\<rparr>"
    using assms(4,8,10,11)
    by (auto simp: onMetaPairChanged_def key_of_def skip_def Let_def andThen_def split: prod.splits sum.splits)
  note uniq = sub_at_unique [OF assms(1) _ assms(5)]
  show ?thesis
    using releaseTarget_effect(3) [OF assms(1) rel] uniq assms(6,7) by (auto simp: m' split: if_splits)
qed

end
