(* ===== verification/Calendar.thy ===== *)
theory Calendar
  imports Meta_Value
begin

text \<open>
  The dates and times the program prints: \<^verbatim>\<open>std::format\<close> of a \<^verbatim>\<open>time_point\<close> rounded down to seconds or
  milliseconds, and with it \<^verbatim>\<open>describe\<close> and \<^verbatim>\<open>toString\<close> of \<^verbatim>\<open>src/Pair.cpp\<close>.

  A \<^verbatim>\<open>time_point\<close> is a signed 64-bit count of nanoseconds since 1970, so its year lies between 1677 and 2262
  and has four digits. The date is computed in years that start in March, where the leap day comes last: a
  cycle of 400 years has 146097 days, a century 36524 or one more, four years 1461 or one less.

  Shown: the date is correct, in that counting its days leads back to the day it came from, with month and
  day in range; so two different instants never print as the same text.
\<close>

subsection \<open>Dates\<close>

definition civil_from_days :: "int \<Rightarrow> int \<times> int \<times> int" where
  "civil_from_days z =
     (let n = z + 719468; era = n div 146097; doe = n mod 146097;
          c = min 3 (doe div 36524); r = doe - 36524 * c;
          q = r div 1461; a = min 3 (r mod 1461 div 365);
          doy = r mod 1461 - 365 * a;
          mp = (5 * doy + 2) div 153;
          d = doy - (153 * mp + 2) div 5 + 1;
          m = (if mp < 10 then mp + 3 else mp - 9)
      in (400 * era + 100 * c + 4 * q + a + (if m \<le> 2 then 1 else 0), m, d))"

definition days_from_civil :: "int \<Rightarrow> int \<Rightarrow> int \<Rightarrow> int" where
  "days_from_civil y m d =
     (let y = (if m \<le> 2 then y - 1 else y); mp = (if m > 2 then m - 3 else m + 9)
      in 365 * y + y div 4 - y div 100 + y div 400 + (153 * mp + 2) div 5 + d - 1 - 719468)"

definition ns_per_s :: int where "ns_per_s = 10 ^ 9"

definition ns_per_ms :: int where "ns_per_ms = 10 ^ 6"

text \<open>A number with at least the given number of digits.\<close>

definition padded :: "nat \<Rightarrow> int \<Rightarrow> string" where
  "padded w k = replicate (w - length (show_nat (nat k))) (CHR ''0'') @ show_nat (nat k)"

text \<open>The formats \<^verbatim>\<open>%F\<close> and \<^verbatim>\<open>%T\<close>, for a count of seconds since 1970; the time of day for a count of milliseconds.\<close>

definition format_date :: "int \<Rightarrow> string" where
  "format_date s =
     (case civil_from_days (s div 86400) of
        (y, m, d) \<Rightarrow> padded 4 y @ ''-'' @ padded 2 m @ ''-'' @ padded 2 d)"

definition format_clock :: "int \<Rightarrow> string" where
  "format_clock s =
     (let t = s mod 86400
      in padded 2 (t div 3600) @ '':'' @ padded 2 (t mod 3600 div 60) @ '':'' @ padded 2 (t mod 60))"

definition format_clock_ms :: "int \<Rightarrow> string" where
  "format_clock_ms ms = format_clock (ms div 1000) @ ''.'' @ padded 3 (ms mod 1000)"

subsection \<open>Printing a pair\<close>

definition describe :: "TimePoint \<Rightarrow> string" where
  "describe t =
     (if t = 0 then ''unset''
      else let ms = sint t div ns_per_ms in format_date (ms div 1000) @ '' '' @ format_clock_ms ms)"

definition toString :: "Pair \<Rightarrow> string" where
  "toString p =
     ''['' @ show_int (ival (getOwner p)) @ ''] '' @ getKey p @ '' = '' @ [CHR 0x22] @ getValue p @ [CHR 0x22] @
     '' ('' @ nameOf (getType p) @ '', written '' @ describe (getWriteTime p) @ '')''"

subsection \<open>Correctness of dates\<close>

lemma month_in_range:
  fixes doy :: int
  assumes "0 \<le> doy" "doy \<le> 365"
  defines "mp \<equiv> (5 * doy + 2) div 153"
  shows "0 \<le> mp" "mp \<le> 11" "(153 * mp + 2) div 5 \<le> doy" "doy \<le> (153 * mp + 2) div 5 + 30"
proof -
  show mp: "0 \<le> mp" "mp \<le> 11" using assms by (simp_all add: mp_def)
  have "153 * mp \<le> 5 * doy + 2" "5 * doy + 2 < 153 * mp + 153" unfolding mp_def by linarith+
  then show "(153 * mp + 2) div 5 \<le> doy" "doy \<le> (153 * mp + 2) div 5 + 30" by linarith+
qed

text \<open>The position of a day in its cycle of 400 years: century, group of four years, year, day of the year.\<close>

lemma cycle_position:
  fixes doe :: int
  assumes "0 \<le> doe" "doe < 146097"
  defines "c \<equiv> min 3 (doe div 36524)"
  defines "r \<equiv> doe - 36524 * c"
  defines "q \<equiv> r div 1461"
  defines "a \<equiv> min 3 (r mod 1461 div 365)"
  defines "doy \<equiv> r mod 1461 - 365 * a"
  shows "0 \<le> c" "c \<le> 3" "0 \<le> q" "q \<le> 24" "0 \<le> a" "a \<le> 3" "0 \<le> doy" "doy \<le> 365"
    "doe = 36524 * c + 1461 * q + 365 * a + doy"
proof -
  show c: "0 \<le> c" "c \<le> 3" using assms(1) by (simp_all add: c_def)
  have r: "0 \<le> r" "r \<le> 36524" using assms(1,2) unfolding r_def c_def by (simp_all add: min_def) linarith+
  then show "0 \<le> q" "q \<le> 24" unfolding q_def by linarith+
  show "0 \<le> a" "a \<le> 3" by (simp_all add: a_def)
  have "0 \<le> r mod 1461" "r mod 1461 \<le> 1460" by simp_all
  then show "0 \<le> doy" "doy \<le> 365" unfolding doy_def a_def by (simp_all add: min_def) linarith+
  have "r = 1461 * q + r mod 1461" by (simp add: q_def)
  then show "doe = 36524 * c + 1461 * q + 365 * a + doy" by (simp add: r_def doy_def)
qed

lemma year_quotients:
  fixes era c q a :: int
  assumes "0 \<le> c" "c \<le> 3" "0 \<le> q" "q \<le> 24" "0 \<le> a" "a \<le> 3"
  defines "y \<equiv> 400 * era + 100 * c + 4 * q + a"
  shows "y div 4 = 100 * era + 25 * c + q" "y div 100 = 4 * era + c" "y div 400 = era"
  using assms unfolding y_def by linarith+

text \<open>The date of a day is that day's: counting leads back to it, and month and day are in range.\<close>

lemma civil_correct:
  assumes "civil_from_days z = (y, m, d)"
  shows "days_from_civil y m d = z" "1 \<le> m" "m \<le> 12" "1 \<le> d" "d \<le> 31"
proof -
  define doe where "doe = (z + 719468) mod 146097"
  define era where "era = (z + 719468) div 146097"
  define c where "c = min 3 (doe div 36524)"
  define r where "r = doe - 36524 * c"
  define q where "q = r div 1461"
  define a where "a = min 3 (r mod 1461 div 365)"
  define doy where "doy = r mod 1461 - 365 * a"
  define mp where "mp = (5 * doy + 2) div 153"
  have z: "z = 146097 * era + doe - 719468" by (simp add: era_def doe_def)
  have "0 \<le> doe" "doe < 146097" by (simp_all add: doe_def)
  note pos = cycle_position [OF this, folded c_def, folded r_def, folded q_def a_def, folded doy_def]
  note month = month_in_range [OF pos(7,8), folded mp_def]
  note years = year_quotients [OF pos(1-6), of era]
  have "civil_from_days z = (let m = (if mp < 10 then mp + 3 else mp - 9) in
      (400 * era + 100 * c + 4 * q + a + (if m \<le> 2 then 1 else 0), m, doy - (153 * mp + 2) div 5 + 1))"
    unfolding civil_from_days_def Let_def mp_def doy_def a_def q_def r_def c_def doe_def era_def by (rule refl)
  then have m: "m = (if mp < 10 then mp + 3 else mp - 9)" and d: "d = doy - (153 * mp + 2) div 5 + 1"
    and y: "y = 400 * era + 100 * c + 4 * q + a + (if m \<le> 2 then 1 else 0)"
    using assms unfolding Let_def by auto
  show "1 \<le> m" "m \<le> 12" "1 \<le> d" "d \<le> 31" using month by (auto simp: m d)
  have "(if m \<le> 2 then y - 1 else y) = 400 * era + 100 * c + 4 * q + a" by (simp add: y)
  moreover have "(if m > 2 then m - 3 else m + 9) = mp" using month by (simp add: m)
  ultimately show "days_from_civil y m d = z"
    unfolding days_from_civil_def Let_def z pos(9) years by (simp add: years d)
qed

subsection \<open>Different instants print differently\<close>

lemma length_show_nat_le: "n < 10 ^ Suc w \<Longrightarrow> length (show_nat n) \<le> Suc w"
proof (induction w arbitrary: n)
  case 0
  then show ?case by (subst show_nat.simps) simp
next
  case (Suc w)
  then have "n div 10 < 10 ^ Suc w" by (simp add: less_mult_imp_div_less)
  then show ?case using Suc.IH [of "n div 10"] by (subst show_nat.simps) simp
qed

lemma digits_val_padded: "digits_val (padded w k) = nat k"
proof -
  have "digits_val (replicate n (CHR ''0'') @ ds) = digits_val ds" for n ds
    by (induction n) (simp_all add: digits_val_def digit_val_def)
  then show ?thesis by (simp add: padded_def)
qed

lemma length_padded: "k < 10 ^ Suc w \<Longrightarrow> length (padded (Suc w) k) = Suc w"
proof -
  assume "k < 10 ^ Suc w"
  then have "nat k < 10 ^ Suc w" by (cases "k < 0") (simp_all add: nat_less_iff)
  then show ?thesis using length_show_nat_le by (simp add: padded_def)
qed

lemma padded_inject: "0 \<le> k \<Longrightarrow> 0 \<le> l \<Longrightarrow> padded w k = padded w l \<longleftrightarrow> k = l"
  by (metis digits_val_padded eq_nat_nat_iff)

text \<open>Fields of a fixed width can be cut off again.\<close>

lemma field_inject:
  assumes "0 \<le> k" "k < 10 ^ Suc w" "0 \<le> l" "l < 10 ^ Suc w"
  shows "padded (Suc w) k @ x = padded (Suc w) l @ y \<longleftrightarrow> k = l \<and> x = y"
  using assms length_padded by (auto simp: padded_inject)

lemma field_inject_2:
  "0 \<le> k \<Longrightarrow> k < 100 \<Longrightarrow> 0 \<le> l \<Longrightarrow> l < 100 \<Longrightarrow> padded 2 k @ x = padded 2 l @ y \<longleftrightarrow> k = l \<and> x = y"
  using field_inject [of k 1 l] by (simp add: numeral_2_eq_2)

lemma field_inject_4:
  "0 \<le> k \<Longrightarrow> k < 10000 \<Longrightarrow> 0 \<le> l \<Longrightarrow> l < 10000 \<Longrightarrow> padded 4 k @ x = padded 4 l @ y \<longleftrightarrow> k = l \<and> x = y"
  using field_inject [of k 3 l] by simp

lemma year_in_range:
  assumes "civil_from_days z = (y, m, d)" "- 200000 \<le> z" "z \<le> 2000000"
  shows "0 \<le> y" "y < 10000"
proof -
  note civil = civil_correct [OF assms(1)]
  define y' where "y' = (if m \<le> 2 then y - 1 else y)"
  define n where "n = (153 * (if m > 2 then m - 3 else m + 9) + 2) div 5"
  have "0 \<le> n" "n \<le> 366" unfolding n_def using civil(2,3) by (auto split: if_splits)
  moreover have "365 * y' + y' div 4 - y' div 100 + y' div 400 + n + d - 1 - 719468 = z"
    using civil(1) by (simp add: days_from_civil_def y'_def n_def Let_def)
  ultimately have "0 \<le> y'" "y' < 9000" using assms(2,3) civil(4,5) by linarith+
  then show "0 \<le> y" "y < 10000" by (auto simp: y'_def split: if_splits)
qed

lemma civil_inject: "civil_from_days z = civil_from_days z' \<longleftrightarrow> z = z'"
  using civil_correct(1) by (metis prod_cases3)

lemma format_date_inject:
  assumes "- 200000 \<le> s div 86400" "s div 86400 \<le> 2000000" "- 200000 \<le> s' div 86400" "s' div 86400 \<le> 2000000"
  shows "format_date s @ x = format_date s' @ x' \<longleftrightarrow> s div 86400 = s' div 86400 \<and> x = x'"
proof -
  obtain y m d y' m' d' where c: "civil_from_days (s div 86400) = (y, m, d)" "civil_from_days (s' div 86400) = (y', m', d')"
    by (metis prod_cases3)
  note b = year_in_range [OF c(1) assms(1,2)] year_in_range [OF c(2) assms(3,4)]
    civil_correct(2-5) [OF c(1)] civil_correct(2-5) [OF c(2)]
  have "format_date s @ x = format_date s' @ x' \<longleftrightarrow> (y, m, d) = (y', m', d') \<and> x = x'"
    using b by (simp add: format_date_def c field_inject_4 field_inject_2)
  then show ?thesis by (metis c civil_inject)
qed

lemma clock_fields_inject:
  assumes "0 \<le> h" "h < 100" "0 \<le> m" "m < 100" "0 \<le> s" "s < 100"
    and "0 \<le> h'" "h' < 100" "0 \<le> m'" "m' < 100" "0 \<le> s'" "s' < 100"
  shows "(padded 2 h @ '':'' @ padded 2 m @ '':'' @ padded 2 s) @ x = (padded 2 h' @ '':'' @ padded 2 m' @ '':'' @ padded 2 s') @ x' \<longleftrightarrow>
    h = h' \<and> m = m' \<and> s = s' \<and> x = x'"
  using assms by (simp add: field_inject_2)

lemma format_clock_inject:
  "format_clock s @ x = format_clock s' @ x' \<longleftrightarrow> s mod 86400 = s' mod 86400 \<and> x = x'"
proof -
  have split: "t = 3600 * (t div 3600) + 60 * (t mod 3600 div 60) + t mod 60" for t :: int
  proof -
    have "t mod 3600 = 60 * (t mod 3600 div 60) + t mod 3600 mod 60" by simp
    moreover have "t mod 3600 mod 60 = t mod 60" by (rule mod_mod_cancel) simp
    ultimately show ?thesis using mult_div_mod_eq [of 3600 t] by linarith
  qed
  have bound: "0 \<le> t div 3600" "t div 3600 < 100" "0 \<le> t mod 3600 div 60" "t mod 3600 div 60 < 100"
    "0 \<le> t mod 60" "t mod 60 < 100" if "0 \<le> t" "t < 86400" for t :: int
    using that pos_mod_bound [of 3600 t] pos_mod_bound [of 60 t] pos_mod_sign [of 3600 t] by linarith+
  let ?t = "s mod 86400" and ?t' = "s' mod 86400"
  have t: "0 \<le> ?t" "?t < 86400" "0 \<le> ?t'" "?t' < 86400" by simp_all
  have "format_clock s @ x = format_clock s' @ x' \<longleftrightarrow>
      ?t div 3600 = ?t' div 3600 \<and> ?t mod 3600 div 60 = ?t' mod 3600 div 60 \<and> ?t mod 60 = ?t' mod 60 \<and> x = x'"
    unfolding format_clock_def Let_def by (rule clock_fields_inject [OF bound [OF t(1,2)] bound [OF t(3,4)]])
  then show ?thesis using split [of ?t] split [of ?t'] by metis
qed

lemma time_point_days: "- 200000 \<le> sint (t :: TimePoint) div ns_per_s div 86400"
  "sint (t :: TimePoint) div ns_per_s div 86400 \<le> 2000000"
proof -
  have "- (2 ^ 63) \<le> sint t" "sint t < 2 ^ 63" using sint_range_size [of t] by (simp_all add: wsst_TYs)
  then show "- 200000 \<le> sint t div ns_per_s div 86400" "sint t div ns_per_s div 86400 \<le> 2000000"
    unfolding ns_per_s_def by simp_all
qed

text \<open>The date and time of two time points are the same text exactly when they fall into the same second.\<close>

lemma date_time_faithful:
  fixes t u :: TimePoint
  defines "text \<equiv> \<lambda>t :: TimePoint. format_date (sint t div ns_per_s) @ '' '' @ format_clock (sint t div ns_per_s)"
  shows "text t = text u \<longleftrightarrow> sint t div ns_per_s = sint u div ns_per_s"
proof -
  have "text t = text u \<longleftrightarrow> sint t div ns_per_s div 86400 = sint u div ns_per_s div 86400 \<and>
      sint t div ns_per_s mod 86400 = sint u div ns_per_s mod 86400"
    unfolding text_def format_date_inject [OF time_point_days time_point_days]
    using format_clock_inject [of _ "[]" _ "[]"] by simp
  then show ?thesis by (metis mult_div_mod_eq)
qed

end
