(* ===== verification/Gui_Format.thy ===== *)
theory Gui_Format
  imports Calendar "HOL-Library.Sublist"
begin

text \<open>
  \<^verbatim>\<open>gui/format.h\<close> and \<^verbatim>\<open>gui/format.cpp\<close>: how the viewer turns what srnp holds into text. A value is a string of
  arbitrary bytes; a \<^verbatim>\<open>char\<close> is read as an \<^verbatim>\<open>unsigned char\<close> where the source casts it. An age is a signed count
  of nanoseconds.

  Shown: escaping produces printable text only and loses nothing, which the reader \<open>unescape\<close> makes
  precise; a hex dump has the length its layout promises; the filter is case-insensitive infix search; the
  viewer's reading of a meta value agrees with the client's except for an owner that is out of range; the
  time shown tells any two seconds apart; and cutting an error message can fail.
\<close>

subsection \<open>Characters\<close>

definition kBytesPerLine :: nat where "kBytesPerLine = 16"

definition isPrintable :: "char \<Rightarrow> bool" where
  "isPrintable c \<longleftrightarrow> 0x20 \<le> (of_char c :: nat) \<and> (of_char c :: nat) < 0x7F"

definition lower :: "char \<Rightarrow> char" where
  "lower c = to_lower c"

definition hex_char :: "nat \<Rightarrow> char" where
  "hex_char d = (if d < 10 then char_of (48 + d) else char_of (87 + d))"

text \<open>\<^verbatim>\<open>std::format\<close> with \<^verbatim>\<open>{:x}\<close>, and with a minimal width filled by zeros.\<close>

fun show_hex :: "nat \<Rightarrow> string" where
  "show_hex n = (if n < 16 then [hex_char n] else show_hex (n div 16) @ [hex_char (n mod 16)])"

declare show_hex.simps [simp del]

definition hex_width :: "nat \<Rightarrow> nat \<Rightarrow> string" where
  "hex_width w n = replicate (w - length (show_hex n)) (CHR ''0'') @ show_hex n"

definition hex_byte :: "char \<Rightarrow> string" where
  "hex_byte c = hex_width 2 (of_char c)"

subsection \<open>Values\<close>

definition escape_char :: "char \<Rightarrow> string" where
  "escape_char c =
     (if c = CHR 0x5C then [CHR 0x5C, CHR 0x5C]
      else if c = CHR 0x0A then [CHR 0x5C, CHR ''n'']
      else if c = CHR 0x0D then [CHR 0x5C, CHR ''r'']
      else if c = CHR 0x09 then [CHR 0x5C, CHR ''t'']
      else if isPrintable c then [c]
      else [CHR 0x5C, CHR ''x''] @ hex_byte c)"

definition escape :: "string \<Rightarrow> string" where
  "escape value = concat (map escape_char value)"

definition escapeTruncated :: "string \<Rightarrow> nat \<Rightarrow> string" where
  "escapeTruncated value max_chars =
     (let text = escape value
      in if length text \<le> max_chars then text else take max_chars text @ ''...'')"

definition hex_cell :: "string \<Rightarrow> nat \<Rightarrow> string" where
  "hex_cell line i =
     (if i < length line then hex_byte (line ! i) @ '' '' else ''   '') @
     (if i = kBytesPerLine div 2 - 1 then '' '' else [])"

definition hex_line :: "nat \<Rightarrow> string \<Rightarrow> string" where
  "hex_line start line =
     hex_width 8 start @ ''  '' @ concat (map (hex_cell line) [0..<kBytesPerLine]) @ '' |'' @
     map (\<lambda>c. if isPrintable c then c else CHR ''.'') line @ [CHR ''|'', CHR 0x0A]"

function hexDump_from :: "nat \<Rightarrow> string \<Rightarrow> string" where
  "hexDump_from start bytes =
     (if bytes = [] then []
      else hex_line start (take kBytesPerLine bytes) @
           hexDump_from (start + kBytesPerLine) (drop kBytesPerLine bytes))"
  by pat_completeness auto

termination
  by (relation "measure (\<lambda>(start, bytes). length bytes)") (auto simp: kBytesPerLine_def)

declare hexDump_from.simps [simp del]

definition hexDump :: "string \<Rightarrow> string" where
  "hexDump bytes = hexDump_from 0 bytes"

subsection \<open>Ages, types, errors\<close>

definition formatAge :: "int \<Rightarrow> string" where
  "formatAge age =
     (if age < 0 then ''in the future''
      else if age < 10 ^ 9 then ''just now''
      else let total = age div 10 ^ 9 in
        if total < 60 then show_int total @ '' s ago''
        else if total < 3600 then show_int (total div 60) @ '' m '' @ show_int (total mod 60) @ '' s ago''
        else if total < 86400
        then show_int (total div 3600) @ '' h '' @ show_int ((total mod 3600) div 60) @ '' m ago''
        else show_int (total div 86400) @ '' d '' @ show_int ((total mod 86400) div 3600) @ '' h ago'')"

definition formatTime :: "TimePoint \<Rightarrow> string" where
  "formatTime t =
     (if t = 0 then ''never''
      else let s = sint t div ns_per_s in format_date s @ '' '' @ format_clock s)"

definition nameOfType :: "PairType \<Rightarrow> string" where
  "nameOfType ty =
     (case ty of PT_String \<Rightarrow> ''String'' | PT_Bytes \<Rightarrow> ''Bytes'' | PT_Meta \<Rightarrow> ''Meta'' | PT_Invalid \<Rightarrow> ''Invalid'')"

text \<open>
  \<^verbatim>\<open>from_chars\<close> into a variable that holds \<open>v\<close>, used for where it stopped only: the variable keeps its value
  when the number is malformed or out of range, and the text that is left starts at the returned pointer.
\<close>

definition from_chars_ptr :: "string \<Rightarrow> i32 \<Rightarrow> i32 \<times> string" where
  "from_chars_ptr text v =
     (case from_chars text of
        Parsed w rest \<Rightarrow> (w, rest)
      | InvalidArgument \<Rightarrow> (v, text)
      | OutOfRange rest \<Rightarrow> (v, rest))"

definition parseMetaTarget :: "string \<Rightarrow> PairKey option" where
  "parseMetaTarget value =
     (case extractStrings value of
        [tag, owner, key] \<Rightarrow>
          if tag \<noteq> ''META'' then None
          else (case from_chars_ptr owner kAnyOwner of
                  (v, rest) \<Rightarrow> if rest \<noteq> [] then None else Some (PairKey v key))
      | _ \<Rightarrow> None)"

text \<open>\<^verbatim>\<open>find(" [")\<close>, and the two counts, whose difference is cast to an unsigned size.\<close>

fun find_detail :: "string \<Rightarrow> nat option" where
  "find_detail [] = None"
| "find_detail (c # cs) =
     (if c = CHR '' '' \<and> cs \<noteq> [] \<and> hd cs = CHR ''['' then Some 0 else map_option Suc (find_detail cs))"

definition briefError :: "string \<Rightarrow> string result" where
  "briefError msg =
     (case find_detail msg of
        None \<Rightarrow> Inr msg
      | Some detail \<Rightarrow>
          let brief = take detail msg;
              opened = count_list brief (CHR ''('');
              closed = count_list brief (CHR '')'')
          in if opened < closed then Inl (LengthError ''basic_string::append'')
             else Inr (brief @ replicate (opened - closed) (CHR '')'')))"

subsection \<open>Filtering\<close>

text \<open>\<^verbatim>\<open>std::ranges::search\<close>: the first position where the filter matches, or the end of the text.\<close>

fun search :: "string \<Rightarrow> string \<Rightarrow> nat" where
  "search [] needle = 0"
| "search (c # cs) needle =
     (if length needle \<le> length (c # cs) \<and> list_all2 (\<lambda>a b. lower a = lower b) (take (length needle) (c # cs)) needle
      then 0 else Suc (search cs needle))"

definition matchesFilter :: "string \<Rightarrow> string \<Rightarrow> bool" where
  "matchesFilter text needle =
     (if needle = [] then True
      else if length needle > length text then False
      else search text needle \<noteq> length text)"

subsection \<open>Reading escapes back\<close>

text \<open>What a reader of the displayed text does: a backslash and the letter or the two digits behind it.\<close>

definition hex_val :: "char \<Rightarrow> nat" where
  "hex_val c = (if (of_char c :: nat) < 58 then of_char c - 48 else of_char c - 87)"

function unescape :: "string \<Rightarrow> string" where
  "unescape [] = []"
| "unescape (c # cs) =
     (if c \<noteq> CHR 0x5C then c # unescape cs
      else case cs of
             [] \<Rightarrow> []
           | d # ds \<Rightarrow>
               if d = CHR ''x'' then char_of (16 * hex_val (hd ds) + hex_val (hd (tl ds))) # unescape (drop 2 ds)
               else (if d = CHR ''n'' then CHR 0x0A else if d = CHR ''r'' then CHR 0x0D
                     else if d = CHR ''t'' then CHR 0x09 else d) # unescape ds)"
  by pat_completeness auto

termination
  by (relation "measure length") auto

declare unescape.simps(2) [simp del]

lemma hex_char_small:
  assumes "d < 16"
  shows "(of_char (hex_char d) :: nat) = (if d < 10 then 48 + d else 87 + d)"
  using assms by (simp add: hex_char_def)

lemma hex_val_char [simp]: "d < 16 \<Longrightarrow> hex_val (hex_char d) = d"
  by (simp add: hex_val_def hex_char_small)

lemma hex_char_printable: "d < 16 \<Longrightarrow> isPrintable (hex_char d)"
  by (simp add: isPrintable_def hex_char_small)

lemma hex_digits_bounds: "(of_char c :: nat) div 16 < 16" "(of_char c :: nat) mod 16 < 16"
  by (rule less_mult_imp_div_less) simp_all

lemma hex_byte_eq: "hex_byte c = [hex_char (of_char c div 16), hex_char (of_char c mod 16)]"
proof -
  note lt = hex_digits_bounds(1) [of c]
  have zero: "hex_char 0 = CHR ''0''" by code_simp
  show ?thesis
  proof (cases "(of_char c :: nat) < 16")
    case True
    then show ?thesis by (simp add: hex_byte_def hex_width_def show_hex.simps zero)
  next
    case False
    have "show_hex (of_char c) = [hex_char (of_char c div 16), hex_char (of_char c mod 16)]"
      using False lt by (subst show_hex.simps, subst show_hex.simps) simp
    then show ?thesis by (simp add: hex_byte_def hex_width_def)
  qed
qed

lemma escape_char_printable: "list_all isPrintable (escape_char c)"
  using hex_digits_bounds [of c]
  by (simp add: escape_char_def hex_byte_eq hex_char_printable) (simp add: isPrintable_def)

lemma escape_char_length: "1 \<le> length (escape_char c)" "length (escape_char c) \<le> 4"
  by (simp_all add: escape_char_def hex_byte_eq)

lemma unescape_escape_char: "unescape (escape_char c @ rest) = c # unescape rest"
  using hex_digits_bounds [of c]
  by (simp add: escape_char_def hex_byte_eq unescape.simps(2) isPrintable_def)

lemma unescape_escape: "unescape (escape s) = s"
  by (induction s) (simp_all add: escape_def unescape_escape_char)

lemma escape_length: "length s \<le> length (escape s)" "length (escape s) \<le> 4 * length s"
proof (induction s)
  case (Cons c cs)
  { case 1 then show ?case using Cons(1) escape_char_length [of c] by (simp add: escape_def) }
  { case 2 then show ?case using Cons(2) escape_char_length [of c] by (simp add: escape_def) }
qed (simp_all add: escape_def)

subsection \<open>The layout of a hex dump\<close>

lemma show_hex_length: "n < 16 ^ Suc k \<Longrightarrow> length (show_hex n) \<le> Suc k"
proof (induction k arbitrary: n)
  case (Suc k)
  then have "n div 16 < 16 ^ Suc k" by (simp add: less_mult_imp_div_less)
  then show ?case using Suc.IH [of "n div 16"] by (subst show_hex.simps) simp
qed (simp add: show_hex.simps)

lemma hex_width_length: "n < 16 ^ Suc k \<Longrightarrow> length (hex_width (Suc k) n) = Suc k"
  using show_hex_length [of n k] by (simp add: hex_width_def)

lemma hex_line_length:
  assumes "start < 2 ^ 32" "length line \<le> 16"
  shows "length (hex_line start line) = 63 + length line"
proof -
  have cell: "length (hex_cell line i) = (if i = 7 then 4 else 3)" for i
    by (simp add: hex_cell_def hex_byte_eq kBytesPerLine_def)
  have "length (concat (map (hex_cell line) [0..<kBytesPerLine])) = 49"
    unfolding length_concat map_map comp_def cell kBytesPerLine_def by code_simp
  moreover have "length (hex_width 8 start) = 8"
    using hex_width_length [of start 7] assms(1) by simp
  ultimately show ?thesis by (simp add: hex_line_def)
qed

lemma hexDump_from_length:
  "start + length bytes \<le> 2 ^ 32 \<Longrightarrow>
   length (hexDump_from start bytes) = 63 * ((length bytes + 15) div 16) + length bytes"
proof (induction start bytes rule: hexDump_from.induct)
  case (1 start bytes)
  show ?case
  proof (cases "bytes = []")
    case False
    then have pos: "0 < length bytes" by simp
    then have below: "start < 2 ^ 32" using "1.prems" by linarith
    have lines: "(length bytes + 15) div 16 = Suc ((length bytes - 1) div 16)"
      using pos by (cases "length bytes") simp_all
    have "length (hexDump_from start bytes) = 63 + length (take kBytesPerLine bytes) +
        length (hexDump_from (start + kBytesPerLine) (drop kBytesPerLine bytes))"
      using False hex_line_length [OF below, of "take kBytesPerLine bytes"]
      by (subst hexDump_from.simps) (simp add: kBytesPerLine_def)
    also have "length (hexDump_from (start + kBytesPerLine) (drop kBytesPerLine bytes)) =
        63 * ((length (drop kBytesPerLine bytes) + 15) div 16) + length (drop kBytesPerLine bytes)"
    proof (cases "length bytes \<le> 16")
      case True
      then show ?thesis by (simp add: hexDump_from.simps kBytesPerLine_def)
    next
      case big: False
      then show ?thesis using "1.IH" False "1.prems" by (simp add: kBytesPerLine_def)
    qed
    finally show ?thesis
      using pos lines by (cases "length bytes \<le> 16") (auto simp: kBytesPerLine_def min_def)
  qed (simp add: hexDump_from.simps)
qed

subsection \<open>The filter as infix search\<close>

lemma search_prefix:
  "(length needle \<le> length text \<and> list_all2 (\<lambda>a b. lower a = lower b) (take (length needle) text) needle) \<longleftrightarrow>
   prefix (map lower needle) (map lower text)"
proof
  assume l: "length needle \<le> length text \<and> list_all2 (\<lambda>a b. lower a = lower b) (take (length needle) text) needle"
  then have "map lower (take (length needle) text) = map lower needle"
    by (auto simp: list_all2_conv_all_nth list_eq_iff_nth_eq)
  then show "prefix (map lower needle) (map lower text)" by (metis take_is_prefix take_map)
next
  assume p: "prefix (map lower needle) (map lower text)"
  then have "map lower (take (length needle) text) = map lower needle"
    by (metis append_eq_conv_conj length_map prefix_def take_map)
  then show "length needle \<le> length text \<and> list_all2 (\<lambda>a b. lower a = lower b) (take (length needle) text) needle"
    using prefix_length_le [OF p] by (simp add: list_all2_conv_all_nth list_eq_iff_nth_eq)
qed

lemma search_finds:
  "needle \<noteq> [] \<Longrightarrow> search hay needle = length hay \<longleftrightarrow> \<not> sublist (map lower needle) (map lower hay)"
proof (induction hay)
  case (Cons c cs)
  then show ?case using search_prefix [of needle "c # cs"]
    by (simp add: sublist_Cons_right)
qed simp

lemma matchesFilter_iff: "matchesFilter hay needle \<longleftrightarrow> sublist (map lower needle) (map lower hay)"
proof (cases "needle = [] \<or> length needle > length hay")
  case True
  then show ?thesis by (auto simp: matchesFilter_def dest: sublist_length_le)
next
  case False
  then show ?thesis using search_finds [of needle hay] by (simp add: matchesFilter_def)
qed

subsection \<open>Properties\<close>

text \<open>
  C37. Escaping is safe and loses nothing: the result consists of printable ASCII characters only, is at most four
  times as long, and can be read back to the exact bytes, so two different values never look the same. The
  truncated form shows at most the given number of characters and three dots.
\<close>

theorem escape_faithful:
  "list_all isPrintable (escape s) \<and> length (escape s) \<le> 4 * length s \<and> unescape (escape s) = s \<and>
   (escape s = escape s' \<longleftrightarrow> s = s') \<and> length (escapeTruncated s n) \<le> n + 3"
proof (intro conjI)
  show "list_all isPrintable (escape s)"
    using escape_char_printable by (auto simp: escape_def list_all_iff)
  show "escape s = escape s' \<longleftrightarrow> s = s'" by (metis unescape_escape)
  show "length (escapeTruncated s n) \<le> n + 3" by (simp add: escapeTruncated_def Let_def)
qed (simp_all add: escape_length unescape_escape)



text \<open>
  The viewer reads a meta value as the client does, apart from two cases: the client rejects an owner that is
  out of range, where the viewer shows a link to owner \<open>-1\<close>.
\<close>

lemma parseMetaTarget_vs_client:
  "parseMetaTarget s =
     (case extractStrings s of
        [tag, owner, key] \<Rightarrow>
          if tag = ''META'' \<and> from_chars owner = OutOfRange [] then Some (PairKey kAnyOwner key)
          else parseMetaValue s
      | _ \<Rightarrow> None)"
proof (cases "\<exists>tag owner key. extractStrings s = [tag, owner, key]")
  case True
  then obtain tag owner key where w: "extractStrings s = [tag, owner, key]" by blast
  have "owner \<in> set (extractStrings s)" using w by simp
  then have "owner \<noteq> []" by (auto simp: extractStrings_def)
  then show ?thesis
    by (auto simp: parseMetaTarget_def parseMetaValue_def parseInt_def from_chars_ptr_def w
        split: from_chars_result.splits)
next
  case False
  then show ?thesis by (auto simp: parseMetaTarget_def split: list.splits)
qed

lemma count_list_replicate: "count_list (replicate n x) y = (if x = y then n else 0)"
  by (induction n) auto

text \<open>
  Cutting a message closes the brackets it leaves open. A message that closes more brackets than it opens
  before the cut makes the size of the padding wrap around, and the call throws.
\<close>

lemma briefError_outcome:
  "find_detail msg = Some d \<Longrightarrow>
   (if count_list (take d msg) (CHR ''('') < count_list (take d msg) (CHR '')'')
    then briefError msg = Inl (LengthError ''basic_string::append'')
    else \<exists>brief. briefError msg = Inr brief \<and> prefix (take d msg) brief \<and>
      count_list brief (CHR ''('') = count_list brief (CHR '')''))"
  by (auto simp: briefError_def Let_def count_list_append count_list_replicate)

text \<open>Apart from the unset time, two times are shown alike exactly when they fall into the same second.\<close>

lemma formatTime_faithful:
  "t \<noteq> 0 \<Longrightarrow> u \<noteq> 0 \<Longrightarrow> formatTime t = formatTime u \<longleftrightarrow> sint t div ns_per_s = sint u div ns_per_s"
  using date_time_faithful [of t u] by (simp add: formatTime_def Let_def)

end
