(* ===== verification/Viewer.thy ===== *)
theory Viewer
  imports Meta_Tracker Gui_Format
begin

text \<open>
  The viewer's own logic: \<^verbatim>\<open>gui/srnp_link.h\<close> and \<^verbatim>\<open>gui/srnp_link.cpp\<close>, which keep a node connected from a worker
  thread, and the part of \<^verbatim>\<open>gui/pair_view.h\<close> and \<^verbatim>\<open>gui/pair_view.cpp\<close> that decides what is shown and what a button
  does.

  Drawing is third-party code. A frame reads the snapshot and the components and shows the \<open>tree\<close> computed
  here; a widget that reports a click runs the operation of that button on the state of the viewer. What an
  attempt to connect meets is the argument \<open>dial\<close> of \<open>initialize\<close>, one for each round of \<^verbatim>\<open>connectLoop\<close>; the loop
  also ends when stopping was requested, which is the end of the list.

  Shown: the link connects as soon as the master answers and then holds the wildcard subscription; its flag
  always tells whether that subscription exists; the tree shows exactly the pairs the two filters let
  through, under their owners and in the order of the snapshot; posting goes to the right component.
\<close>

subsection \<open>The link\<close>

datatype LinkState = Disconnected | Connecting | Connected

record SrnpLink =
  sl_master_ip :: string
  sl_master_port :: string
  sl_desired_owner_id :: i32
  sl_state :: LinkState
  sl_last_error :: string
  sl_subscribed_to_all :: bool
  sl_wildcard :: SubscriptionHandle

definition new_srnp_link :: "string \<Rightarrow> string \<Rightarrow> i32 \<Rightarrow> SrnpLink" where
  "new_srnp_link ip prt desired =
     \<lparr>sl_master_ip = ip, sl_master_port = prt, sl_desired_owner_id = desired, sl_state = Disconnected,
      sl_last_error = [], sl_subscribed_to_all = False, sl_wildcard = kInvalidSubscriptionHandle\<rparr>"

definition subscribeToAll :: "SrnpLink \<times> 'cb Kernel \<Rightarrow> unit result \<times> SrnpLink \<times> 'cb Kernel" where
  "subscribeToAll s =
     (case srnp_registerSubscription kAnyOwner kWildcardKey (snd s) of
        (Inl e, k) \<Rightarrow> (Inl e, (fst s, k))
      | (Inr h, k) \<Rightarrow> (Inr (), ((fst s)\<lparr>sl_wildcard := h, sl_subscribed_to_all := True\<rparr>, k)))"

text \<open>One round of the loop; the flag says that it returned.\<close>

definition connect_round ::
    "(16 word \<times> byte list) result \<Rightarrow> SrnpLink \<times> 'cb Kernel \<Rightarrow> bool \<times> SrnpLink \<times> 'cb Kernel" where
  "connect_round dial s =
     (let l = (fst s)\<lparr>sl_state := Connecting\<rparr>
      in case andThen (\<lambda>(l, k). case initialize (sl_master_ip l) (sl_master_port l) (sl_desired_owner_id l) dial k of
                  (r, k1) \<Rightarrow> (r, (l, k1))) (\<lambda>_. subscribeToAll) (l, snd s) of
           (Inl e, (l, k)) \<Rightarrow> (False, (l\<lparr>sl_state := Disconnected, sl_last_error := what e\<rparr>, k))
         | (Inr _, (l, k)) \<Rightarrow> (True, (l\<lparr>sl_state := Connected, sl_last_error := []\<rparr>, k)))"

fun connectLoop :: "(16 word \<times> byte list) result list \<Rightarrow> SrnpLink \<times> 'cb Kernel \<Rightarrow> SrnpLink \<times> 'cb Kernel" where
  "connectLoop [] s = s"
| "connectLoop (dial # dials) s =
     (case connect_round dial s of (True, s1) \<Rightarrow> s1 | (False, s1) \<Rightarrow> connectLoop dials s1)"

definition setSubscribedToAll :: "bool \<Rightarrow> SrnpLink \<times> 'cb Kernel \<Rightarrow> unit result \<times> SrnpLink \<times> 'cb Kernel" where
  "setSubscribedToAll on s =
     (if on = sl_subscribed_to_all (fst s) \<or> sl_state (fst s) \<noteq> Connected then (Inr (), s)
      else if on then subscribeToAll s
      else case srnp_cancelSubscription (sl_wildcard (fst s)) (snd s) of
             (Inl e, k) \<Rightarrow> (Inl e, (fst s, k))
           | (Inr _, k) \<Rightarrow>
               (Inr (), ((fst s)\<lparr>sl_wildcard := kInvalidSubscriptionHandle, sl_subscribed_to_all := False\<rparr>, k)))"

definition destroy_link :: "SrnpLink \<times> 'cb Kernel \<Rightarrow> 'cb Kernel" where
  "destroy_link s = (if ok (snd s) then shutdown (snd s) else snd s)"

definition link_address :: "SrnpLink \<Rightarrow> string" where
  "link_address l = sl_master_ip l @ '':'' @ sl_master_port l"

subsection \<open>What the window shows\<close>

record Row =
  row_pair :: Pair
  row_ours :: bool

record PairView =
  selection :: "PairKey option"
  owner_to_open :: "i32 option"
  key_filter :: string
  owner_filter :: i32
  post_owner :: string
  post_key :: string
  post_value :: string
  post_type :: nat
  status :: string
  view_subscriptions :: "(PairKey, SubscriptionHandle) std_map"

definition new_view :: PairView where
  "new_view = \<lparr>selection = None, owner_to_open = None, key_filter = [], owner_filter = kAnyOwner,
     post_owner = [], post_key = [], post_value = [], post_type = 0, status = [], view_subscriptions = m_empty\<rparr>"

text \<open>The owners the filter offers, and the rows of the tree by owner.\<close>

definition owners_offered :: "Pair list \<Rightarrow> i32 list" where
  "owners_offered ps = sort (fold (\<lambda>p. push_new (getOwner p)) ps [])"

definition passes :: "PairView \<Rightarrow> Pair \<Rightarrow> bool" where
  "passes v p \<longleftrightarrow> \<not> (owner_filter v \<noteq> kAnyOwner \<and> getOwner p \<noteq> owner_filter v) \<and>
     matchesFilter (getKey p) (key_filter v)"

definition add_row :: "i32 \<Rightarrow> Pair \<Rightarrow> (i32, Row list) std_map \<Rightarrow> (i32, Row list) std_map" where
  "add_row us p rows =
     m_assign (getOwner p)
       ((case m_find rows (getOwner p) of None \<Rightarrow> [] | Some rs \<Rightarrow> rs) @ [\<lparr>row_pair = p, row_ours = (getOwner p = us)\<rparr>]) rows"

definition tree :: "PairView \<Rightarrow> i32 \<Rightarrow> Pair list \<Rightarrow> (i32, Row list) std_map" where
  "tree v us ps = fold (\<lambda>p rows. if passes v p then add_row us p rows else rows) ps m_empty"

definition selected :: "PairView \<Rightarrow> Pair list \<Rightarrow> Pair option" where
  "selected v ps =
     (case selection v of
        None \<Rightarrow> None
      | Some x \<Rightarrow> List.find (\<lambda>p. getOwner p = pk_owner x \<and> getKey p = pk_key x) ps)"

definition select :: "i32 \<Rightarrow> string \<Rightarrow> PairView \<Rightarrow> PairView" where
  "select owner key v = v\<lparr>selection := Some (PairKey owner key)\<rparr>"

text \<open>The button that follows a meta-pair, in the detail of the selected pair.\<close>

definition jump_pressed :: "Pair \<Rightarrow> PairView \<Rightarrow> PairView" where
  "jump_pressed p v =
     (case parseMetaTarget (getValue p) of
        None \<Rightarrow> v
      | Some x \<Rightarrow> (select (pk_owner x) (pk_key x) v)\<lparr>owner_to_open := Some (pk_owner x)\<rparr>)"

subsection \<open>What the buttons do\<close>

definition parseOwner :: "string \<Rightarrow> i32 option" where
  "parseOwner s = (case from_chars_ptr s (i32_of 0) of (v, rest) \<Rightarrow> if rest \<noteq> [] then None else Some v)"

definition kPostTypes :: "(string \<times> PairType) list" where
  "kPostTypes = [(''String'', PT_String), (''Bytes'', PT_Bytes), (''Meta'', PT_Meta)]"

definition post_pressed :: "TimePoint \<Rightarrow> PairView \<times> 'cb Kernel \<Rightarrow> unit result \<times> PairView \<times> 'cb Kernel" where
  "post_pressed now s =
     (let v = fst s; k = snd s; ty = snd (kPostTypes ! post_type v)
      in if post_key v = [] then (Inr (), s)
         else case (if post_owner v = [] then fst (getOwnerID k)
                    else Inr (case parseOwner (post_owner v) of None \<Rightarrow> i32_of (-2) | Some owner \<Rightarrow> owner)) of
                Inl e \<Rightarrow> (Inl e, s)
              | Inr owner \<Rightarrow>
                  if owner = i32_of (-2)
                  then (Inr (), (v\<lparr>status := ''Could not post: '' @ [CHR 0x22] @ post_owner v @ [CHR 0x22] @
                                   '' is not an owner id''\<rparr>, k))
                  else (case fst (getOwnerID k) of
                          Inl e \<Rightarrow> (Inl e, s)
                        | Inr us \<Rightarrow>
                            if owner = us
                            then (case srnp_setPair now (post_key v) (post_value v) ty k of
                                    (Inl e, k1) \<Rightarrow> (Inl e, (v, k1))
                                  | (Inr done, k1) \<Rightarrow>
                                      (Inr (), (v\<lparr>status := (if done then ''Posted '' else ''Could not post '') @ post_key v\<rparr>, k1)))
                            else (case srnp_setRemotePair owner (post_key v) (post_value v) ty k of
                                    (Inl e, k1) \<Rightarrow> (Inl e, (v, k1))
                                  | (Inr done, k1) \<Rightarrow>
                                      (Inr (), (v\<lparr>status := (if done
                                         then ''Posted '' @ post_key v @ '' to owner '' @ show_int (ival owner)
                                         else ''Could not post to owner '' @ show_int (ival owner) @ '': not connected'')\<rparr>, k1)))))"

definition delete_confirmed :: "Pair \<Rightarrow> PairView \<times> 'cb Kernel \<Rightarrow> unit result \<times> PairView \<times> 'cb Kernel" where
  "delete_confirmed p s =
     (let v = fst s; k = snd s; name = ''['' @ show_int (ival (getOwner p)) @ ''] '' @ getKey p
      in case fst (getOwnerID k) of
           Inl e \<Rightarrow> (Inl e, s)
         | Inr us \<Rightarrow>
             (case (if getOwner p = us then srnp_removePair (getKey p) k
                    else srnp_removeRemotePair (getOwner p) (getKey p) k) of
                (Inl e, k1) \<Rightarrow> (Inl e, (v, k1))
              | (Inr sent, k1) \<Rightarrow>
                  (Inr (), (v\<lparr>status := (if sent then ''Deleted '' @ name
                                         else ''Could not delete '' @ name @ '': not connected''),
                              selection := None\<rparr>, k1))))"

text \<open>The two controls for single pairs; both are disabled while the wildcard subscription is in place.\<close>

definition unsubscribe_pressed ::
    "bool \<Rightarrow> PairKey \<Rightarrow> PairView \<times> 'cb Kernel \<Rightarrow> unit result \<times> PairView \<times> 'cb Kernel" where
  "unsubscribe_pressed everything x s =
     (case (everything, m_find (view_subscriptions (fst s)) x) of
        (False, Some h) \<Rightarrow>
          (case srnp_cancelSubscription h (snd s) of
             (Inl e, k) \<Rightarrow> (Inl e, (fst s, k))
           | (Inr _, k) \<Rightarrow> (Inr (), ((fst s)\<lparr>view_subscriptions := m_erase x (view_subscriptions (fst s))\<rparr>, k)))
      | _ \<Rightarrow> (Inr (), s))"

definition subscribe_pressed :: "bool \<Rightarrow> PairView \<times> 'cb Kernel \<Rightarrow> unit result \<times> PairView \<times> 'cb Kernel" where
  "subscribe_pressed everything s =
     (case (everything, selection (fst s)) of
        (False, Some x) \<Rightarrow>
          if m_contains (view_subscriptions (fst s)) x then (Inr (), s)
          else (case srnp_registerSubscription (pk_owner x) (pk_key x) (snd s) of
                  (Inl e, k) \<Rightarrow> (Inl e, (fst s, k))
                | (Inr h, k) \<Rightarrow>
                    (Inr (), ((if h = kInvalidSubscriptionHandle
                       then (fst s)\<lparr>status := ''Already subscribed to ['' @ show_int (ival (pk_owner x)) @ ''] '' @ pk_key x\<rparr>
                       else (fst s)\<lparr>view_subscriptions := m_emplace x h (view_subscriptions (fst s))\<rparr>), k)))
      | _ \<Rightarrow> (Inr (), s))"

subsection \<open>Subscribing\<close>

lemma send_subscriptions_ok:
  "13 + length key \<le> kMaxPayload \<Longrightarrow> fst (send_subscriptions sids key registering c) = Inr True"
  by (induction sids key registering c rule: send_subscriptions.induct) (simp_all add: subscription_frame_ok)

lemma sendSubscription_ok:
  "13 + length key \<le> kMaxPayload \<Longrightarrow> \<exists>b. fst (sendSubscription owner key registering c) = Inr b"
  by (auto simp: sendSubscription_def send_subscriptions_ok subscription_frame_ok split: option.splits)

lemma registerSubscription_ok:
  assumes "13 + length key \<le> kMaxPayload"
  shows "\<exists>h. fst (registerSubscription owner key c) = Inr h"
proof (cases "list_ex (\<lambda>(h, r). sr_owner r = owner \<and> sr_key r = key) (m_entries (subscriptions c))")
  case False
  let ?c = "c\<lparr>next_subscription_handle := next_subscription_handle c + 1, subscriptions :=
      m_emplace (next_subscription_handle c + 1) \<lparr>sr_owner = owner, sr_key = key\<rparr> (subscriptions c)\<rparr>"
  obtain b c2 where "sendSubscription owner key True ?c = (Inr b, c2)"
    using sendSubscription_ok [OF assms, of owner True ?c] by (metis prod.collapse)
  then show ?thesis using False by (simp add: registerSubscription_def Let_def)
qed (simp add: registerSubscription_def)

lemma srnp_registerSubscription_ok:
  assumes "node_good k" "13 + length key \<le> kMaxPayload"
  obtains h k' where "srnp_registerSubscription owner key k = (Inr h, k')"
proof -
  have "fst (srnp_registerSubscription owner key k) = fst (registerSubscription owner key (node_client (the_node k)))"
    using with_client_good(1) [OF assms(1), of "on_client (registerSubscription owner key)"]
    by (simp add: srnp_registerSubscription_def)
  then show thesis using that registerSubscription_ok [OF assms(2)] by (metis prod.collapse)
qed

definition wildcard_record :: SubscriptionRecord where
  "wildcard_record = sub_record (PairKey kAnyOwner kWildcardKey)"

lemma wildcard_fits: "13 + length kWildcardKey \<le> kMaxPayload"
  by (simp add: kWildcardKey_def kMaxPayload_def)

lemma subscribeToAll_effect:
  assumes "node_good k" "sub_room k" "\<And>h. sub_at k h \<noteq> Some wildcard_record"
  obtains h k' where "subscribeToAll (l, k) = (Inr (), (l\<lparr>sl_wildcard := h, sl_subscribed_to_all := True\<rparr>, k'))"
    "sub_at k' = (sub_at k)(h \<mapsto> wildcard_record)" "node_good k'"
    "srnp_registerSubscription kAnyOwner kWildcardKey k = (Inr h, k')"
proof -
  obtain h k' where reg: "srnp_registerSubscription kAnyOwner kWildcardKey k = (Inr h, k')"
    using srnp_registerSubscription_ok [OF assms(1) wildcard_fits] .
  have add: "add_sub (PairKey kAnyOwner kWildcardKey) k = (Inr h, k')" using reg by (simp add: add_sub_def)
  have "h \<noteq> kInvalidSubscriptionHandle"
    using subs.add_refused [OF assms(1,2)] add assms(3) unfolding wildcard_record_def by metis
  then show thesis
    using that register_sub(1,4) [OF assms(1,2) reg] reg by (simp add: subscribeToAll_def wildcard_record_def)
qed

subsection \<open>Connecting\<close>

lemma connect_round_fails:
  assumes "\<not> ok k"
  shows "connect_round (Inl e) (l, k) = (False, (l\<lparr>sl_state := Disconnected, sl_last_error :=
    what (InitError (''could not reach the master at '' @ sl_master_ip l @ '':'' @ sl_master_port l @
      '' ('' @ what e @ '')''))\<rparr>, k))"
  using assms by (simp add: connect_round_def initialize_def andThen_def Let_def)

lemma connectLoop_skips:
  "list_all (\<lambda>d. \<exists>e. d = Inl e) dials \<Longrightarrow> \<not> ok k \<Longrightarrow>
   \<exists>l'. connectLoop (dials @ rest) (l, k) = connectLoop rest (l', k) \<and> sl_master_ip l' = sl_master_ip l \<and>
     sl_master_port l' = sl_master_port l \<and> sl_desired_owner_id l' = sl_desired_owner_id l"
proof (induction dials arbitrary: l)
  case (Cons d dials)
  then obtain e where "d = Inl e" by auto
  then show ?case using Cons.IH Cons.prems by (fastforce simp: connect_round_fails)
qed auto

lemma onWelcome_subscriptions [simp]:
  "subscriptions (onWelcome w c) = subscriptions c"
  "next_subscription_handle (onWelcome w c) = next_subscription_handle c"
proof -
  have "subscriptions (fold addSession infos c) = subscriptions c \<and>
      next_subscription_handle (fold addSession infos c) = next_subscription_handle c" for infos and c :: "'a Client"
    by (induction infos arbitrary: c) (simp_all add: addSession_def)
  then show "subscriptions (onWelcome w c) = subscriptions c"
    "next_subscription_handle (onWelcome w c) = next_subscription_handle c" by (simp_all add: onWelcome_def)
qed

lemma new_running_node:
  assumes "srv_node srv = new_node\<lparr>node_client := onWelcome w new_client\<rparr>" "running k = Some srv"
  shows "node_good k" "sub_room k" "sub_at k = Map.empty"
proof -
  have "node_inv (srv_node srv)"
    using assms(1) by (simp add: node_inv_space node_invD client_inv_onWelcome)
  then show "node_good k" using assms(2) by (simp add: node_good_def)
  have "the_node k = srv_node srv" using assms(2) by (simp add: the_node_def)
  then show "sub_room k" "sub_at k = Map.empty"
    using assms(1) by (simp_all add: sub_room_def sub_at_def new_client_def kInvalidSubscriptionHandle_def fun_eq_iff)
qed

lemma connect_round_succeeds:
  fixes k :: "'cb Kernel"
  assumes "frameOf encode_MasterMessage MT_MasterMessage w = Inr fr" "plausible w" "\<not> ok k"
  obtains h k' where "connect_round (Inr (p, fr @ rest)) (l, k) =
      (True, (l\<lparr>sl_state := Connected, sl_last_error := [], sl_wildcard := h, sl_subscribed_to_all := True\<rparr>, k'))"
    "sub_at k' h = Some wildcard_record" "ok k'" "getOwnerID k' = (Inr (mm_owner w), k')"
proof -
  obtain srv where init: "initialize (sl_master_ip l) (sl_master_port l) (sl_desired_owner_id l) (Inr (p, fr @ rest)) k =
      (Inr (), k\<lparr>running := Some srv\<rparr>)" "srv_owner srv = mm_owner w"
    "srv_node srv = new_node\<lparr>node_client := onWelcome (welcomed (sl_master_ip l) w) new_client\<rparr>"
    by (rule initialize_welcomed [OF assms])
  let ?k = "k\<lparr>running := Some srv\<rparr>" and ?l = "l\<lparr>sl_state := Connecting\<rparr>"
  have new: "node_good ?k" "sub_room ?k" "sub_at ?k = Map.empty" using new_running_node [OF init(3)] by simp_all
  obtain h k' where sub: "subscribeToAll (?l, ?k) = (Inr (), (?l\<lparr>sl_wildcard := h, sl_subscribed_to_all := True\<rparr>, k'))"
    "sub_at k' = (sub_at ?k)(h \<mapsto> wildcard_record)" "node_good k'"
    "srnp_registerSubscription kAnyOwner kWildcardKey ?k = (Inr h, k')"
    using subscribeToAll_effect [OF new(1,2), of ?l] new(3) by auto
  have "connect_round (Inr (p, fr @ rest)) (l, k) =
      (True, (l\<lparr>sl_state := Connected, sl_last_error := [], sl_wildcard := h, sl_subscribed_to_all := True\<rparr>, k'))"
    using init(1) sub(1) by (simp add: connect_round_def andThen_def)
  moreover have "sub_at k' h = Some wildcard_record" using sub(2) by simp
  moreover obtain srv' where srv': "running k' = Some srv'" using sub(3) by (auto simp: node_good_def)
  moreover have "client_identity (node_client (the_node k')) = client_identity (node_client (the_node ?k))"
    using with_client_good(2) [OF new(1), of "on_client (registerSubscription kAnyOwner kWildcardKey)"] sub(4)
    by (simp add: srnp_registerSubscription_def table_identity)
  then have "owner_id (node_client (srv_node srv')) = mm_owner w"
    using init(3) srv' by (simp add: client_identity_def the_node_def onWelcome_def)
  ultimately show thesis using that by (simp add: ok_def getOwnerID_def with_client_reading)
qed

subsection \<open>The tree\<close>

lemma fold_add_row:
  "m_find (fold (\<lambda>p rows. if passes v p then add_row us p rows else rows) ps rows) owner =
    (let new = map (\<lambda>p. \<lparr>row_pair = p, row_ours = (owner = us)\<rparr>) (filter (\<lambda>p. passes v p \<and> getOwner p = owner) ps)
     in if new = [] then m_find rows owner
        else Some ((case m_find rows owner of None \<Rightarrow> [] | Some rs \<Rightarrow> rs) @ new))"
  by (induction ps arbitrary: rows) (auto simp: add_row_def Let_def split: option.splits)

lemma tree_find:
  "m_find (tree v us ps) owner =
    (case filter (\<lambda>p. getOwner p = owner \<and> (owner_filter v = kAnyOwner \<or> owner = owner_filter v) \<and>
        sublist (map lower (key_filter v)) (map lower (getKey p))) ps of
       [] \<Rightarrow> None
     | rs \<Rightarrow> Some (map (\<lambda>p. \<lparr>row_pair = p, row_ours = (owner = us)\<rparr>) rs))"
proof -
  have "(passes v p \<and> getOwner p = owner) \<longleftrightarrow>
      (getOwner p = owner \<and> (owner_filter v = kAnyOwner \<or> owner = owner_filter v) \<and>
        sublist (map lower (key_filter v)) (map lower (getKey p)))" for p
    by (auto simp: passes_def matchesFilter_iff)
  then show ?thesis unfolding tree_def by (simp add: fold_add_row Let_def split: list.splits)
qed

lemma owners_offered_set: "set (owners_offered ps) = getOwner ` set ps" "sorted (owners_offered ps)" "distinct (owners_offered ps)"
proof -
  have "set (fold (\<lambda>p. push_new (getOwner p)) ps os) = set os \<union> getOwner ` set ps \<and>
      (distinct os \<longrightarrow> distinct (fold (\<lambda>p. push_new (getOwner p)) ps os))" for os
    by (induction ps arbitrary: os) (auto simp: push_new_def)
  then show "set (owners_offered ps) = getOwner ` set ps" "sorted (owners_offered ps)" "distinct (owners_offered ps)"
    by (simp_all add: owners_offered_def)
qed

subsection \<open>The wildcard switch\<close>

definition link_consistent :: "SrnpLink \<times> 'cb Kernel \<Rightarrow> bool" where
  "link_consistent s \<longleftrightarrow> node_good (snd s) \<and>
     (if sl_subscribed_to_all (fst s) then sub_at (snd s) (sl_wildcard (fst s)) = Some wildcard_record
      else \<forall>h. sub_at (snd s) h \<noteq> Some wildcard_record)"

lemma link_consistent_switch:
  assumes "link_consistent s" "sub_room (snd s)" "setSubscribedToAll on s = (Inr (), s')"
  shows "link_consistent s' \<and> (sl_state (fst s) = Connected \<longrightarrow> sl_subscribed_to_all (fst s') = on)"
proof -
  obtain l k where s: "s = (l, k)" by (cases s)
  have "node_good k" using assms(1) by (simp add: link_consistent_def s)
  note uniq = sub_at_unique [OF this]
  consider "on = sl_subscribed_to_all l \<or> sl_state l \<noteq> Connected"
    | "on" "\<not> sl_subscribed_to_all l" "sl_state l = Connected"
    | "\<not> on" "sl_subscribed_to_all l" "sl_state l = Connected" by blast
  then show ?thesis
  proof cases
    case 1
    then show ?thesis using assms by (auto simp: setSubscribedToAll_def s)
  next
    case 2
    then have "node_good k" "sub_room k" "\<And>h. sub_at k h \<noteq> Some wildcard_record"
      using assms(1,2) by (auto simp: link_consistent_def s)
    then obtain h k' where "subscribeToAll (l, k) = (Inr (), (l\<lparr>sl_wildcard := h, sl_subscribed_to_all := True\<rparr>, k'))"
      "sub_at k' = (sub_at k)(h \<mapsto> wildcard_record)" "node_good k'" by (rule subscribeToAll_effect)
    then show ?thesis using assms(3) 2 by (auto simp: setSubscribedToAll_def s link_consistent_def)
  next
    case 3
    then obtain k' where can: "srnp_cancelSubscription (sl_wildcard l) k = (Inr (), k')"
      and s': "s' = (l\<lparr>sl_wildcard := kInvalidSubscriptionHandle, sl_subscribed_to_all := False\<rparr>, k')"
      using assms(3) by (auto simp: setSubscribedToAll_def s split: prod.splits sum.splits)
    have "node_good k" "sub_at k (sl_wildcard l) = Some wildcard_record"
      using assms(1) 3 by (auto simp: link_consistent_def s)
    then show ?thesis using cancel_sub(1,2) [OF _ can] uniq 3 by (auto simp: s' link_consistent_def s)
  qed
qed

subsection \<open>Reachability\<close>

lemma kernel_reach_call:
  "kernel_reach k \<Longrightarrow> handles_left k \<Longrightarrow> kernel_reach (snd (srnp_setPair now key val ty k))"
  "kernel_reach k \<Longrightarrow> handles_left k \<Longrightarrow> kernel_reach (snd (srnp_setRemotePair owner key val ty k))"
  "kernel_reach k \<Longrightarrow> handles_left k \<Longrightarrow> kernel_reach (snd (srnp_removePair key k))"
  "kernel_reach k \<Longrightarrow> handles_left k \<Longrightarrow> kernel_reach (snd (srnp_removeRemotePair owner key k))"
  "kernel_reach k \<Longrightarrow> handles_left k \<Longrightarrow> kernel_reach (snd (srnp_registerSubscription owner key k))"
  "kernel_reach k \<Longrightarrow> handles_left k \<Longrightarrow> kernel_reach (snd (srnp_cancelSubscription h k))"
  "kernel_reach k \<Longrightarrow> handles_left k \<Longrightarrow> kernel_reach (snd (initialize ip prt desired dial k))"
  "kernel_reach k \<Longrightarrow> handles_left k \<Longrightarrow> kernel_reach (shutdown k)"
  by (metis reach_step kernel_step.simps(3), metis reach_step kernel_step.simps(4),
    metis reach_step kernel_step.simps(8), metis reach_step kernel_step.simps(9),
    metis reach_step kernel_step.simps(12), metis reach_step kernel_step.simps(13),
    metis reach_step kernel_step.simps(1), metis reach_step kernel_step.simps(2))

lemma reach_result: "kernel_reach (snd r) \<Longrightarrow> r = (x, k') \<Longrightarrow> kernel_reach k'"
  by simp

lemma new_server_handles:
  "new_server ip prt p desired input new_node = Inr (srv, rest) \<Longrightarrow>
   next_callback_handle (node_space (srv_node srv)) = 0 \<and> next_subscription_handle (node_client (srv_node srv)) = 0"
  by (auto simp: new_server_def startWorkers_def bindE_eq_Inr new_node_def empty_space_def new_client_def
      kInvalidCallbackHandle_def kInvalidSubscriptionHandle_def)

lemma handles_left_initialize: "handles_left k \<Longrightarrow> handles_left (snd (initialize ip prt desired dial k))"
  by (auto simp: initialize_def handles_left_def Let_def shutdown_def bindE_eq_Inr
      dest!: new_server_handles split: sum.splits option.splits)

lemma reach_subscribeToAll:
  "kernel_reach k \<Longrightarrow> handles_left k \<Longrightarrow> kernel_reach (snd (snd (subscribeToAll (l, k))))"
  using kernel_reach_call(5) [of k kAnyOwner kWildcardKey]
  by (auto simp: subscribeToAll_def split: prod.splits sum.splits)

lemma reach_connect_round:
  assumes "kernel_reach k" "handles_left k"
  shows "kernel_reach (snd (snd (connect_round dial (l, k))))"
proof -
  obtain r k1 where init: "initialize (sl_master_ip l) (sl_master_port l) (sl_desired_owner_id l) dial k = (r, k1)"
    by fastforce
  have k1: "kernel_reach k1" "handles_left k1"
    using kernel_reach_call(7) [OF assms] handles_left_initialize [OF assms(2)] init by (metis snd_conv)+
  then show ?thesis
    using init reach_subscribeToAll [OF k1, of "l\<lparr>sl_state := Connecting\<rparr>"]
    by (cases r) (auto simp: connect_round_def andThen_def Let_def split: prod.splits sum.splits)
qed

lemma reach_setSubscribedToAll:
  assumes "kernel_reach k" "handles_left k"
  shows "kernel_reach (snd (snd (setSubscribedToAll on (l, k))))"
  using assms reach_subscribeToAll [OF assms] kernel_reach_call(6) [OF assms, of "sl_wildcard l"]
  by (auto simp: setSubscribedToAll_def split: prod.splits sum.splits)

lemma reach_buttons:
  assumes "kernel_reach k" "handles_left k"
  shows "kernel_reach (snd (snd (post_pressed now (v, k))))"
    "kernel_reach (snd (snd (delete_confirmed p (v, k))))"
    "kernel_reach (snd (snd (unsubscribe_pressed everything x (v, k))))"
    "kernel_reach (snd (snd (subscribe_pressed everything (v, k))))"
proof -
  note calls = kernel_reach_call [OF assms]
  show "kernel_reach (snd (snd (post_pressed now (v, k))))"
    using assms(1)
    by (auto simp: post_pressed_def Let_def intro: reach_result [OF calls(1)] reach_result [OF calls(2)]
        split: prod.splits sum.splits)
  show "kernel_reach (snd (snd (delete_confirmed p (v, k))))"
    using assms(1)
    by (auto simp: delete_confirmed_def Let_def intro: reach_result [OF calls(3)] reach_result [OF calls(4)]
        split: prod.splits sum.splits if_splits)
  show "kernel_reach (snd (snd (unsubscribe_pressed everything x (v, k))))"
    using assms(1)
    by (auto simp: unsubscribe_pressed_def intro: reach_result [OF calls(6)]
        split: prod.splits sum.splits option.splits bool.splits)
  show "kernel_reach (snd (snd (subscribe_pressed everything (v, k))))"
    using assms(1)
    by (auto simp: subscribe_pressed_def intro: reach_result [OF calls(5)]
        split: prod.splits sum.splits option.splits bool.splits)
qed

subsection \<open>Properties\<close>



text \<open>
  The tree shows exactly what the filters let through: under each owner the pairs of the snapshot, in its
  order, whose owner is the chosen one (if any) and whose key contains the typed text, case aside; an owner
  without such a pair is not shown, and only our own pairs are marked as ours.
\<close>

lemma tree_shows_filtered:
  "m_find (tree v us ps) owner =
    (case filter (\<lambda>p. getOwner p = owner \<and> (owner_filter v = kAnyOwner \<or> owner = owner_filter v) \<and>
        sublist (map lower (key_filter v)) (map lower (getKey p))) ps of
       [] \<Rightarrow> None
     | rs \<Rightarrow> Some (map (\<lambda>p. \<lparr>row_pair = p, row_ours = (owner = us)\<rparr>) rs))"
  by (rule tree_find)

text \<open>
  Whatever the user of the viewer does, the node stays one that a process can reach: connecting, switching
  the wildcard subscription, posting, deleting and the subscription buttons only go through the public
  functions, so the invariants of every history hold for the viewer too.
\<close>

lemma viewer_keeps_node_reachable:
  assumes "kernel_reach k" "handles_left k"
  shows "kernel_reach (snd (snd (connect_round dial (l, k)))) \<and>
    kernel_reach (snd (snd (setSubscribedToAll on (l, k)))) \<and>
    kernel_reach (snd (snd (post_pressed now (v, k)))) \<and>
    kernel_reach (snd (snd (delete_confirmed p (v, k)))) \<and>
    kernel_reach (snd (snd (unsubscribe_pressed everything x (v, k)))) \<and>
    kernel_reach (snd (snd (subscribe_pressed everything (v, k)))) \<and>
    kernel_reach (destroy_link (l, k))"
  using reach_connect_round [OF assms] reach_setSubscribedToAll [OF assms] reach_buttons [OF assms]
    kernel_reach_call(8) [OF assms] assms(1)
  by (simp add: destroy_link_def)

text \<open>
  Where a post goes: with no owner typed, or our own id, the pair is published here; with another id it is sent
  to that component; with text that is no number nothing is called and the status says so.
\<close>

lemma post_goes_to_owner:
  assumes "post_key v \<noteq> []" "getOwnerID k = (Inr us, k)" "us \<noteq> i32_of (-2)"
    and "owner = (if post_owner v = [] then Some us else parseOwner (post_owner v))" "owner \<noteq> Some (i32_of (-2))"
  shows "snd (snd (post_pressed now (v, k))) =
    (case owner of
       None \<Rightarrow> k
     | Some i \<Rightarrow> if i = us then snd (srnp_setPair now (post_key v) (post_value v) (snd (kPostTypes ! post_type v)) k)
         else snd (srnp_setRemotePair i (post_key v) (post_value v) (snd (kPostTypes ! post_type v)) k))"
  using assms
  by (auto simp: post_pressed_def Let_def split: option.splits prod.splits sum.splits if_splits)

text \<open>Typing an owner id that does not fit an \<^verbatim>\<open>int\<close> selects owner \<open>0\<close>, and the id \<open>-2\<close> cannot be typed.\<close>

lemma parseOwner_overflow: "parseOwner ''99999999999'' = Some (I32 0)"
  by (simp add: parseOwner_def from_chars_ptr_def from_chars_def is_digit_def digits_val_def digit_val_def
      INT_MIN_def INT_MAX_def i32_of_def)

lemma parseOwner_roundtrip: "parseOwner (show_int (ival i)) = Some i"
  using from_chars_show_int [of "[]" "ival i"] ival_range [of i]
  by (simp add: parseOwner_def from_chars_ptr_def)

end
