(* ===== verification/Window.thy ===== *)
theory Window
  imports Viewer
begin

text \<open>
  One frame of the viewer: what \<^verbatim>\<open>PairView::draw\<close> and the functions it calls in \<^verbatim>\<open>gui/pair_view.cpp\<close> put on the screen,
  and the icons of \<^verbatim>\<open>gui/theme.h\<close>.

  Layout and widgets are third-party code. Here a frame is the text it shows, with its colour, as a function of
  the link, the view and the node; what a click does is an operation of theory \<open>Viewer\<close>. A frame changes one
  thing, \<open>owner_to_open\<close>, which is forgotten when that owner was drawn. An exception that leaves a
  frame ends the program, so a frame returns a \<open>result\<close>.

  Shown: in every history of the viewer's process a frame of a connected viewer returns, and shows each pair
  of the node that passes the filters with its value escaped; the banner of a viewer that is not connected
  returns if the text of the last error has its brackets in order.
\<close>

subsection \<open>Icons, colours, text\<close>

datatype Icon =
    kSearch | kClock | kRotate | kTag | kCircleX | kCircleCheck | kInfo | kArrowRight | kEye
  | kWarning | kFilter | kUsers | kLink | kCube | kSend | kPlug | kTrash | kServer

fun glyph :: "Icon \<Rightarrow> string" where
  "glyph kSearch = [CHR 0xEF, CHR 0x80, CHR 0x82]"
| "glyph kClock = [CHR 0xEF, CHR 0x80, CHR 0x97]"
| "glyph kRotate = [CHR 0xEF, CHR 0x80, CHR 0xA1]"
| "glyph kTag = [CHR 0xEF, CHR 0x80, CHR 0xAB]"
| "glyph kCircleX = [CHR 0xEF, CHR 0x81, CHR 0x97]"
| "glyph kCircleCheck = [CHR 0xEF, CHR 0x81, CHR 0x98]"
| "glyph kInfo = [CHR 0xEF, CHR 0x81, CHR 0x9A]"
| "glyph kArrowRight = [CHR 0xEF, CHR 0x81, CHR 0xA1]"
| "glyph kEye = [CHR 0xEF, CHR 0x81, CHR 0xAE]"
| "glyph kWarning = [CHR 0xEF, CHR 0x81, CHR 0xB1]"
| "glyph kFilter = [CHR 0xEF, CHR 0x82, CHR 0xB0]"
| "glyph kUsers = [CHR 0xEF, CHR 0x83, CHR 0x80]"
| "glyph kLink = [CHR 0xEF, CHR 0x83, CHR 0x81]"
| "glyph kCube = [CHR 0xEF, CHR 0x86, CHR 0xB2]"
| "glyph kSend = [CHR 0xEF, CHR 0x87, CHR 0x98]"
| "glyph kPlug = [CHR 0xEF, CHR 0x87, CHR 0xA6]"
| "glyph kTrash = [CHR 0xEF, CHR 0x87, CHR 0xB8]"
| "glyph kServer = [CHR 0xEF, CHR 0x88, CHR 0xB3]"

datatype Colour = Body | Grey | Red | Green

text \<open>
  What a pane consists of: text, headings and controls. An input has its caption, its text and the hint it shows when
  empty; a check box and a button can be disabled. Tooltips, which appear on hovering only, are left out.
\<close>

datatype Item =
    Line Colour string
  | Heading string
  | Input string string string
  | Choice string string
  | Check string bool bool
  | Push string bool

definition kValueColumnChars :: nat where "kValueColumnChars = 48"

definition with_icon :: "Icon \<Rightarrow> string \<Rightarrow> string" where
  "with_icon i s = glyph i @ ''  '' @ s"

definition heading :: "Icon \<Rightarrow> string \<Rightarrow> Item" where
  "heading i label = Heading (with_icon i label)"

subsection \<open>The banner\<close>

definition drawDisconnectedBanner :: "SrnpLink \<Rightarrow> Item list result" where
  "drawDisconnectedBanner l =
     (let connecting = (sl_state l = Connecting);
          title = Line (if connecting then Grey else Red)
            (with_icon (if connecting then kRotate else kPlug)
               (if connecting then ''Connecting...'' else ''Not connected to a master''));
          master = Line Body (with_icon kServer (''Master: '' @ link_address l))
      in if sl_last_error l = [] then Inr [title, master]
         else bindE (briefError (sl_last_error l)) (\<lambda>brief.
           Inr [title, master, Line Body (with_icon kWarning (''Last error: '' @ brief)),
             Line Body (''Retrying every 3 seconds. Check that srnp-master is running, and that '' @
               ''SRNP_MASTER_IP and SRNP_MASTER_PORT point at it.'')]))"

subsection \<open>The tree\<close>

record TableRow =
  cell_key :: string
  cell_chosen :: bool
  cell_value :: string
  cell_age :: string

record OwnerPanel =
  panel_owner :: i32
  panel_header :: string
  panel_opened :: bool
  panel_gone :: bool
  panel_rows :: "TableRow list"

definition owner_header :: "i32 \<Rightarrow> i32 \<Rightarrow> (i32, ComponentInfo) std_map \<Rightarrow> string" where
  "owner_header us owner comps =
     with_icon kServer (''Owner '' @ show_int (ival owner)) @
     (if owner = us then ''  (you)''
      else case m_find comps owner of None \<Rightarrow> [] | Some c \<Rightarrow> ''   '' @ ci_ip c @ '':'' @ ci_port c)"

definition table_row :: "TimePoint \<Rightarrow> PairView \<Rightarrow> i32 \<Rightarrow> Row \<Rightarrow> TableRow" where
  "table_row now v owner row =
     \<lparr>cell_key = getKey (row_pair row),
      cell_chosen = (selection v = Some (PairKey owner (getKey (row_pair row)))),
      cell_value = escapeTruncated (getValue (row_pair row)) kValueColumnChars,
      cell_age = formatAge (sint (now - getWriteTime (row_pair row)))\<rparr>"

definition drawOwner ::
    "TimePoint \<Rightarrow> i32 \<Rightarrow> (i32, ComponentInfo) std_map \<Rightarrow> i32 \<Rightarrow> Row list \<Rightarrow> PairView \<Rightarrow> OwnerPanel \<times> PairView" where
  "drawOwner now us comps owner rows v =
     (\<lparr>panel_owner = owner,
       panel_header = owner_header us owner comps,
       panel_opened = (owner_to_open v = Some owner),
       panel_gone = (owner \<noteq> us \<and> m_find comps owner = None),
       panel_rows = map (table_row now v owner) rows\<rparr>,
      if owner_to_open v = Some owner then v\<lparr>owner_to_open := None\<rparr> else v)"

fun drawOwners ::
    "TimePoint \<Rightarrow> i32 \<Rightarrow> (i32, ComponentInfo) std_map \<Rightarrow> (i32 \<times> Row list) list \<Rightarrow> PairView \<Rightarrow> OwnerPanel list \<times> PairView" where
  "drawOwners now us comps [] v = ([], v)"
| "drawOwners now us comps ((owner, rows) # by_owner) v =
     (case drawOwner now us comps owner rows v of
        (panel, v1) \<Rightarrow> (case drawOwners now us comps by_owner v1 of (panels, v2) \<Rightarrow> (panel # panels, v2)))"

record TreePane =
  tree_filter_label :: string
  tree_note :: "Item list"
  tree_panels :: "OwnerPanel list"

definition drawTree ::
    "TimePoint \<Rightarrow> i32 \<Rightarrow> Pair list \<Rightarrow> (i32, ComponentInfo) std_map \<Rightarrow> PairView \<Rightarrow> TreePane \<times> PairView" where
  "drawTree now us ps comps v =
     (let by_owner = m_entries (tree v us ps)
      in case drawOwners now us comps by_owner v of
           (panels, v1) \<Rightarrow>
             (\<lparr>tree_filter_label = (if owner_filter v = kAnyOwner then ''all owners'' else show_int (ival (owner_filter v))),
               tree_note = (if by_owner = [] then [Line Grey (if ps = [] then ''No pairs yet.'' else ''Nothing matches.'')] else []),
               tree_panels = panels\<rparr>, v1))"

text \<open>Choosing an entry of the owner filter, and of the types of the post form.\<close>

definition choose_owner :: "i32 \<Rightarrow> PairView \<Rightarrow> PairView" where
  "choose_owner owner v = v\<lparr>owner_filter := owner\<rparr>"

definition choose_type :: "nat \<Rightarrow> PairView \<Rightarrow> PairView" where
  "choose_type i v = (if i < length kPostTypes then v\<lparr>post_type := i\<rparr> else v)"

subsection \<open>The side pane\<close>

definition drawDetail :: "TimePoint \<Rightarrow> PairView \<Rightarrow> Pair list \<Rightarrow> Item list" where
  "drawDetail now v ps =
     heading kCube ''Selected pair'' #
     (case selected v ps of
        None \<Rightarrow> [Line Grey (if selection v \<noteq> None then ''The selected pair is gone.'' else ''Nothing selected.'')]
      | Some p \<Rightarrow>
          [Line Body (''Owner    '' @ show_int (ival (getOwner p))),
           Line Body (''Key      '' @ getKey p),
           Line Body (''Type     '' @ nameOfType (getType p)),
           Line Body (''Written  '' @ formatTime (getWriteTime p) @ ''  ('' @
             formatAge (sint (now - getWriteTime p)) @ '')''),
           Line Body (''Expiry   '' @ formatTime (getExpiryTime p) @ ''  (never enforced)'')] @
          (case parseMetaTarget (getValue p) of
             None \<Rightarrow> []
           | Some x \<Rightarrow> [Line Body (with_icon kLink (''Points at ['' @ show_int (ival (pk_owner x)) @ ''] '' @ pk_key x))]) @
          [heading kTag ''Value'', Line Body (escape (getValue p))] @
          (if getType p = PT_Bytes
           then [heading kCube (''Hex ('' @ show_nat (length (getValue p)) @ '' bytes)''), Line Body (hexDump (getValue p))]
           else []))"

definition status_line :: "PairView \<Rightarrow> Item list" where
  "status_line v =
     (if status v = [] then []
      else let failed = prefix ''Could not'' (status v)
           in [Line (if failed then Red else Green)
                 (with_icon (if failed then kCircleX else kCircleCheck) (status v))])"

definition drawPostForm :: "PairView \<Rightarrow> Item list" where
  "drawPostForm v =
     (let ready = (post_key v \<noteq> [])
      in [heading kSend ''Post a pair'',
          Input (with_icon kUsers ''Owner'') (post_owner v) ''you'',
          Input (with_icon kTag ''Key  '') (post_key v) ''required'',
          Input (with_icon kCube ''Value'') (post_value v) ''may be empty'',
          Choice (with_icon kInfo ''Type '') (fst (kPostTypes ! post_type v)),
          Push (glyph kSend) ready] @
         (if \<not> ready then [Line Grey ''a key is required''] else []))"

definition drawDeleteButton :: "PairView \<Rightarrow> Pair list \<Rightarrow> Item list" where
  "drawDeleteButton v ps =
     [heading kTrash ''Delete'', Push (glyph kTrash) (selected v ps \<noteq> None)] @
     (if selected v ps = None then [Line Grey ''select a pair first''] else [])"

text \<open>The dialog that the delete button opens; its first button is \<open>delete_confirmed\<close>, its second only closes it.\<close>

definition confirm_dialog :: "Pair \<Rightarrow> Item list" where
  "confirm_dialog p =
     [Line Body (with_icon kWarning (''Delete ['' @ show_int (ival (getOwner p)) @ ''] '' @ getKey p @ ''?'')),
      Line Grey ''This cannot be undone.'',
      Push (with_icon kTrash ''Delete'') True, Push (with_icon kCircleX ''Cancel'') True]"

definition drawSubscriptionControls :: "SrnpLink \<Rightarrow> PairView \<Rightarrow> Item list" where
  "drawSubscriptionControls l v =
     (let everything = sl_subscribed_to_all l
      in [heading kEye ''Subscriptions'', Check ''Subscribe to everything (*)'' everything True] @
         (if everything
          then [Line Grey (''A wildcard subscription already covers every key, so the per-pair '' @
                  ''toggles below would do nothing. Turn it off to use them.'')]
          else []) @
         map (\<lambda>(x, h). Check (''['' @ show_int (ival (pk_owner x)) @ ''] '' @ pk_key x) True (\<not> everything))
           (m_entries (view_subscriptions v)) @
         (case (everything, selection v) of
            (False, Some x) \<Rightarrow>
              if m_contains (view_subscriptions v) x then []
              else [Push (with_icon kEye ''Subscribe to the selected pair'') True]
          | _ \<Rightarrow> []))"

definition drawControls :: "SrnpLink \<Rightarrow> PairView \<Rightarrow> Pair list \<Rightarrow> Item list" where
  "drawControls l v ps = drawPostForm v @ drawDeleteButton v ps @ drawSubscriptionControls l v @ status_line v"

definition toggle_everything ::
    "SrnpLink \<Rightarrow> PairView \<times> 'cb Kernel \<Rightarrow> unit result \<times> SrnpLink \<times> PairView \<times> 'cb Kernel" where
  "toggle_everything l s =
     (let everything = (\<not> sl_subscribed_to_all l)
      in case setSubscribedToAll everything (l, snd s) of
           (Inl e, (l1, k1)) \<Rightarrow> (Inl e, (l1, fst s, k1))
         | (Inr _, (l1, k1)) \<Rightarrow>
             (Inr (), (l1,
                if everything then fst s
                else (fst s)\<lparr>status := ''Wildcard subscription cancelled. Per-pair toggles are now live.''\<rparr>, k1)))"

subsection \<open>A frame\<close>

datatype Frame_Shown = Banner "Item list" | Panes TreePane "Item list" "Item list"

definition draw :: "TimePoint \<Rightarrow> SrnpLink \<Rightarrow> PairView \<Rightarrow> 'cb Kernel \<Rightarrow> Frame_Shown result \<times> PairView" where
  "draw now l v k =
     (if sl_state l \<noteq> Connected then (map_sum id Banner (drawDisconnectedBanner l), v)
      else case (fst (snapshotPairs k), fst (srnp_components k), fst (getOwnerID k)) of
             (Inr ps, Inr comps, Inr us) \<Rightarrow>
               (case drawTree now us ps comps v of
                  (pane, v1) \<Rightarrow> (Inr (Panes pane (drawDetail now v1 ps) (drawControls l v1 ps)), v1))
           | (Inl e, _, _) \<Rightarrow> (Inl e, v)
           | (_, Inl e, _) \<Rightarrow> (Inl e, v)
           | (_, _, Inl e) \<Rightarrow> (Inl e, v))"

subsection \<open>Histories of the viewer\<close>

text \<open>
  What can happen in the viewer's process: the worker tries to connect, the other threads of the node run, and,
  once connected, the user works the controls. Typing, choosing and selecting change the fields of the
  view, drawing changes \<open>owner_to_open\<close>.
\<close>

datatype button = Post TimePoint | Delete Pair | Unsubscribe PairKey | Subscribe

fun press :: "button \<Rightarrow> bool \<Rightarrow> PairView \<times> 'cb Kernel \<Rightarrow> unit result \<times> PairView \<times> 'cb Kernel" where
  "press (Post now) everything = post_pressed now"
| "press (Delete p) everything = delete_confirmed p"
| "press (Unsubscribe x) everything = unsubscribe_pressed everything x"
| "press Subscribe everything = subscribe_pressed everything"

fun background :: "'cb event \<Rightarrow> bool" where
  "background (Ev_peer clock input) = True"
| "background (Ev_master input) = True"
| "background (Ev_connected sid) = True"
| "background (Ev_session sid) = True"
| "background Ev_callbacks = True"
| "background (Ev_drain sid succeeds) = True"
| "background (Ev_begin now fr) = True"
| "background (Ev_job i) = True"
| "background _ = False"

inductive viewer_reach :: "SrnpLink \<times> PairView \<times> 'cb Kernel \<Rightarrow> bool" where
  viewer_start: "viewer_reach (new_srnp_link ip prt desired, new_view, no_node)"
| viewer_connecting: "viewer_reach (l, v, k) \<Longrightarrow> sl_state l \<noteq> Connected \<Longrightarrow> viewer_reach (l\<lparr>sl_state := Connecting\<rparr>, v, k)"
| viewer_connect: "viewer_reach (l, v, k) \<Longrightarrow> handles_left k \<Longrightarrow> sl_state l \<noteq> Connected \<Longrightarrow>
    connect_round dial (l, k) = (b, (l', k')) \<Longrightarrow> viewer_reach (l', v, k')"
| viewer_background: "viewer_reach (l, v, k) \<Longrightarrow> handles_left k \<Longrightarrow> background ev \<Longrightarrow> viewer_reach (l, v, kernel_step ev k)"
| viewer_toggle: "viewer_reach (l, v, k) \<Longrightarrow> handles_left k \<Longrightarrow> sl_state l = Connected \<Longrightarrow>
    toggle_everything l (v, k) = (r, (l', v', k')) \<Longrightarrow> viewer_reach (l', v', k')"
| viewer_press: "viewer_reach (l, v, k) \<Longrightarrow> handles_left k \<Longrightarrow> sl_state l = Connected \<Longrightarrow>
    press b (sl_subscribed_to_all l) (v, k) = (r, (v', k')) \<Longrightarrow> viewer_reach (l, v', k')"
| viewer_edit: "viewer_reach (l, v, k) \<Longrightarrow> view_subscriptions v' = view_subscriptions v \<Longrightarrow>
    post_type v' < length kPostTypes \<Longrightarrow> viewer_reach (l, v', k)"

lemma ok_with_client [simp]: "ok (snd (with_client f k)) = ok k"
  by (simp add: with_client_def ok_def split: option.splits prod.splits)

lemma ok_calls [simp]:
  "ok (snd (srnp_setPair now key val ty k)) = ok k" "ok (snd (srnp_setRemotePair owner key val ty k)) = ok k"
  "ok (snd (srnp_removePair key k)) = ok k" "ok (snd (srnp_removeRemotePair owner key k)) = ok k"
  "ok (snd (srnp_registerSubscription owner key k)) = ok k" "ok (snd (srnp_cancelSubscription h k)) = ok k"
  by (simp_all add: api_defs)

lemma ok_result: "ok (snd r) = b \<Longrightarrow> r = (x, k') \<Longrightarrow> ok k' = b"
  by simp

lemma ok_subscribeToAll: "subscribeToAll (l, k) = (r, (l', k')) \<Longrightarrow> ok k' = ok k \<and> sl_state l' = sl_state l"
  by (auto simp: subscribeToAll_def ok_result [OF ok_calls(5)] split: prod.splits sum.splits)

lemma ok_press:
  assumes "press b everything (v, k) = (r, (v', k'))"
  shows "ok k' = ok k"
  using assms
  by (cases b)
    (auto simp: post_pressed_def delete_confirmed_def unsubscribe_pressed_def subscribe_pressed_def Let_def
      dest: ok_result [OF ok_calls(1)] ok_result [OF ok_calls(2)] ok_result [OF ok_calls(3)]
        ok_result [OF ok_calls(4)] ok_result [OF ok_calls(5)] ok_result [OF ok_calls(6)]
      split: prod.splits sum.splits option.splits bool.splits if_splits)

lemma ok_toggle:
  assumes "toggle_everything l (v, k) = (r, (l', v', k'))"
  shows "ok k' = ok k"
  using assms
  by (auto simp: toggle_everything_def setSubscribedToAll_def Let_def dest: ok_subscribeToAll ok_result [OF ok_calls(6)]
      split: prod.splits sum.splits if_splits)

lemma ok_background: "background ev \<Longrightarrow> ok (kernel_step ev k) = ok k"
  by (cases ev) (auto simp: on_server_def ok_def begin_call_def continue_call_def
      split: option.splits sum.splits prod.splits)

lemma connected_ok:
  assumes "connect_round dial (l, k) = (b, (l', k'))" "sl_state l' = Connected"
  shows "ok k'"
proof -
  obtain r k1 where init: "initialize (sl_master_ip l) (sl_master_port l) (sl_desired_owner_id l) dial k = (r, k1)"
    by fastforce
  have "ok k1" if "r = Inr ()"
    using init that by (auto simp: initialize_def ok_def Let_def split: if_splits sum.splits)
  then show ?thesis using assms init
    by (cases r) (auto simp: connect_round_def andThen_def Let_def dest: ok_subscribeToAll split: prod.splits sum.splits)
qed

lemma reach_press:
  "kernel_reach k \<Longrightarrow> handles_left k \<Longrightarrow> press b everything (v, k) = (r, (v', k')) \<Longrightarrow> kernel_reach k'"
  using reach_buttons [of k] by (cases b) (metis press.simps snd_conv)+

lemma reach_toggle:
  assumes "kernel_reach k" "handles_left k" "toggle_everything l (v, k) = (r, (l', v', k'))"
  shows "kernel_reach k'"
  using reach_setSubscribedToAll [OF assms(1,2), of "\<not> sl_subscribed_to_all l" l] assms(3)
  by (auto simp: toggle_everything_def Let_def split: prod.splits sum.splits)

lemma viewer_reach_inv:
  "viewer_reach s \<Longrightarrow> case s of (l, v, k) \<Rightarrow> kernel_reach k \<and> (sl_state l = Connected \<longrightarrow> ok k)"
proof (induction rule: viewer_reach.induct)
  case (viewer_start ip prt desired)
  then show ?case by (simp add: new_srnp_link_def reach_start)
next
  case (viewer_connect l v k dial b l' k')
  then show ?case using reach_connect_round [of k dial l] connected_ok by fastforce
next
  case (viewer_background l v k ev)
  then show ?case by (simp add: reach_step ok_background)
next
  case (viewer_toggle l v k r l' v' k')
  then show ?case using reach_toggle ok_toggle by fastforce
next
  case (viewer_press l v k b r v' k')
  then show ?case using reach_press ok_press by fastforce
qed simp_all

subsection \<open>What a frame shows\<close>

definition shown :: "TreePane \<Rightarrow> i32 \<Rightarrow> string \<Rightarrow> string \<Rightarrow> bool" where
  "shown pane owner key out \<longleftrightarrow>
     list_ex (\<lambda>panel. panel_owner panel = owner \<and>
       list_ex (\<lambda>row. cell_key row = key \<and> cell_value row = out) (panel_rows panel)) (tree_panels pane)"

lemma getPair_key:
  "node_inv n \<Longrightarrow> client_getPair owner key n = Some p \<Longrightarrow> getOwner p = owner \<and> getKey p = key"
  using node_invD(1) [of n]
  by (fastforce simp: client_getPair_eq ps_inv_def entries_ok_def key_of_def split: option.splits if_splits)

lemma drawOwners_panels:
  "list_ex (\<lambda>panel. panel_owner panel = owner \<and>
      list_ex (\<lambda>row. cell_key row = key \<and> cell_value row = out) (panel_rows panel)) (fst (drawOwners now us comps by_owner v)) \<longleftrightarrow>
   (\<exists>rows row. (owner, rows) \<in> set by_owner \<and> row \<in> set rows \<and> getKey (row_pair row) = key \<and>
      escapeTruncated (getValue (row_pair row)) kValueColumnChars = out)"
proof (induction now us comps by_owner v rule: drawOwners.induct)
  case (2 now us comps o1 rows1 by_owner v)
  obtain panel v1 where p: "drawOwner now us comps o1 rows1 v = (panel, v1)" by fastforce
  then have "panel_owner panel = o1" "panel_rows panel = map (table_row now v o1) rows1"
    by (auto simp: drawOwner_def)
  then show ?case using 2 [OF p [symmetric]] p
    by (auto simp: list_ex_iff table_row_def split: prod.splits)
qed simp

lemma tree_panels_drawTree:
  "tree_panels (fst (drawTree now us ps comps v)) = fst (drawOwners now us comps (m_entries (tree v us ps)) v)"
  by (simp add: drawTree_def Let_def split_beta)

lemma shown_tree:
  "shown (fst (drawTree now us ps comps v)) owner key out \<longleftrightarrow>
   (\<exists>p \<in> set ps. getOwner p = owner \<and> getKey p = key \<and> passes v p \<and>
      escapeTruncated (getValue p) kValueColumnChars = out)"
proof -
  have "shown (fst (drawTree now us ps comps v)) owner key out \<longleftrightarrow>
      (\<exists>rows row. m_find (tree v us ps) owner = Some rows \<and> row \<in> set rows \<and> getKey (row_pair row) = key \<and>
        escapeTruncated (getValue (row_pair row)) kValueColumnChars = out)"
    using drawOwners_panels [of owner key out now us comps "m_entries (tree v us ps)" v]
    by (simp add: shown_def tree_panels_drawTree smap.mem_entries_iff)
  then show ?thesis
    unfolding tree_def fold_add_row by (auto simp: Let_def filter_empty_conv)
qed

text \<open>Drawing keeps the viewer within its histories, and returns when the viewer is connected.\<close>

lemma draw_view:
  assumes "draw now l v k = (r, v')"
  shows "v' = v \<or> v' = v\<lparr>owner_to_open := None\<rparr>"
proof -
  have "snd (drawOwners now us comps by_owner v) = v \<or> snd (drawOwners now us comps by_owner v) = v\<lparr>owner_to_open := None\<rparr>"
    for us comps by_owner and v :: PairView
    by (induction now us comps by_owner v rule: drawOwners.induct) (auto simp: drawOwner_def split: prod.splits if_splits)
  then have "snd (drawTree now us ps comps v) = v \<or> snd (drawTree now us ps comps v) = v\<lparr>owner_to_open := None\<rparr>" for us ps comps
    by (simp add: drawTree_def Let_def split_beta)
  then show ?thesis using assms
    by (auto simp: draw_def split_beta split: if_splits sum.splits)
qed

lemma viewer_post_type: "viewer_reach (l, v, k) \<Longrightarrow> post_type v < length kPostTypes"
proof (induction "(l, v, k)" arbitrary: l v k rule: viewer_reach.induct)
  case (viewer_start ip prt desired)
  show ?case by (simp add: new_view_def kPostTypes_def)
next
  case (viewer_press l v k b r v' k')
  then show ?case
    by (cases b) (auto simp: post_pressed_def delete_confirmed_def unsubscribe_pressed_def subscribe_pressed_def Let_def
        split: prod.splits sum.splits option.splits bool.splits if_splits)
next
  case (viewer_toggle l v k r l' v' k')
  then show ?case by (auto simp: toggle_everything_def Let_def split: prod.splits sum.splits if_splits)
qed simp_all

lemma frame_reach: "viewer_reach (l, v, k) \<Longrightarrow> draw now l v k = (r, v') \<Longrightarrow> viewer_reach (l, v', k)"
  using draw_view viewer_post_type [of l v k] by (metis PairView.select_convs(8,10) PairView.surjective
      PairView.update_convs(2) viewer_edit)

lemma frame_returns:
  assumes "viewer_reach (l, v, k)" "sl_state l = Connected"
  shows "\<exists>pic v'. draw now l v k = (Inr pic, v')"
proof -
  obtain srv where srv: "running k = Some srv" using viewer_reach_inv [OF assms(1)] assms(2) by (auto simp: ok_def)
  then show ?thesis using assms(2)
    by (simp add: draw_def snapshotPairs_def srnp_components_def getOwnerID_def with_client_reading [OF srv] split_beta)
qed

text \<open>
  A control that a frame shows disabled, or does not show, would change nothing: the operation behind it checks what the
  frame checked.
\<close>

lemma disabled_controls_inert:
  "Push (glyph kSend) False \<in> set (drawPostForm v) \<Longrightarrow> post_pressed now (v, k) = (Inr (), (v, k))"
  "Push (with_icon kEye ''Subscribe to the selected pair'') True \<notin> set (drawSubscriptionControls l v) \<Longrightarrow>
     subscribe_pressed (sl_subscribed_to_all l) (v, k) = (Inr (), (v, k))"
  "sl_subscribed_to_all l \<Longrightarrow> unsubscribe_pressed (sl_subscribed_to_all l) x (v, k) = (Inr (), (v, k))"
  by (auto simp: drawPostForm_def post_pressed_def drawSubscriptionControls_def subscribe_pressed_def unsubscribe_pressed_def
      heading_def Let_def split: option.splits if_splits bool.splits) (metis option.distinct(1))

subsection \<open>The banner returns\<close>

lemma count_list_take_le: "count_list (take d xs) x \<le> count_list xs x"
  by (metis append_take_drop_id count_list_append le_add1)

lemma briefError_bracketed:
  assumes "count_list a (CHR ''('') = 0" "count_list a (CHR '')'') = 0" "count_list t (CHR '')'') = 0"
  shows "\<exists>brief. briefError (a @ CHR ''('' # t @ '')'') = Inr brief"
proof (cases "find_detail (a @ CHR ''('' # t @ '')'')")
  case (Some d)
  let ?msg = "a @ CHR ''('' # t @ '')''"
  have "count_list (take d ?msg) (CHR '')'') \<le> count_list (take d ?msg) (CHR ''('')"
  proof (cases "d \<le> length a")
    case True
    then show ?thesis using count_list_take_le [of d a "CHR '')''"] assms(2) by simp
  next
    case False
    then obtain n where "d = length a + Suc n" by (metis less_imp_Suc_add linorder_not_le add_Suc_right)
    then have "take d ?msg = a @ CHR ''('' # take n (t @ '')'')" by simp
    then have "1 \<le> count_list (take d ?msg) (CHR ''('')" by (simp add: count_list_append)
    moreover have "count_list (take d ?msg) (CHR '')'') \<le> 1"
      using count_list_take_le [of d ?msg "CHR '')''"] assms(2,3) by (simp add: count_list_append)
    ultimately show ?thesis by linarith
  qed
  then show ?thesis by (simp add: briefError_def Some Let_def)
qed (simp add: briefError_def)

text \<open>
  After an attempt that could not reach the master the banner returns, provided the address and the text of
  the error contain no closing bracket of their own.
\<close>

lemma banner_after_failure:
  assumes "\<not> ok k" "connect_round (Inl e) (l, k) = (b, (l', k'))"
    and "count_list (link_address l) (CHR ''('') = 0" "count_list (link_address l) (CHR '')'') = 0"
    and "count_list (what e) (CHR '')'') = 0"
  shows "sl_state l' = Disconnected" "\<exists>items. drawDisconnectedBanner l' = Inr items"
proof -
  let ?msg = "(''could not reach the master at '' @ link_address l @ '' '') @ CHR ''('' # what e @ '')''"
  have l': "l' = l\<lparr>sl_state := Disconnected, sl_last_error := ?msg\<rparr>"
    using assms(1,2) by (auto simp: connect_round_def initialize_def andThen_def link_address_def Let_def)
  then show "sl_state l' = Disconnected" by simp
  obtain brief where "briefError ?msg = Inr brief"
    using briefError_bracketed [of "''could not reach the master at '' @ link_address l @ '' ''" "what e"] assms(3-5)
    by (auto simp: count_list_append)
  then show "\<exists>items. drawDisconnectedBanner l' = Inr items"
    by (simp add: drawDisconnectedBanner_def l' Let_def)
qed

subsection \<open>Properties\<close>



end
