(* ===== verification/Theme.thy ===== *)
theory Theme
  imports Complex_Main Window
begin

text \<open>
  \<^verbatim>\<open>gui/theme.h\<close> and \<^verbatim>\<open>gui/theme.cpp\<close>: where the viewer finds its fonts, what it falls back to, and the sizes and
  colours it hands to Dear ImGui. The icons are in theory \<open>Window\<close>.

  Third-party code is a parameter: \<open>found\<close> is \<^verbatim>\<open>std::filesystem::exists\<close>, \<open>load\<close> is what the font atlas makes of a file (\<open>None\<close>
  is the null pointer), \<open>dark\<close> is \<^verbatim>\<open>StyleColorsDark\<close>, \<open>assign\<close> stores the values of the assignments in the style, which is
  opaque here, and \<open>scale_all\<close> is \<^verbatim>\<open>ScaleAllSizes\<close>. The two directories are macros of the build. Exact rational numbers stand for the \<^verbatim>\<open>float\<close>s, whose rounding only moves a pixel.

  Shown: the fonts come from the first directory that has the body face; a note is written exactly when the built-in
  font is used; every colour is a colour; every
  icon is in the range of glyphs that is loaded; and the corners do not all have the same radius.
\<close>

subsection \<open>Fonts\<close>

definition kBodySize :: rat where "kBodySize = 21"

definition kHeadingSize :: rat where "kHeadingSize = 24"

definition kIconSize :: rat where "kIconSize = 18"

definition kIconRange :: "nat \<times> nat" where "kIconRange = (0xF000, 0xF2FF)"

record 'font Fonts =
  fonts_body :: "'font option"
  fonts_heading :: "'font option"

text \<open>A face in the atlas: the file, its size, and whether it was merged into the one before.\<close>

record Face =
  face_file :: string
  face_size :: rat
  face_merged :: bool

definition in_dir :: "string \<Rightarrow> string \<Rightarrow> string" where
  "in_dir dir file = dir @ ''/'' @ file"

definition findFontDir :: "(string \<Rightarrow> bool) \<Rightarrow> string list \<Rightarrow> string option" where
  "findFontDir found kFontDirs = List.find (\<lambda>dir. found (in_dir dir ''IBMPlexSans-Regular.ttf'')) kFontDirs"

definition loadFace ::
    "(string \<Rightarrow> 'font option) \<Rightarrow> string \<Rightarrow> string \<Rightarrow> rat \<Rightarrow> rat \<Rightarrow> Face list \<Rightarrow> 'font option \<times> Face list" where
  "loadFace load dir file sz icon_size atlas =
     (case load (in_dir dir file) of
        None \<Rightarrow> (None, atlas)
      | Some font \<Rightarrow>
          (Some font, atlas @ [\<lparr>face_file = in_dir dir file, face_size = sz, face_merged = False\<rparr>] @
             (case load (in_dir dir ''fa-solid-900.ttf'') of
                None \<Rightarrow> []
              | Some _ \<Rightarrow> [\<lparr>face_file = in_dir dir ''fa-solid-900.ttf'', face_size = icon_size, face_merged = True\<rparr>])))"

definition no_fonts :: "'font Fonts" where
  "no_fonts = \<lparr>fonts_body = None, fonts_heading = None\<rparr>"

definition loadFonts ::
    "(string \<Rightarrow> bool) \<Rightarrow> (string \<Rightarrow> 'font option) \<Rightarrow> string \<Rightarrow> string \<Rightarrow> rat \<Rightarrow> Face list \<Rightarrow>
       'font Fonts \<times> string list \<times> Face list" where
  "loadFonts found load installed source scale atlas =
     (case findFontDir found [installed, source] of
        None \<Rightarrow>
          (no_fonts, [''could not find the shipped fonts in '' @ installed @ '' or '' @ source @
             ''; falling back to the built-in one'' @ [CHR 0x0A]], atlas)
      | Some dir \<Rightarrow>
          (case loadFace load dir ''IBMPlexSans-Regular.ttf'' (kBodySize * scale) (kIconSize * scale) atlas of
             (body, atlas1) \<Rightarrow>
               (case loadFace load dir ''IBMPlexSans-SemiBold.ttf'' (kHeadingSize * scale) (kIconSize * scale) atlas1 of
                  (head, atlas2) \<Rightarrow>
                    if body = None
                    then (no_fonts, [''the fonts in '' @ dir @ '' could not be read; falling back'' @ [CHR 0x0A]], atlas2)
                    else (\<lparr>fonts_body = body, fonts_heading = head\<rparr>, [], atlas2))))"

subsection \<open>The style\<close>

datatype ImGuiCol =
    WindowBg | ChildBg | PopupBg | Border | FrameBg | FrameBgHovered | FrameBgActive | Button | ButtonHovered
  | ButtonActive | Header | HeaderHovered | HeaderActive | CheckMark | SliderGrab | Separator | TableHeaderBg
  | TableBorderLight | TableRowBgAlt | Text | TextDisabled

type_synonym ImVec4 = "rat \<times> rat \<times> rat \<times> rat"

text \<open>The members of the style that the code assigns, and the colours it sets.\<close>

record StyleSettings =
  WindowRounding :: rat
  ChildRounding :: rat
  PopupRounding :: rat
  FrameRounding :: rat
  GrabRounding :: rat
  ScrollbarRounding :: rat
  TabRounding :: rat
  WindowBorderSize :: rat
  ChildBorderSize :: rat
  FrameBorderSize :: rat
  PopupBorderSize :: rat
  WindowPadding :: "rat \<times> rat"
  FramePadding :: "rat \<times> rat"
  CellPadding :: "rat \<times> rat"
  ItemSpacing :: "rat \<times> rat"
  ItemInnerSpacing :: "rat \<times> rat"
  IndentSpacing :: rat
  ScrollbarSize :: rat
  GrabMinSize :: rat
  SeparatorTextBorderSize :: rat
  SeparatorTextPadding :: "rat \<times> rat"
  Colors :: "ImGuiCol \<Rightarrow> ImVec4"

definition rgba :: "int \<Rightarrow> int \<Rightarrow> int \<Rightarrow> rat \<Rightarrow> ImVec4" where
  "rgba r g b alpha = (of_int r / 255, of_int g / 255, of_int b / 255, alpha)"

definition rgb :: "int \<Rightarrow> int \<Rightarrow> int \<Rightarrow> ImVec4" where
  "rgb r g b = rgba r g b 1"

fun palette :: "ImGuiCol \<Rightarrow> ImVec4" where
  "palette WindowBg = rgb 24 26 31"
| "palette ChildBg = rgb 29 32 38"
| "palette PopupBg = rgb 32 35 42"
| "palette Border = rgb 52 57 67"
| "palette FrameBg = rgb 38 42 50"
| "palette FrameBgHovered = rgb 48 53 63"
| "palette FrameBgActive = rgb 56 62 74"
| "palette Button = rgb 52 90 140"
| "palette ButtonHovered = rgb 64 110 170"
| "palette ButtonActive = rgb 44 78 122"
| "palette Header = rgba 52 90 140 (65 / 100)"
| "palette HeaderHovered = rgba 64 110 170 (75 / 100)"
| "palette HeaderActive = rgb 64 110 170"
| "palette CheckMark = rgb 120 190 255"
| "palette SliderGrab = rgb 64 110 170"
| "palette Separator = rgb 52 57 67"
| "palette TableHeaderBg = rgb 38 42 50"
| "palette TableBorderLight = rgb 44 48 57"
| "palette TableRowBgAlt = rgb 31 34 41"
| "palette Text = rgb 226 230 238"
| "palette TextDisabled = rgb 126 134 148"

definition kStyle :: StyleSettings where
  "kStyle =
     \<lparr>WindowRounding = 10, ChildRounding = 10, PopupRounding = 10, FrameRounding = 8, GrabRounding = 8,
      ScrollbarRounding = 10, TabRounding = 8,
      WindowBorderSize = 0, ChildBorderSize = 1, FrameBorderSize = 1, PopupBorderSize = 1,
      WindowPadding = (16, 14), FramePadding = (12, 7), CellPadding = (10, 6), ItemSpacing = (10, 9),
      ItemInnerSpacing = (8, 6), IndentSpacing = 22, ScrollbarSize = 13, GrabMinSize = 12,
      SeparatorTextBorderSize = 2, SeparatorTextPadding = (20, 6),
      Colors = palette\<rparr>"

definition applyStyle ::
    "('style \<Rightarrow> 'style) \<Rightarrow> (StyleSettings \<Rightarrow> 'style \<Rightarrow> 'style) \<Rightarrow> (rat \<Rightarrow> 'style \<Rightarrow> 'style) \<Rightarrow> rat \<Rightarrow> 'style \<Rightarrow> 'style" where
  "applyStyle dark assign scale_all scale style = scale_all scale (assign kStyle (dark style))"

subsection \<open>Lemmas\<close>

text \<open>The fonts come from one directory, the first of the two that has the body face.\<close>

lemma findFontDir_first:
  "findFontDir found [installed, source] =
     (if found (in_dir installed ''IBMPlexSans-Regular.ttf'') then Some installed
      else if found (in_dir source ''IBMPlexSans-Regular.ttf'') then Some source else None)"
  by (simp add: findFontDir_def)

text \<open>
  A note is written exactly when the built-in font is used, and then there is no heading face either; the atlas only
  grows, and every face that is merged is the icons.
\<close>

lemma loadFonts_note:
  assumes "loadFonts found load installed source scale atlas = (fonts, notes, atlas')"
  shows "notes = [] \<longleftrightarrow> fonts_body fonts \<noteq> None" "fonts_body fonts = None \<Longrightarrow> fonts_heading fonts = None"
    "\<exists>new. atlas' = atlas @ new"
  using assms
  by (auto simp: loadFonts_def loadFace_def no_fonts_def split: option.splits prod.splits if_splits)

lemma loadFonts_from_first:
  assumes "found (in_dir installed ''IBMPlexSans-Regular.ttf'')" "load (in_dir installed ''IBMPlexSans-Regular.ttf'') = Some f"
  shows "\<exists>head new. loadFonts found load installed source scale atlas =
    (\<lparr>fonts_body = Some f, fonts_heading = head\<rparr>, [], atlas @ new)"
  using assms by (auto simp: loadFonts_def findFontDir_first loadFace_def split: option.splits)

definition is_colour :: "ImVec4 \<Rightarrow> bool" where
  "is_colour v \<longleftrightarrow> (case v of (r, g, b, a) \<Rightarrow> list_all (\<lambda>x. 0 \<le> x \<and> x \<le> 1) [r, g, b, a])"

lemma palette_colours: "is_colour (palette c)"
  by (cases c) (simp_all add: is_colour_def rgb_def rgba_def)

text \<open>
  The comment on the radii says that everything with a corner gets the same one. There are two: ten for windows and
  scrollbars, eight for frames, grabs and tabs.
\<close>

lemma two_radii: "WindowRounding kStyle \<noteq> FrameRounding kStyle"
  by (simp add: kStyle_def)

text \<open>Only the glyphs in a range are rasterised; every icon of the viewer is one of them.\<close>

fun code_point :: "string \<Rightarrow> nat" where
  "code_point [a, b, c] = (of_char a - 0xE0) * 4096 + (of_char b - 0x80) * 64 + (of_char c - 0x80)"
| "code_point _ = 0"

lemma icons_rasterised: "fst kIconRange \<le> code_point (glyph i) \<and> code_point (glyph i) \<le> snd kIconRange"
  by (cases i) (simp_all add: kIconRange_def)

end
