(* ===== verification/Logging.thy ===== *)
theory Logging
  imports Kernel Calendar
begin

text \<open>
  \<^verbatim>\<open>include/srnp/srnp_print.h\<close> and \<^verbatim>\<open>src/srnp_print.cpp\<close>: the log level and what a log statement prints;
  and \<^verbatim>\<open>printPairSpace\<close> of the pair space, the server and the kernel.

  The state is \<^verbatim>\<open>g_level\<close> and what was written so far, each piece with its stream. \<open>now\<close> is \<^verbatim>\<open>system_clock::now()\<close>; a
  source location is a path and a line.

  Shown: the level is set by its seven names in any case and by nothing else; a statement prints one line
  exactly when its level is at least the one set; warnings and worse go to the error stream with their
  location; the pair space prints one line for every entry, placeholders included, and needs a live node.
\<close>

subsection \<open>Levels\<close>

datatype LogLevel = Trace | Debug | Info | Warning | Error | Fatal | Off

fun level_rank :: "LogLevel \<Rightarrow> nat" where
  "level_rank Trace = 0"
| "level_rank Debug = 1"
| "level_rank Info = 2"
| "level_rank Warning = 3"
| "level_rank Error = 4"
| "level_rank Fatal = 5"
| "level_rank Off = 6"

lemma level_rank_inject [simp]: "level_rank a = level_rank b \<longleftrightarrow> a = b"
  by (cases a; cases b) simp_all

instantiation LogLevel :: linorder
begin

definition less_eq_LogLevel :: "LogLevel \<Rightarrow> LogLevel \<Rightarrow> bool" where
  "less_eq_LogLevel a b \<longleftrightarrow> level_rank a \<le> level_rank b"

definition less_LogLevel :: "LogLevel \<Rightarrow> LogLevel \<Rightarrow> bool" where
  "less_LogLevel a b \<longleftrightarrow> level_rank a < level_rank b"

instance
  by standard (auto simp: less_eq_LogLevel_def less_LogLevel_def)

end

definition kLevelNames :: "(string \<times> LogLevel) list" where
  "kLevelNames = [(''trace'', Trace), (''debug'', Debug), (''info'', Info), (''warning'', Warning),
     (''error'', Error), (''fatal'', Fatal), (''off'', Off)]"

definition nameOfLevel :: "LogLevel \<Rightarrow> string" where
  "nameOfLevel level = (case List.find (\<lambda>(name, v). v = level) kLevelNames of None \<Rightarrow> ''?'' | Some (name, _) \<Rightarrow> name)"

subsection \<open>Printing\<close>

datatype Stream = Stdout | Stderr

record Log =
  g_level :: LogLevel
  printed :: "(Stream \<times> string) list"

definition srnp_print_setup :: "string \<Rightarrow> Log \<Rightarrow> bool \<times> Log" where
  "srnp_print_setup level log =
     (case List.find (\<lambda>(name, _). name = map to_lower level) kLevelNames of
        None \<Rightarrow> (False, log)
      | Some (_, v) \<Rightarrow> (True, log\<lparr>g_level := v\<rparr>))"

definition filename :: "string \<Rightarrow> string" where
  "filename path = rev (takeWhile (\<lambda>c. c \<noteq> CHR ''/'') (rev path))"

definition logLine :: "TimePoint \<Rightarrow> LogLevel \<Rightarrow> string \<Rightarrow> string \<times> nat \<Rightarrow> Log \<Rightarrow> Log" where
  "logLine now level message loc log =
     (let line = ''['' @ format_clock_ms (sint now div ns_per_ms) @ ''] ('' @ nameOfLevel level @ ''): '' @ message;
          line = line @ (if level \<ge> Warning then '' ['' @ filename (fst loc) @ '':'' @ show_nat (snd loc) @ '']'' else []);
          line = line @ [CHR 0x0A]
      in log\<lparr>printed := printed log @ [(if level \<ge> Warning then Stderr else Stdout, line)]\<rparr>)"

definition logAt :: "TimePoint \<Rightarrow> LogLevel \<Rightarrow> string \<times> nat \<Rightarrow> string \<Rightarrow> Log \<Rightarrow> Log" where
  "logAt now level loc message log =
     (if level < g_level log then log else logLine now level message loc log)"

subsection \<open>Printing the pair space\<close>

definition newline :: string where "newline = [CHR 0x0A]"

definition printPairSpace :: "'cb PairSpace \<Rightarrow> Log \<Rightarrow> Log" where
  "printPairSpace s log =
     (let title = ''--- all pairs ('' @ show_nat (length (getAllPairs s)) @ '') ---'' @ newline;
          rows = map (\<lambda>(k, e). ''  '' @ toString (pe_pair e) @ newline) (getAllPairs s);
          foot = ''---'' @ newline
      in log\<lparr>printed := printed log @ map (Pair Stdout) ([title] @ rows @ [foot])\<rparr>)"

definition server_printPairSpace :: "'cb Server \<Rightarrow> Log \<Rightarrow> Log" where
  "server_printPairSpace srv = printPairSpace (node_space (srv_node srv))"

definition srnp_printPairSpace :: "'cb Kernel \<Rightarrow> Log \<Rightarrow> unit result \<times> Log" where
  "srnp_printPairSpace k log =
     (case running k of
        None \<Rightarrow> (Inl (InitError ''no SRNP node is running. Call initialize() first''), log)
      | Some srv \<Rightarrow> (Inr (), server_printPairSpace srv log))"

subsection \<open>Lemmas\<close>

lemma level_names_distinct: "distinct (map fst kLevelNames)" "distinct (map snd kLevelNames)"
  by (simp_all add: kLevelNames_def)

lemma find_by_name: "List.find (\<lambda>(name, _). name = s) xs = map_option (Pair s) (map_of xs s)"
  by (induction xs) auto

lemmas find_level = find_by_name [of _ kLevelNames] map_of_eq_Some_iff [OF level_names_distinct(1)] map_of_eq_None_iff

lemma nameOfLevel_mem: "(nameOfLevel level, level) \<in> set kLevelNames"
  by (cases level) (simp_all add: nameOfLevel_def kLevelNames_def)

lemma printed_logLine: "\<exists>s. printed (logLine now level message loc log) = printed log @ [(if level \<ge> Warning then Stderr else Stdout, s)]"
  by (simp add: logLine_def Let_def)

lemma g_level_logLine [simp]: "g_level (logLine now level message loc log) = g_level log"
  by (simp add: logLine_def Let_def)

text \<open>
  A level is set by its name in any mixture of cases and by no other text, which leaves it as it was; and the
  name that a line prints for a level sets that level.
\<close>

lemma level_name_iff: "(s, v) \<in> set kLevelNames \<longleftrightarrow> s = nameOfLevel v"
  by (cases v) (simp_all add: nameOfLevel_def kLevelNames_def)

lemma print_setup_by_name:
  "map to_lower s = nameOfLevel v \<Longrightarrow> srnp_print_setup s log = (True, log\<lparr>g_level := v\<rparr>)"
  "\<forall>v. map to_lower s \<noteq> nameOfLevel v \<Longrightarrow> srnp_print_setup s log = (False, log)"
proof -
  assume "map to_lower s = nameOfLevel v"
  then have "map_of kLevelNames (map to_lower s) = Some v"
    by (simp add: find_level level_name_iff)
  then show "srnp_print_setup s log = (True, log\<lparr>g_level := v\<rparr>)"
    by (simp add: srnp_print_setup_def find_level(1))
next
  assume "\<forall>v. map to_lower s \<noteq> nameOfLevel v"
  then have "map to_lower s \<notin> fst ` set kLevelNames"
    by (force simp: level_name_iff)
  then have "map_of kLevelNames (map to_lower s) = None"
    by (simp add: map_of_eq_None_iff)
  then show "srnp_print_setup s log = (False, log)"
    by (simp add: srnp_print_setup_def find_level(1))
qed

text \<open>At level \<open>Off\<close> no statement of the sources prints, since none has that level; at \<open>Trace\<close> all of them do.\<close>

lemma logAt_off: "g_level log = Off \<Longrightarrow> level \<noteq> Off \<Longrightarrow> logAt now level loc message log = log"
  by (cases level) (simp_all add: logAt_def less_LogLevel_def)

lemma logAt_trace: "g_level log = Trace \<Longrightarrow> logAt now level loc message log = logLine now level message loc log"
  by (cases level) (simp_all add: logAt_def less_LogLevel_def)

text \<open>
  A statement prints exactly one line when its level is at least the one set and nothing otherwise; the line
  goes to the error stream exactly from \<open>Warning\<close> on, and printing never changes the level.
\<close>

lemma logAt_effect:
  "g_level (logAt now level loc message log) = g_level log"
  "level < g_level log \<Longrightarrow> printed (logAt now level loc message log) = printed log"
  "g_level log \<le> level \<Longrightarrow> \<exists>line. printed (logAt now level loc message log) =
     printed log @ [(if level \<ge> Warning then Stderr else Stdout, line)]"
  using printed_logLine by (auto simp: logAt_def not_less)

lemma filename_bare: "CHR ''/'' \<notin> set (filename path)"
  by (auto simp: filename_def dest: set_takeWhileD)

lemma filename_of_path:
  assumes "CHR ''/'' \<notin> set name"
  shows "filename (dir @ CHR ''/'' # name) = name"
proof -
  have "takeWhile (\<lambda>c. c \<noteq> CHR ''/'') (rev name @ CHR ''/'' # rev dir) = rev name"
    using assms by (subst takeWhile_append2) auto
  then show ?thesis by (simp add: filename_def)
qed

text \<open>Printing needs a live node like every other call, writes a line for every entry between two others, and changes no level.\<close>

lemma srnp_printPairSpace_outcome:
  "\<not> ok k \<Longrightarrow> srnp_printPairSpace k log = (Inl (InitError ''no SRNP node is running. Call initialize() first''), log)"
  "running k = Some srv \<Longrightarrow> fst (srnp_printPairSpace k log) = Inr () \<and>
     g_level (snd (srnp_printPairSpace k log)) = g_level log \<and>
     length (printed (snd (srnp_printPairSpace k log))) =
       length (printed log) + length (getAllPairs (node_space (srv_node srv))) + 2"
  by (simp_all add: srnp_printPairSpace_def server_printPairSpace_def printPairSpace_def ok_def Let_def)

end
