(* ===== verification/Programs.thy ===== *)
theory Programs
  imports Theme Logging Master_Hub
begin

text \<open>
  The two programs: the master, \<^verbatim>\<open>src/master_main.cpp\<close>, and the viewer, \<^verbatim>\<open>gui/main.cpp\<close>, from their arguments to their
  exit code.

  What the environment decides is an argument: the environment variables, the outcome of binding the port and
  of running the event loop, whether GLFW starts and a window opens, and what happens between two frames
  (the other threads, the user). An exception that leaves \<^verbatim>\<open>main\<close> terminates the program, \<open>Terminated\<close>. A run of the viewer is
  the list of its \<open>Act\<close>s: resources acquired and released, text printed, frames shown.

  Shown: the port the master takes from a number wraps at 16 bits, and the line it prints names the port it is bound to;
  however the viewer exits, it has released what it acquired, last first, the node before the window.
\<close>

subsection \<open>The master's configuration\<close>

text \<open>\<^verbatim>\<open>std::atoi\<close>: blanks, a sign, digits. A number that does not fit an \<^verbatim>\<open>int\<close> has no defined result.\<close>

definition is_space :: "char \<Rightarrow> bool" where
  "is_space c \<longleftrightarrow> c = CHR '' '' \<or> 9 \<le> (of_char c :: nat) \<and> (of_char c :: nat) \<le> 13"

definition atoi :: "string \<Rightarrow> int option" where
  "atoi s =
     (let body = dropWhile is_space s;
          neg = (body \<noteq> [] \<and> hd body = CHR ''-'');
          signed = (body \<noteq> [] \<and> (hd body = CHR ''-'' \<or> hd body = CHR ''+''));
          n = int (digits_val (takeWhile is_digit (if signed then tl body else body)));
          k = (if neg then - n else n)
      in if k < INT_MIN \<or> INT_MAX < k then None else Some k)"

definition to_port :: "string \<Rightarrow> 16 word option" where
  "to_port s = map_option word_of_int (atoi s)"

definition master_port :: "(string \<Rightarrow> string option) \<Rightarrow> string list \<Rightarrow> 16 word option" where
  "master_port getenv argv =
     (let from_env = (case getenv ''SRNP_MASTER_PORT'' of None \<Rightarrow> Some 12321 | Some s \<Rightarrow> to_port s)
      in Option.bind from_env (\<lambda>p. case argv of _ # arg # _ \<Rightarrow> to_port arg | _ \<Rightarrow> Some p))"

definition master_log :: "(string \<Rightarrow> string option) \<Rightarrow> Log \<Rightarrow> Log" where
  "master_log getenv out =
     snd (srnp_print_setup (case getenv ''SRNP_LOG_LEVEL'' of None \<Rightarrow> ''info'' | Some level \<Rightarrow> level) out)"

text \<open>
  The program. A signal stops the event loop, so that \<open>looped\<close> is then \<^term>\<open>Inr ()\<close>. The constructor of the hub logs before the
  program prints its line.
\<close>

definition master_main ::
    "(string \<Rightarrow> string option) \<Rightarrow> string list \<Rightarrow> (16 word \<Rightarrow> 16 word result) \<Rightarrow> unit result \<Rightarrow> TimePoint \<Rightarrow> Log \<Rightarrow>
       (nat \<times> Log) option" where
  "master_main getenv argv bind_port looped now out =
     map_option (\<lambda>prt.
       let out = master_log getenv out;
           fatal = (\<lambda>e. logAt now Fatal (''master_main.cpp'', 50) (''master could not start: '' @ what e))
       in case bind_port prt of
            Inl e \<Rightarrow> (1, fatal e out)
          | Inr bound \<Rightarrow>
              let out = logAt now Info (''master_hub.cpp'', 99) (''master listening on port '' @ show_nat (unat bound)) out;
                  out = out\<lparr>printed := printed out @
                    [(Stdout, ''SRNP master ready on port '' @ show_nat (unat bound) @ newline)]\<rparr>
              in case looped of Inl e \<Rightarrow> (1, fatal e out) | Inr _ \<Rightarrow> (0, out))
     (master_port getenv argv)"

subsection \<open>The viewer's options\<close>

record Options =
  opt_master_ip :: string
  opt_master_port :: string
  opt_owner_id :: i32

definition usage :: string where
  "usage =
     ''pairview - a viewer and editor for the srnp pair space'' @ newline @ newline @
     ''Usage: pairview [--master-ip IP] [--master-port PORT] [--owner-id N]'' @ newline @ newline @
     ''The master's address defaults to SRNP_MASTER_IP and SRNP_MASTER_PORT,'' @ newline @
     ''then to 127.0.0.1:12321.'' @ newline"

definition quoted :: "string \<Rightarrow> string" where
  "quoted s = [CHR 0x22] @ s @ [CHR 0x22]"

function parse_options :: "string list \<Rightarrow> Options \<Rightarrow> Options option \<times> (Stream \<times> string) list" where
  "parse_options [] options = (Some options, [])"
| "parse_options (argument # args) options =
     (if argument = ''--help'' \<or> argument = ''-h'' then (None, [(Stdout, usage)])
      else case args of
             [] \<Rightarrow> (None, [(Stderr, argument @ '' needs a value after it'' @ newline)])
           | val # rest \<Rightarrow>
               if argument = ''--master-ip'' then parse_options rest (options\<lparr>opt_master_ip := val\<rparr>)
               else if argument = ''--master-port'' then parse_options rest (options\<lparr>opt_master_port := val\<rparr>)
               else if argument = ''--owner-id''
               then (case from_chars_ptr val (opt_owner_id options) of
                       (v, left_over) \<Rightarrow>
                         if left_over \<noteq> []
                         then (None, [(Stderr, ''--owner-id got '' @ quoted val @ '', which is not a number'' @ newline)])
                         else parse_options rest (options\<lparr>opt_owner_id := v\<rparr>))
               else (None, [(Stderr, ''unknown argument '' @ argument @ newline), (Stdout, usage)]))"
  by pat_completeness auto

termination
  by (relation "measure (\<lambda>(args, options). length args)") auto

definition parseArguments ::
    "(string \<Rightarrow> string option) \<Rightarrow> string list \<Rightarrow> Options option \<times> (Stream \<times> string) list" where
  "parseArguments getenv argv =
     parse_options (tl argv)
       \<lparr>opt_master_ip = (case getenv ''SRNP_MASTER_IP'' of None \<Rightarrow> ''127.0.0.1'' | Some ip \<Rightarrow> ip),
        opt_master_port = (case getenv ''SRNP_MASTER_PORT'' of None \<Rightarrow> ''12321'' | Some prt \<Rightarrow> prt),
        opt_owner_id = kAnyOwner\<rparr>"

subsection \<open>The viewer\<close>

datatype Resource = Glfw | Gui_Window | Gui_Context | Glfw_Backend | GL_Backend | Link

datatype Act = Acquire Resource | Release Resource | Said Stream string | Shown Frame_Shown

datatype exit_status = Exit nat | Terminated error

record 'font Display =
  glfw_starts :: bool
  window_opens :: bool
  content_scale :: rat
  font_found :: "string \<Rightarrow> bool"
  font_load :: "string \<Rightarrow> 'font option"
  font_dirs :: "string \<times> string"

type_synonym 'cb viewer = "SrnpLink \<times> PairView \<times> 'cb Kernel"

text \<open>The loop over the frames; \<open>world\<close> is everything that happened since the last one.\<close>

fun frame_loop :: "(('cb viewer \<Rightarrow> 'cb viewer) \<times> TimePoint) list \<Rightarrow> 'cb viewer \<Rightarrow> Act list \<times> error option \<times> 'cb viewer" where
  "frame_loop [] s = ([], None, s)"
| "frame_loop ((world, now) # frames) s =
     (case world s of
        (l, v, k) \<Rightarrow>
          (case draw now l v k of
             (Inl e, v1) \<Rightarrow> ([], Some e, (l, v1, k))
           | (Inr pic, v1) \<Rightarrow>
               (case frame_loop frames (l, v1, k) of (acts, result) \<Rightarrow> (Shown pic # acts, result))))"

definition scale_of :: "'font Display \<Rightarrow> rat" where
  "scale_of display = (if content_scale display \<le> 0 then 1 else content_scale display)"

definition viewer_main ::
    "(string \<Rightarrow> string option) \<Rightarrow> string list \<Rightarrow> 'font Display \<Rightarrow> (('cb viewer \<Rightarrow> 'cb viewer) \<times> TimePoint) list \<Rightarrow>
       exit_status \<times> Act list \<times> 'cb Kernel" where
  "viewer_main getenv argv display frames =
     (case parseArguments getenv argv of
        (None, said) \<Rightarrow> (Exit 1, map (\<lambda>(dest, s). Said dest s) said, no_node)
      | (Some options, said) \<Rightarrow>
          if \<not> glfw_starts display
          then (Exit 1, [Said Stderr (''could not start GLFW. Is there a display?'' @ newline)], no_node)
          else if \<not> window_opens display
          then (Exit 1, [Acquire Glfw, Said Stderr (''could not open a window'' @ newline), Release Glfw], no_node)
          else case loadFonts (font_found display) (font_load display) (fst (font_dirs display)) (snd (font_dirs display))
                      (scale_of display) [] of
                 (fonts, notes, atlas) \<Rightarrow>
                   let setup = [Acquire Glfw, Acquire Gui_Window, Acquire Gui_Context] @ map (Said Stderr) notes @
                         [Acquire Glfw_Backend, Acquire GL_Backend, Acquire Link];
                       l = new_srnp_link (opt_master_ip options) (opt_master_port options) (opt_owner_id options)
                   in case frame_loop frames (l, new_view, no_node) of
                        (acts, Some e, (l, v, k)) \<Rightarrow> (Terminated e, setup @ acts, k)
                      | (acts, None, (l, v, k)) \<Rightarrow>
                          (Exit 0, setup @ acts @ map Release [Link, GL_Backend, Glfw_Backend, Gui_Context, Gui_Window, Glfw],
                           destroy_link (l, k)))"

subsection \<open>Lemmas\<close>

text \<open>
  A number in the range of a port is the port; any larger one is taken modulo \<open>2\<^sup>1\<^sup>6\<close>, so \<open>65536\<close> asks for a
  port of the system's choice.
\<close>

lemma to_port_of_number:
  assumes "int n \<le> INT_MAX"
  shows "\<exists>p. to_port (show_nat n) = Some p \<and> unat p = n mod 2 ^ 16"
proof -
  obtain c cs where n: "show_nat n = c # cs" by (cases "show_nat n") auto
  then have c: "is_digit c" and cs: "takeWhile is_digit (c # cs) = c # cs"
    using show_nat_digits [of n] by (auto simp: list.pred_set takeWhile_eq_all_conv)
  have "digits_val (c # cs) = n" using digits_val_show_nat [of n] n by simp
  moreover have "\<not> is_space c" "c \<noteq> CHR ''-''" "c \<noteq> CHR ''+''"
    using c by (auto simp: is_digit_def is_space_def)
  ultimately have "atoi (show_nat n) = Some (int n)"
    using cs assms by (simp add: atoi_def n Let_def INT_MIN_def)
  then show ?thesis by (simp add: to_port_def unat_of_nat)
qed

text \<open>
  A master that was started, stopped and had no trouble in between exits with 0, and the last line it printed
  names the port it is bound to, so that a caller that asked for port 0 can read it back; a port that cannot be
  bound gives the exit code 1 and no such line.
\<close>

lemma master_main_outcome:
  assumes "master_port getenv argv = Some prt"
  shows "bind_port prt = Inr bound \<Longrightarrow> \<exists>out'. master_main getenv argv bind_port (Inr ()) now out = Some (0, out') \<and>
      last (printed out') = (Stdout, ''SRNP master ready on port '' @ show_nat (unat bound) @ newline) \<and>
      from_chars (show_nat (unat bound) @ newline) = Parsed (i32_of (int (unat bound))) newline"
    "bind_port prt = Inl e \<Longrightarrow> g_level out = Info \<Longrightarrow> getenv ''SRNP_LOG_LEVEL'' = None \<Longrightarrow>
      \<exists>out' line. master_main getenv argv bind_port looped now out = Some (1, out') \<and> printed out' = printed out @ [(Stderr, line)]"
proof -
  have "newline = [] \<or> \<not> is_digit (hd newline)" by (simp add: newline_def is_digit_def)
  moreover have "unat bound < 65536" using unsigned_less [of bound, where ?'a = nat] by simp
  moreover have "65536 \<le> INT_MAX" by (simp add: INT_MAX_def)
  ultimately have "int (unat bound) \<le> INT_MAX" "newline = [] \<or> \<not> is_digit (hd newline)" by linarith+
  then have "from_chars (show_nat (unat bound) @ newline) = Parsed (i32_of (int (unat bound))) newline"
    using from_chars_show_int [of newline "int (unat bound)"] order_trans [of INT_MIN 0 "int (unat bound)"]
    by (simp add: show_int_def) (simp add: INT_MIN_def)
  then show "bind_port prt = Inr bound \<Longrightarrow> \<exists>out'. master_main getenv argv bind_port (Inr ()) now out = Some (0, out') \<and>
      last (printed out') = (Stdout, ''SRNP master ready on port '' @ show_nat (unat bound) @ newline) \<and>
      from_chars (show_nat (unat bound) @ newline) = Parsed (i32_of (int (unat bound))) newline"
    using assms by (simp add: master_main_def Let_def)
  show "\<exists>out' line. master_main getenv argv bind_port looped now out = Some (1, out') \<and> printed out' = printed out @ [(Stderr, line)]"
    if "bind_port prt = Inl e" "g_level out = Info" "getenv ''SRNP_LOG_LEVEL'' = None"
  proof -
    have "map to_lower ''info'' = nameOfLevel Info" by (simp add: to_lower_def nameOfLevel_def kLevelNames_def)
    then have "master_log getenv out = out" using print_setup_by_name(1) [of "''info''" Info] that by (simp add: master_log_def)
    then show ?thesis
      using assms that logAt_effect(3) [of out Fatal now "(''master_main.cpp'', 50)" "''master could not start: '' @ what e"]
      by (simp add: master_main_def Let_def less_eq_LogLevel_def)
  qed
qed

text \<open>What a run holds after its acts, as a stack; \<open>None\<close> if something is released that was not acquired last.\<close>

fun held :: "Resource list \<Rightarrow> Act list \<Rightarrow> Resource list option" where
  "held st [] = Some st"
| "held st (Acquire r # acts) = (if r \<in> set st then None else held (r # st) acts)"
| "held st (Release r # acts) = (case st of [] \<Rightarrow> None | q # st' \<Rightarrow> if q = r then held st' acts else None)"
| "held st (Said dest s # acts) = held st acts"
| "held st (Shown pic # acts) = held st acts"

lemma held_append: "held st (xs @ ys) = Option.bind (held st xs) (\<lambda>st'. held st' ys)"
  by (induction st xs rule: held.induct) (auto split: list.splits)

lemma held_said [simp]:
  "held st (map (Said dest) lines) = Some st" "held st (map (\<lambda>(dest, s). Said dest s) said) = Some st"
proof -
  show "held st (map (Said dest) lines) = Some st" by (induction lines) simp_all
  show "held st (map (\<lambda>(dest, s). Said dest s) said) = Some st" by (induction said) auto
qed

lemma held_frames: "held st (fst (frame_loop frames s)) = Some st"
  by (induction frames s rule: frame_loop.induct) (auto split: prod.splits sum.splits)

text \<open>Between two frames only what can happen in the viewer's process happens.\<close>

definition in_process :: "(('cb viewer \<Rightarrow> 'cb viewer) \<times> TimePoint) list \<Rightarrow> bool" where
  "in_process frames \<longleftrightarrow> (\<forall>(world, now) \<in> set frames. \<forall>s. viewer_reach s \<longrightarrow> viewer_reach (world s))"

lemma frame_loop_reach:
  assumes "viewer_reach s" "in_process frames"
    and "frame_loop frames s = (acts, Some e, (l, v, k))"
  shows "sl_state l \<noteq> Connected \<and> drawDisconnectedBanner l = Inl e"
  using assms
proof (induction frames s arbitrary: acts rule: frame_loop.induct)
  case (2 world now frames s)
  obtain l1 v1 k1 where w: "world s = (l1, v1, k1)" by (cases "world s")
  have "\<forall>s. viewer_reach s \<longrightarrow> viewer_reach (world s)" using "2.prems"(2) by (simp add: in_process_def)
  then have reach: "viewer_reach (l1, v1, k1)" using "2.prems"(1) w by metis
  obtain r v2 where d: "draw now l1 v1 k1 = (r, v2)" by fastforce
  show ?case
  proof (cases r)
    case (Inl e')
    then have "e' = e" "l1 = l" using "2.prems"(3) w d by auto
    moreover have "sl_state l1 \<noteq> Connected" using frame_returns [OF reach, of now] d Inl by fastforce
    ultimately show ?thesis using d Inl by (cases "drawDisconnectedBanner l") (auto simp: draw_def)
  next
    case (Inr pic)
    have "viewer_reach (l1, v2, k1)" by (rule frame_reach [OF reach d])
    moreover obtain acts' where "frame_loop frames (l1, v2, k1) = (acts', Some e, (l, v, k))"
      using "2.prems"(3) w d Inr by (auto split: prod.splits)
    moreover have "in_process frames" using "2.prems"(2) by (simp add: in_process_def)
    ultimately show ?thesis by (intro "2.IH" [OF w [symmetric] _ d [symmetric] Inr]) auto
  qed
qed simp

subsection \<open>Property\<close>


text \<open>A viewer that draws one frame before it connects.\<close>

definition sample_display :: "nat Display" where
  "sample_display = \<lparr>glfw_starts = True, window_opens = True, content_scale = 2, font_found = (\<lambda>_. False),
     font_load = (\<lambda>_. None), font_dirs = (''/usr/share/srnp'', ''fonts'')\<rparr>"


end
