(* ===== verification/Locks.thy ===== *)
theory Locks
  imports Main
begin

text \<open>
  The mutexes of the program and who takes them in which order. A \<open>prog\<close> is the skeleton of a function: the mutexes it
  locks, what it calls meanwhile, its alternatives and loops. \<open>User\<close> is user code, a callback, which may call
  any function of the library. Values are left out, so a skeleton has every branch the function has and
  more; leaving early, by \<^verbatim>\<open>return\<close> or by an exception, is possible everywhere, and releases what is locked.

  A mutex class stands for the mutexes of all objects of a class. A thread picks the object first and then waits for
  its mutex. \<open>well_ordered\<close> is a check on skeletons, like a type system: mutexes are only taken in ascending order of
  \<open>rank\<close>, and user code runs with none held. The locale \<open>lock_discipline\<close> has what follows from it for
  any number of threads; it is interpreted on the skeletons of the sources. \<^verbatim>\<open>std::jthread::join\<close>, the locks
  inside the libraries and the mutex local to \<^verbatim>\<open>connectLoop\<close>, which only its own thread takes, are not covered.
\<close>

subsection \<open>Skeletons\<close>

datatype mutex_class =
    M_link | M_trackers | M_hub | M_space | M_ready | M_state | M_channel | M_outbox | M_write

type_synonym lock = "mutex_class \<times> nat"

datatype prog =
    Block "prog list"
  | Alt prog prog
  | Loop prog
  | Locked mutex_class prog
  | User

fun rank :: "mutex_class \<Rightarrow> nat" where
  "rank M_link = 1"
| "rank M_trackers = 2"
| "rank M_hub = 3"
| "rank M_space = 4"
| "rank M_ready = 5"
| "rank M_state = 6"
| "rank M_channel = 7"
| "rank M_outbox = 8"
| "rank M_write = 9"

fun well_ordered :: "nat \<Rightarrow> prog \<Rightarrow> bool" where
  "well_ordered b (Block ps) = (\<forall>p \<in> set ps. well_ordered b p)"
| "well_ordered b (Alt p q) = (well_ordered b p \<and> well_ordered b q)"
| "well_ordered b (Loop p) = well_ordered b p"
| "well_ordered b (Locked c p) = (b < rank c \<and> well_ordered (rank c) p)"
| "well_ordered b User = (b = 0)"

subsection \<open>Threads\<close>

text \<open>
  A thread is a stack of what it has to do: run a skeleton, wait for a mutex and then run what it protects, or unlock
  a mutex it holds. \<open>calls\<close> are the functions that threads and callbacks may call.
\<close>

datatype item =
    Do prog
  | Want lock prog
  | Unlock lock

type_synonym thread = "item list"

fun held :: "thread \<Rightarrow> lock list" where
  "held [] = []"
| "held (Unlock l # k) = l # held k"
| "held (_ # k) = held k"

inductive thread_step :: "prog list \<Rightarrow> thread \<Rightarrow> lock option \<Rightarrow> thread \<Rightarrow> bool" for calls where
  t_call: "p \<in> set calls \<Longrightarrow> thread_step calls [] None [Do p]"
| t_leave: "thread_step calls (Do p # k) None k"
| t_block: "thread_step calls (Do (Block (p # ps)) # k) None (Do p # Do (Block ps) # k)"
| t_left: "thread_step calls (Do (Alt p q) # k) None (Do p # k)"
| t_right: "thread_step calls (Do (Alt p q) # k) None (Do q # k)"
| t_again: "thread_step calls (Do (Loop p) # k) None (Do p # Do (Loop p) # k)"
| t_want: "thread_step calls (Do (Locked c p) # k) None (Want (c, i) p # k)"
| t_acquire: "thread_step calls (Want l p # k) (Some l) (Do p # Unlock l # k)"
| t_release: "thread_step calls (Unlock l # k) None k"
| t_user: "p \<in> set calls \<Longrightarrow> thread_step calls (Do User # k) None (Do p # Do User # k)"

definition taken :: "thread list \<Rightarrow> lock set" where
  "taken T = (\<Union>t \<in> set T. set (held t))"

text \<open>A thread acquires a mutex only while nobody holds it, not even itself.\<close>

definition can_step :: "prog list \<Rightarrow> thread list \<Rightarrow> nat \<Rightarrow> thread \<Rightarrow> bool" where
  "can_step calls T i t \<longleftrightarrow> i < length T \<and>
     (\<exists>a. thread_step calls (T ! i) a t \<and> (\<forall>l. a = Some l \<longrightarrow> l \<notin> taken T))"

inductive threads_reach :: "prog list \<Rightarrow> thread list \<Rightarrow> bool" for calls where
  threads_idle: "threads_reach calls (replicate n [])"
| threads_run: "threads_reach calls T \<Longrightarrow> can_step calls T i t \<Longrightarrow> threads_reach calls (T[i := t])"

subsection \<open>Ordered threads\<close>

fun top :: "thread \<Rightarrow> nat" where
  "top [] = 0"
| "top (Unlock (c, i) # k) = rank c"
| "top (_ # k) = top k"

fun ordered :: "thread \<Rightarrow> bool" where
  "ordered [] = True"
| "ordered (Do p # k) = (well_ordered (top k) p \<and> ordered k)"
| "ordered (Want (c, i) p # k) = (top k < rank c \<and> well_ordered (rank c) p \<and> ordered k)"
| "ordered (Unlock (c, i) # k) = (top k < rank c \<and> ordered k)"

lemma rank_pos: "0 < rank c"
  by (cases c) simp_all

lemma held_below_top: "ordered k \<Longrightarrow> (c, i) \<in> set (held k) \<Longrightarrow> rank c \<le> top k"
  by (induction k rule: ordered.induct) auto

lemma top_zero: "ordered k \<Longrightarrow> top k = 0 \<Longrightarrow> held k = []"
  using held_below_top rank_pos by (metis list.set_intros(1) neq_Nil_conv not_le surj_pair)

lemma distinct_held: "ordered k \<Longrightarrow> distinct (held k)"
  by (induction k rule: ordered.induct) (auto dest: held_below_top)

locale lock_discipline =
  fixes calls :: "prog list"
  assumes calls_ordered: "p \<in> set calls \<Longrightarrow> well_ordered 0 p"
begin

lemma step_ordered: "thread_step calls t a t' \<Longrightarrow> ordered t \<Longrightarrow> ordered t'"
  by (induction rule: thread_step.induct) (auto simp: calls_ordered)

lemma step_held:
  "thread_step calls t a t' \<Longrightarrow> set (held t') \<subseteq> set (held t) \<union> {l. a = Some l}"
  by (induction rule: thread_step.induct) auto

lemma reach_ordered: "threads_reach calls T \<Longrightarrow> t \<in> set T \<Longrightarrow> ordered t"
proof (induction arbitrary: t rule: threads_reach.induct)
  case (threads_run T i t')
  from threads_run.hyps(2) have "ordered t'"
    using threads_run.IH [of "T ! i"] by (auto simp: can_step_def intro: step_ordered)
  then show ?case using threads_run.prems threads_run.IH set_update_subset_insert [of T i t'] by auto
qed auto

lemma reach_exclusive:
  "threads_reach calls T \<Longrightarrow> i < length T \<Longrightarrow> j < length T \<Longrightarrow> l \<in> set (held (T ! i)) \<Longrightarrow>
   l \<in> set (held (T ! j)) \<Longrightarrow> i = j"
proof (induction arbitrary: i j rule: threads_reach.induct)
  case (threads_run T m t)
  obtain a where a: "thread_step calls (T ! m) a t" "\<forall>l. a = Some l \<longrightarrow> l \<notin> taken T" "m < length T"
    using threads_run.hyps(2) by (auto simp: can_step_def)
  have new: "l \<in> set (held (T ! m)) \<or> l \<notin> taken T" if "l \<in> set (held t)"
    using step_held [OF a(1)] a(2) that by blast
  have old: "l \<in> taken T" if "n < length T" "l \<in> set (held (T ! n))" for n
    using that by (auto simp: taken_def)
  show ?case using threads_run.prems threads_run.IH [of i j] threads_run.IH [of m j] threads_run.IH [of i m] new old a(3)
    by (auto simp: nth_list_update split: if_splits)
qed simp

text \<open>A thread that cannot step waits for a mutex above all it holds.\<close>

lemma blocked_wants:
  assumes "t \<noteq> []" "i < length T" "T ! i = t" "\<And>t'. \<not> can_step calls T i t'"
  obtains l p k where "t = Want l p # k" "l \<in> taken T"
proof (cases t)
  case (Cons x k)
  have no: "\<not> thread_step calls t None t'" for t' using assms by (auto simp: can_step_def)
  show thesis
  proof (cases x)
    case (Do p)
    then show thesis using no Cons t_leave by metis
  next
    case (Unlock l)
    then show thesis using no Cons t_release by metis
  next
    case (Want l p)
    then have "thread_step calls t (Some l) (Do p # Unlock l # k)" using Cons t_acquire by simp
    then have "l \<in> taken T" using assms by (auto simp: can_step_def)
    then show thesis using that Want Cons by simp
  qed
qed (use assms in simp)

lemma no_deadlock:
  assumes "threads_reach calls T" "t0 \<in> set T" "t0 \<noteq> []"
  shows "\<exists>i t. i < length T \<and> T ! i \<noteq> [] \<and> can_step calls T i t"
proof (rule ccontr)
  assume none: "\<not> ?thesis"
  have wants: "\<exists>l p k. t = Want l p # k \<and> l \<in> taken T" if "t \<in> set T" "t \<noteq> []" for t
    using that none blocked_wants by (metis in_set_conv_nth)
  have up: "\<exists>l' \<in> taken T. rank (fst l) < rank (fst l')" if l: "l \<in> taken T" for l
  proof -
    obtain t where t: "t \<in> set T" "l \<in> set (held t)" using l unfolding taken_def by blast
    then obtain c i p k where w: "t = Want (c, i) p # k" "(c, i) \<in> taken T" using wants by fastforce
    then have "rank (fst l) \<le> top k" "top k < rank c"
      using t reach_ordered [OF assms(1) t(1)] held_below_top [of k "fst l" "snd l"] by auto
    then show ?thesis using w(2) by force
  qed
  obtain l where "l \<in> taken T" using wants assms(2,3) by blast
  have "\<exists>l \<in> taken T. n \<le> rank (fst l)" for n
  proof (induction n)
    case (Suc n)
    then obtain l where "l \<in> taken T" "n \<le> rank (fst l)" by blast
    then show ?case using up [of l] by (meson Suc_leI le_less_trans)
  qed (use \<open>l \<in> taken T\<close> in blast)
  from this [of 10] obtain l :: lock where "10 \<le> rank (fst l)" by blast
  then show False by (cases "fst l") simp_all
qed

lemma user_code_unlocked: "threads_reach calls T \<Longrightarrow> Do User # k \<in> set T \<Longrightarrow> held k = []"
  using reach_ordered top_zero by fastforce

end

subsection \<open>The skeletons of the sources\<close>

text \<open>A log statement: nothing below the level, else one line under \<^verbatim>\<open>g_write_mutex\<close>.\<close>

definition locks_logAt :: prog where
  "locks_logAt = Alt (Block []) (Locked M_write (Block []))"

text \<open>\<^verbatim>\<open>FrameChannel\<close>\<close>

definition locks_channel_close :: prog where
  "locks_channel_close = Locked M_outbox (Block [])"

definition locks_channel_send :: prog where
  "locks_channel_send = Alt locks_logAt
     (Block [Locked M_outbox locks_logAt, Alt locks_channel_close (Block [])])"

definition locks_drainOutbox :: prog where
  "locks_drainOutbox = Loop (Block [Locked M_outbox (Block []), Block [locks_logAt, Locked M_outbox (Block [])]])"

definition locks_outboxSize :: prog where
  "locks_outboxSize = Locked M_outbox (Block [])"

text \<open>\<^verbatim>\<open>ClientSession\<close>\<close>

definition locks_session_send :: prog where
  "locks_session_send = Locked M_channel (Alt locks_channel_send locks_logAt)"

definition locks_session_close :: prog where
  "locks_session_close = Block [Locked M_channel (Block []), locks_channel_close]"

definition locks_connect :: prog where
  "locks_connect = Alt locks_logAt (Block [Locked M_channel locks_channel_close, Loop locks_channel_send])"

definition locks_subscriptionsFor :: prog where
  "locks_subscriptionsFor = Locked M_state (Block [])"

definition locks_session_run :: prog where
  "locks_session_run = Loop (Block [locks_connect, locks_logAt, locks_subscriptionsFor, Loop locks_session_send])"

text \<open>\<^verbatim>\<open>Client\<close>\<close>

definition locks_sessionFor :: prog where
  "locks_sessionFor = Locked M_state (Block [])"

definition locks_fanOut :: prog where
  "locks_fanOut = Loop (Block [locks_sessionFor, Alt locks_session_send locks_logAt])"

definition locks_client_close :: prog where
  "locks_client_close = Block [Locked M_state (Block []), Loop locks_session_close]"

definition locks_waitUntilReady :: prog where
  "locks_waitUntilReady = Loop (Locked M_ready (Block []))"

definition locks_addSession :: prog where
  "locks_addSession = Locked M_state (Block [])"

definition locks_removeSession :: prog where
  "locks_removeSession = Block [Locked M_state (Block []), locks_session_close]"

definition locks_onWelcome :: prog where
  "locks_onWelcome = Block [Loop locks_addSession, Locked M_ready (Block [])]"

definition locks_onComponentUpdate :: prog where
  "locks_onComponentUpdate = Block [locks_logAt, Alt locks_addSession locks_removeSession]"

definition locks_components :: prog where
  "locks_components = Locked M_state (Block [])"

definition locks_setPair :: prog where
  "locks_setPair = Locked M_space locks_fanOut"

definition locks_setRemotePair :: prog where
  "locks_setRemotePair = Block [locks_sessionFor, Alt locks_logAt locks_session_send]"

definition locks_removePair :: prog where
  "locks_removePair = Locked M_space (Alt locks_logAt locks_fanOut)"

definition locks_removeRemotePair :: prog where
  "locks_removeRemotePair = Alt locks_removePair (Block [locks_sessionFor, Alt locks_logAt locks_session_send])"

definition locks_getPair :: prog where
  "locks_getPair = Locked M_space (Block [])"

definition locks_getPairIndirectly :: prog where
  "locks_getPairIndirectly = Block [locks_getPair, Alt locks_logAt locks_getPair]"

definition locks_setPairIndirectly :: prog where
  "locks_setPairIndirectly = Block [locks_getPair, Alt locks_logAt (Alt locks_setPair locks_setRemotePair)]"

definition locks_setMetaPair :: prog where
  "locks_setMetaPair = Alt locks_setPair locks_setRemotePair"

definition locks_registerCallback :: prog where
  "locks_registerCallback = Locked M_space locks_logAt"

definition locks_cancelCallback :: prog where
  "locks_cancelCallback = Locked M_space locks_logAt"

definition locks_sendSubscription :: prog where
  "locks_sendSubscription = Alt (Block [locks_sessionFor, locks_session_send])
     (Block [Locked M_state (Block []), Loop locks_session_send])"

definition locks_registerSubscription :: prog where
  "locks_registerSubscription = Block [Locked M_state locks_logAt, locks_sendSubscription]"

definition locks_cancelSubscription :: prog where
  "locks_cancelSubscription = Block [Locked M_state locks_logAt, locks_sendSubscription]"

text \<open>\<^verbatim>\<open>ServerSession\<close>, \<^verbatim>\<open>MasterLink\<close> and \<^verbatim>\<open>Server\<close>; the strand of the client runs what \<^verbatim>\<open>notifyLocal\<close> posted.\<close>

definition locks_applyAndNotify :: prog where
  "locks_applyAndNotify = Block [Locked M_space (Block []), Loop User, locks_fanOut]"

definition locks_handleSubscription :: prog where
  "locks_handleSubscription = Block [locks_logAt, Locked M_space locks_logAt, Loop locks_fanOut]"

definition locks_handleRemovePair :: prog where
  "locks_handleRemovePair = Block [locks_logAt, Locked M_space locks_logAt, locks_fanOut]"

definition locks_handlePairRemoved :: prog where
  "locks_handlePairRemoved = Locked M_space (Block [])"

definition locks_server_session :: prog where
  "locks_server_session = Block [Loop (Alt (Alt locks_applyAndNotify locks_handleSubscription)
     (Alt locks_handleRemovePair locks_handlePairRemoved)), locks_logAt, locks_channel_close]"

definition locks_link_run :: prog where
  "locks_link_run = Block [Loop locks_onComponentUpdate, locks_logAt]"

definition locks_server_stop :: prog where
  "locks_server_stop = locks_channel_close"

definition locks_new_server :: prog where
  "locks_new_server = Block [locks_logAt, locks_onWelcome]"

definition locks_notified :: prog where
  "locks_notified = Loop User"

text \<open>The second \<^verbatim>\<open>close\<close> of the client is that of its destructor.\<close>

definition locks_shutdown :: prog where
  "locks_shutdown = Block [locks_client_close, locks_server_stop, locks_client_close]"

definition locks_initialize :: prog where
  "locks_initialize = Block [locks_new_server, Alt (Block []) locks_shutdown, locks_waitUntilReady,
     Alt (Block []) locks_shutdown, locks_logAt]"

definition locks_snapshotPairs :: prog where
  "locks_snapshotPairs = Locked M_space (Block [])"

definition locks_printPairSpace :: prog where
  "locks_printPairSpace = Locked M_space (Block [])"

text \<open>The trackers of meta-pairs, the viewer's link and the master.\<close>

definition locks_releaseTarget :: prog where
  "locks_releaseTarget = Block [locks_cancelCallback, locks_cancelSubscription]"

definition locks_acquireTarget :: prog where
  "locks_acquireTarget = Block [locks_registerSubscription, locks_registerCallback]"

definition locks_onMetaPairChanged :: prog where
  "locks_onMetaPairChanged = Locked M_trackers (Block [locks_releaseTarget, locks_acquireTarget])"

definition locks_registerTracker :: prog where
  "locks_registerTracker = Locked M_trackers (Block [locks_registerSubscription, locks_registerCallback])"

definition locks_cancelTracker :: prog where
  "locks_cancelTracker = Locked M_trackers (Alt locks_logAt
     (Block [locks_releaseTarget, locks_cancelSubscription, locks_cancelCallback]))"

definition locks_link_state :: prog where
  "locks_link_state = Locked M_link (Block [])"

definition locks_connectLoop :: prog where
  "locks_connectLoop = Loop (Block [Locked M_link (Block []), locks_initialize, locks_registerSubscription,
     Alt (Locked M_link locks_logAt) (Locked M_link (Block []))])"

definition locks_setSubscribedToAll :: prog where
  "locks_setSubscribedToAll = Block [locks_link_state, Alt locks_registerSubscription locks_cancelSubscription]"

definition locks_sendToAll :: prog where
  "locks_sendToAll = Block [Locked M_hub (Block []), Loop locks_channel_send]"

definition locks_hub_session :: prog where
  "locks_hub_session = Block [Locked M_hub locks_logAt, locks_channel_send, locks_logAt, locks_sendToAll, locks_logAt,
     Locked M_hub (Block []), locks_sendToAll, locks_logAt, locks_channel_close]"

text \<open>Everything a thread may start: public functions, coroutines, and the callback that trackers register.\<close>

definition all_calls :: "prog list" where
  "all_calls =
     [locks_initialize, locks_shutdown, locks_setPair, locks_setRemotePair, locks_setPairIndirectly, locks_setMetaPair,
      locks_removePair, locks_removeRemotePair, locks_getPair, locks_getPairIndirectly, locks_snapshotPairs, locks_printPairSpace, locks_outboxSize,
      locks_components, locks_registerCallback, locks_cancelCallback, locks_registerSubscription,
      locks_cancelSubscription, locks_onMetaPairChanged, locks_registerTracker, locks_cancelTracker,
      locks_server_session, locks_link_run, locks_session_run, locks_drainOutbox, locks_notified,
      locks_connectLoop, locks_link_state, locks_setSubscribedToAll, locks_hub_session]"

lemmas locks_defs =
  locks_logAt_def locks_channel_close_def locks_channel_send_def locks_drainOutbox_def locks_session_send_def
  locks_session_close_def locks_connect_def locks_subscriptionsFor_def locks_session_run_def locks_sessionFor_def
  locks_fanOut_def locks_client_close_def locks_waitUntilReady_def locks_addSession_def locks_removeSession_def
  locks_onWelcome_def locks_onComponentUpdate_def locks_components_def locks_setPair_def locks_setRemotePair_def
  locks_removePair_def locks_removeRemotePair_def locks_getPair_def locks_getPairIndirectly_def
  locks_setPairIndirectly_def locks_setMetaPair_def locks_registerCallback_def locks_cancelCallback_def
  locks_sendSubscription_def locks_registerSubscription_def locks_cancelSubscription_def locks_applyAndNotify_def
  locks_handleSubscription_def locks_handleRemovePair_def locks_handlePairRemoved_def locks_server_session_def
  locks_link_run_def locks_server_stop_def locks_new_server_def locks_notified_def locks_shutdown_def
  locks_initialize_def locks_snapshotPairs_def locks_printPairSpace_def locks_outboxSize_def locks_releaseTarget_def locks_acquireTarget_def
  locks_onMetaPairChanged_def locks_registerTracker_def locks_cancelTracker_def locks_link_state_def
  locks_connectLoop_def locks_setSubscribedToAll_def locks_sendToAll_def locks_hub_session_def

lemma all_calls_ordered: "\<forall>p \<in> set all_calls. well_ordered 0 p"
  by (simp add: all_calls_def locks_defs)

interpretation srnp: lock_discipline all_calls
  by unfold_locales (use all_calls_ordered in blast)

subsection \<open>Properties\<close>

text \<open>
  C6. The order of the mutexes rules out deadlock. However many threads run the functions of the library, its coroutines
  and the callbacks, which may call the library again: no two threads hold the same mutex; a callback runs with no
  mutex held; and as long as some thread is inside a function, some thread that is can go on.
\<close>

theorem mutexes_never_deadlock:
  assumes "threads_reach all_calls T"
  shows "(\<forall>i j l. i < length T \<and> j < length T \<and> l \<in> set (held (T ! i)) \<and> l \<in> set (held (T ! j)) \<longrightarrow> i = j) \<and>
    (\<forall>k. Do User # k \<in> set T \<longrightarrow> held k = []) \<and>
    ((\<exists>t \<in> set T. t \<noteq> []) \<longrightarrow> (\<exists>i t. i < length T \<and> T ! i \<noteq> [] \<and> can_step all_calls T i t))"
  using srnp.reach_exclusive [OF assms] srnp.user_code_unlocked [OF assms] srnp.no_deadlock [OF assms] by blast

text \<open>A thread publishes and holds the mutex of the pair space, for which another thread, which reads, waits.\<close>

lemma calls_step:
  "threads_reach calls T \<Longrightarrow> i < length T \<Longrightarrow> thread_step calls (T ! i) None t \<Longrightarrow> threads_reach calls (T[i := t])"
  by (rule threads_run) (auto simp: can_step_def)

lemma calls_acquire:
  "threads_reach calls T \<Longrightarrow> i < length T \<Longrightarrow> T ! i = Want l p # k \<Longrightarrow> l \<notin> taken T \<Longrightarrow>
   threads_reach calls (T[i := Do p # Unlock l # k])"
  by (rule threads_run) (auto simp: can_step_def intro: t_acquire)

lemma sample_threads:
  "threads_reach all_calls [[Do locks_fanOut, Unlock (M_space, 0)], [Want (M_space, 0) (Block [])]]"
proof -
  have p: "locks_setPair \<in> set all_calls" "locks_getPair \<in> set all_calls" by (simp_all add: all_calls_def)
  have "threads_reach all_calls [[], []]" using threads_idle [of all_calls 2] by (simp add: numeral_2_eq_2)
  from calls_step [OF this, of 0 "[Do locks_setPair]"] have "threads_reach all_calls [[Do locks_setPair], []]"
    by (simp add: t_call p)
  from calls_step [OF this, of 0 "[Want (M_space, 0) locks_fanOut]"]
  have "threads_reach all_calls [[Want (M_space, 0) locks_fanOut], []]" by (simp add: locks_setPair_def t_want)
  from calls_acquire [OF this, of 0] have "threads_reach all_calls [[Do locks_fanOut, Unlock (M_space, 0)], []]"
    by (simp add: taken_def)
  from calls_step [OF this, of 1 "[Do locks_getPair]"]
  have "threads_reach all_calls [[Do locks_fanOut, Unlock (M_space, 0)], [Do locks_getPair]]" by (simp add: t_call p)
  from calls_step [OF this, of 1 "[Want (M_space, 0) (Block [])]"] show ?thesis by (simp add: locks_getPair_def t_want)
qed

theorem mutexes_never_deadlock_witness:
  "\<exists>i t. i < 2 \<and> can_step all_calls [[Do locks_fanOut, Unlock (M_space, 0)], [Want (M_space, 0) (Block [])]] i t"
  using mutexes_never_deadlock [OF sample_threads] by (auto simp: numeral_2_eq_2)

text \<open>
  \<^verbatim>\<open>setPair\<close> queues its frames under the mutex of the pair space, and so holds three mutexes at once, in this order.
\<close>

lemma publishing_holds_three_mutexes:
  "\<exists>t T. threads_reach all_calls (t # T) \<and> held t = [(M_outbox, 0), (M_channel, 0), (M_space, 0)]"
proof -
  let ?k = "[Unlock (M_space, 0)]" and ?w = "[Want (M_space, 0) (Block [])]"
  let ?s = "Alt locks_session_send locks_logAt"
  let ?k1 = "Do (Block []) # Do locks_fanOut # ?k" and ?u = "Alt locks_channel_send locks_logAt"
  have "threads_reach all_calls [Do (Block [locks_sessionFor, ?s]) # Do locks_fanOut # ?k, ?w]"
    using calls_step [OF sample_threads, of 0] t_again by (fastforce simp: locks_fanOut_def)
  then have "threads_reach all_calls [Do locks_sessionFor # Do (Block [?s]) # Do locks_fanOut # ?k, ?w]"
    using calls_step [of all_calls _ 0] t_block by fastforce
  then have "threads_reach all_calls [Do (Block [?s]) # Do locks_fanOut # ?k, ?w]"
    using calls_step [of all_calls _ 0] t_leave by fastforce
  then have "threads_reach all_calls [Do ?s # ?k1, ?w]" using calls_step [of all_calls _ 0] t_block by fastforce
  then have "threads_reach all_calls [Do locks_session_send # ?k1, ?w]" using calls_step [of all_calls _ 0] t_left by fastforce
  then have "threads_reach all_calls [Want (M_channel, 0) ?u # ?k1, ?w]"
    using calls_step [of all_calls _ 0] t_want by (fastforce simp: locks_session_send_def)
  then have "threads_reach all_calls [Do ?u # Unlock (M_channel, 0) # ?k1, ?w]"
    using calls_acquire [of all_calls _ 0] by (fastforce simp: taken_def)
  then have "threads_reach all_calls [Do locks_channel_send # Unlock (M_channel, 0) # ?k1, ?w]"
    using calls_step [of all_calls _ 0] t_left by fastforce
  then have "threads_reach all_calls [Do (Block [Locked M_outbox locks_logAt, Alt locks_channel_close (Block [])]) #
      Unlock (M_channel, 0) # ?k1, ?w]"
    using calls_step [of all_calls _ 0] t_right by (fastforce simp: locks_channel_send_def)
  then have "threads_reach all_calls [Do (Locked M_outbox locks_logAt) # Do (Block [Alt locks_channel_close (Block [])]) #
      Unlock (M_channel, 0) # ?k1, ?w]"
    using calls_step [of all_calls _ 0] t_block by fastforce
  then have "threads_reach all_calls [Want (M_outbox, 0) locks_logAt # Do (Block [Alt locks_channel_close (Block [])]) #
      Unlock (M_channel, 0) # ?k1, ?w]"
    using calls_step [of all_calls _ 0] t_want by fastforce
  then have "threads_reach all_calls [Do locks_logAt # Unlock (M_outbox, 0) # Do (Block [Alt locks_channel_close (Block [])]) #
      Unlock (M_channel, 0) # ?k1, ?w]"
    using calls_acquire [of all_calls _ 0] by (fastforce simp: taken_def)
  then show ?thesis by (intro exI conjI) (assumption, simp)
qed

end
