(* ===== verification/Spec2Isabelle.thy ===== *)
theory Spec2Isabelle
  imports Membership Network Programs Locks
begin

text \<open>
  \<^bold>\<open>srnp: a distributed blackboard\<close>

  \<^emph>\<open>The program.\<close> Components publish key-value \<^emph>\<open>pairs\<close> and read those of other components. A process that
  takes part is a \<^emph>\<open>node\<close>. It has a pair space (its own pairs and copies of those it subscribed to, with
  subscribers and callbacks), a server half that reads the frames other components send, and a client half
  with one outbound session for each other component. A \<^emph>\<open>master\<close> hands out owner ids and tells everybody
  who joins and leaves; pairs travel directly between components as frames of a small binary protocol.
  A \<^emph>\<open>meta-pair\<close> holds the name of another pair. \<^verbatim>\<open>pairview\<close> is a window on a node.

  \<^emph>\<open>Theories and sources\<close>, from the bottom up. Record fields and operations carry the names of the source, with
  a prefix or suffix where two classes share a name or HOL has it already.
  \<^item> \<open>Prelude\<close>: machine integers, bytes, decimal text, \<^verbatim>\<open>std::from_chars\<close>, the type \<open>result\<close> of code that may throw.
    \<open>Std_Map\<close>: \<^verbatim>\<open>std::map\<close> as a sorted association list; its contract is the locale \<open>ordered_map\<close>.
    \<open>Calendar\<close>: the dates and times \<^verbatim>\<open>std::format\<close> prints, and the text of a pair.
  \<^item> \<open>Wire\<close>: \<^verbatim>\<open>include/srnp/wire.h\<close>, \<^verbatim>\<open>src/wire.cpp\<close>; \<open>Pair_Types\<close>: \<^verbatim>\<open>include/srnp/Pair.h\<close>, \<^verbatim>\<open>src/Pair.cpp\<close>, the message
    structs of \<^verbatim>\<open>include/srnp/msgs\<close>; \<open>Codec\<close>: \<^verbatim>\<open>src/codec.cpp\<close>, \<^verbatim>\<open>include/srnp/msgs/codec.h\<close>. A decoder returns the exception or
    the value and the rest of the bytes; both byte orders of the host are covered.
  \<^item> \<open>Pair_Space\<close>: \<^verbatim>\<open>src/PairSpace.cpp\<close>, with an abstract publish/subscribe specification that it refines.
  \<^item> \<open>Frame_Channel\<close>: \<^verbatim>\<open>src/session.cpp\<close>, the bounded outbox with coalescing. Its critical sections and the segments
    of the coroutine between suspension points are steps of an inductive relation.
  \<^item> \<open>Meta_Value\<close>: the text of a meta-pair and the two readers of it in \<^verbatim>\<open>src/client.cpp\<close> and
    \<^verbatim>\<open>src/meta_pair_callback.cpp\<close>. \<open>Client_Session\<close> and \<open>Client\<close>: \<^verbatim>\<open>src/client.cpp\<close>. \<open>Server\<close>: \<^verbatim>\<open>src/server.cpp\<close>.
    \<open>Segments\<close>: the handlers of the server and \<^verbatim>\<open>setPair\<close> of the client cut at the end of their critical sections; what is left
    of a call is a \<open>job\<close>, and other threads may run between two of its segments.
    \<open>Master_Hub\<close>: \<^verbatim>\<open>src/master_hub.cpp\<close>.
  \<^item> \<open>Kernel\<close>: \<^verbatim>\<open>src/srnp_kernel.cpp\<close>, the one node of a process and the public functions. \<open>Meta_Tracker\<close>: the registry of
    \<^verbatim>\<open>src/meta_pair_callback.cpp\<close>, which uses them.
  \<^item> \<open>Gui_Format\<close>: \<^verbatim>\<open>gui/format.cpp\<close>. \<open>Viewer\<close>: \<^verbatim>\<open>gui/srnp_link.cpp\<close> and the controls of \<^verbatim>\<open>gui/pair_view.cpp\<close>. \<open>Window\<close>: what a frame
    of \<^verbatim>\<open>gui/pair_view.cpp\<close> shows, and the histories of the viewer's process. \<open>Theme\<close>: \<^verbatim>\<open>gui/theme.cpp\<close>.
    \<open>Logging\<close>: \<^verbatim>\<open>src/srnp_print.cpp\<close>, \<^verbatim>\<open>printPairSpace\<close>. \<open>Programs\<close>: \<^verbatim>\<open>src/master_main.cpp\<close> and \<^verbatim>\<open>gui/main.cpp\<close>.
  \<^item> \<open>Locks\<close>: the mutexes that every function of the library, the viewer's link and the master takes, in which order, and the
    threads that run these functions.
  \<^item> \<open>Membership\<close>: the master and the node it tells about the others, composed. \<open>Network\<close>: several processes and the frames
    between them.

  \<^emph>\<open>Conventions.\<close> An operation takes the state and returns it with its result; \<open>Inl\<close> is an exception and comes with
  the state the operation left behind. A node record contains what server and client share under the pair
  space's mutex. Objects that are shared by pointer and outlive their table entry (client sessions) live in
  a store of objects, so replacing a table entry does not destroy the object. Time enters as an argument.
  \<^verbatim>\<open>int\<close> is \<open>i32\<close>, a 32-bit word with the signed order; handles are 64-bit words and their counter wraps, which
  is why laws about fresh handles ask that the counter has not wrapped (\<open>handles_left\<close>, \<open>cb_room\<close>, \<open>sub_room\<close>).

  \<^emph>\<open>Termination and bounds.\<close> No definition uses fuel. The read loops recurse on the bytes left, with a length
  measure, since every frame has a 16-byte header; a job ends because each segment shortens it; the loop
  that picks an owner id is bounded by the number of registered ids; \<^verbatim>\<open>connectLoop\<close> recurses over the attempts the environment lets it make, and
  the theorem about it says which attempt ends it. \<open>run_drain\<close> and \<open>run_steps\<close> repeat the segments of a coroutine a given number
  of times; the theorems about them name a number that is enough.

  \<^emph>\<open>What is shown.\<close> The wire: exact acceptance of headers and round trips of all messages. The pair space: its
  invariant and refinement. The channel: bounded queue, per-key order, control frames never lost, delivery;
  a peer that keeps up gets everything.
  Sessions: pending frames flushed in order. Client and server: each operation's effect on
  every branch, subscribers brought up to date, robustness against arbitrary input. The master: unique ids;
  with the node's own code behind its connection, every component lists exactly the others. The kernel: the invariant of every
  history of a process, with the segments of its threads interleaved; no call without a node. Threads: run without interruption the segments are
  the handlers; one order of the mutexes, so no deadlock, and no callback under a mutex. Trackers: they follow
  their meta-pair and leave nothing behind. The viewer: faithful text, connection, frames that show what the node holds, everything released at the end. This theory, across
  components: a network never shows a value its owner did not hold, publishing
  converges at the subscriber, and subscribing, publishing and reading work end to end. Behaviour that differs
  from the comments or the documents is proved as it is: \<open>late_fan_out_wins\<close>, \<open>unsuperseded_update_dropped\<close>,
  \<open>foreign_update_is_forwarded\<close>, and the lemmas \<open>late_first_value_wins\<close>, \<open>late_removal_follows_update\<close>, \<open>posts_out_of_order\<close>,
  \<open>publishing_holds_three_mutexes\<close>, \<open>coalescing_overtakes_removal\<close>, \<open>send_during_flush_overtakes\<close>, \<open>replaced_session_is_leaked\<close> and
  \<open>shared_target_loses_subscription\<close>.

  \<^emph>\<open>Interfaces\<close> are locales, interpreted on the model: \<open>ordered_map\<close>, \<open>local_client\<close> (what the server calls on its client)
  \<open>handle_registry\<close> (callbacks and subscriptions behind handles, which trackers rely on), \<open>frame_property\<close> (what the
  encoders promise of the frames a node writes) and \<open>lock_discipline\<close> (functions that take mutexes in one order), among others.

  \<^emph>\<open>Networks.\<close> A network runs any number of processes. Its steps are those of the kernel's histories, segments included. A frame
  may be delivered as soon as its write has begun, to any process and any number of times; the bytes of the master are arbitrary. Bytes that no process of the
  network wrote are excluded there, and covered by \<open>server_survives_any_input\<close>.

  \<^emph>\<open>Not modelled.\<close> Sockets, name resolution and the event loop beyond the interleavings above (delays, signals, joining threads, condition
  variables, the locks inside the libraries); in histories, functions of the client other than \<^verbatim>\<open>setPair\<close> run without
  interruption; the random generator, which is a parameter; layout and widgets of Dear ImGui and GLFW, whose outcomes are parameters; benchmarks, tests and sample programs, which only call the
  library.
\<close>

subsection \<open>From a publisher to its subscribers\<close>

text \<open>
  The subscription that a component registers with the owner of a key is framed on the session to that owner,
  and handling the frame there puts the component into the audience of the key.
\<close>

lemma registerSubscription_sends:
  assumes "client_inv c" "owner \<noteq> kAnyOwner" "registerSubscription owner key c = (Inr h, c')"
    and "h \<noteq> kInvalidSubscriptionHandle" "peer_session c owner = Some s"
  shows "13 + length key \<le> kMaxPayload"
    "peer_session c' owner = Some (session_send (subscription_bytes owner key (owner_id c) True) None s)"
proof -
  let ?c = "c\<lparr>next_subscription_handle := next_subscription_handle c + 1, subscriptions :=
      m_emplace (next_subscription_handle c + 1) \<lparr>sr_owner = owner, sr_key = key\<rparr> (subscriptions c)\<rparr>"
  obtain sid where sid: "m_find (sessions c) owner = Some sid" "s = objects c ! sid"
    using assms(5) by (auto simp: peer_session_def)
  then have len: "sid < length (objects c)" using assms(1) by (auto simp: client_inv_def sessions_ok_def)
  obtain fr where fr: "subscription_frame owner key (owner_id c) True = Inr fr"
    and c': "c' = update_object sid (session_send fr None) ?c"
    using assms(2-4) sid(1)
    by (auto simp: registerSubscription_def sendSubscription_def sessionFor_def Let_def
        split: if_splits sum.splits)
  from subscription_frame_Inr(2) [OF fr] show "13 + length key \<le> kMaxPayload" .
  show "peer_session c' owner = Some (session_send (subscription_bytes owner key (owner_id c) True) None s)"
    using sid len by (simp add: c' peer_session_def update_object_def subscription_frame_Inr(1) [OF fr])
qed

lemma handle_subscription_request:
  assumes "13 + length key \<le> kMaxPayload" "a \<noteq> srv_owner srv" "key \<noteq> kWildcardKey"
  shows "handle_frame now (subscription_request (srv_owner srv) key a True) srv =
    (let m = \<lparr>sub_key = key, sub_owner_id = srv_owner srv, sub_subscriber = a, sub_registering = True\<rparr>;
         s = addSubscription now (srv_owner srv) key a (node_space (srv_node srv))
     in sendPairUpdates (pairs_to_send (srv_owner srv) m s) a (set_space s srv))"
proof -
  let ?m = "\<lparr>sub_key = key, sub_owner_id = srv_owner srv, sub_subscriber = a, sub_registering = True\<rparr>"
  let ?f = "subscription_request (srv_owner srv) key a True"
  have "encode_Subscription ?m [] = Inr (fr_payload ?f)"
    using assms(1) by (simp add: encode_Subscription_eq fits_def subscription_request_def)
  then have "decodePayload decode_Subscription (fr_payload ?f) = Inr ?m" using sub_codec.roundtrip by simp
  moreover have "h_type (fr_header ?f) = MT_Subscription" by (simp add: subscription_request_def)
  ultimately show ?thesis using assms(2,3) by (simp add: handle_frame_def handleSubscription_def Let_def)
qed

lemma pairs_to_send_unpublished:
  "sub_key m \<noteq> kWildcardKey \<Longrightarrow> published s (PairKey (sub_owner_id m) (sub_key m)) = None \<Longrightarrow>
   pairs_to_send owner m s = []"
  by (auto simp: pairs_to_send_def published_def find_entry_def split: option.splits if_splits)

lemma new_session_live: "session_live (session_send fr key (new_session h p owner))"
  by (simp add: session_live_def session_send_def session_send_locked_def new_session_def)

lemma subscription_handled:
  assumes "13 + length key \<le> kMaxPayload" "a \<noteq> srv_owner srv" "key \<noteq> kWildcardKey"
  shows "a \<in> set (subscribers_of (node_space (srv_node (snd (handle_frame now
      (subscription_request (srv_owner srv) key a True) srv)))) (PairKey (srv_owner srv) key))"
  using assms by (simp add: handle_subscription_request subscribers_addSubscription push_new_def Let_def)

lemma update_delivered:
  assumes "node_inv n" "ready (node_client n)" "client_setPair now key value ty n = (Inr True, n')"
    and "k = PairKey (owner_id (node_client n)) key" "j \<in> set (subscribers_of (node_space n) k)"
    and "peer_session (node_client n) j = Some s" "peer_session (node_client n') j = Some s'"
    and "session_live s'" "ty \<noteq> PT_Invalid" "node_inv (srv_node srv)"
  shows "\<exists>older ob f. updates_of k (session_out s') = older @ [ob] \<and>
    channel_read (ob_bytes ob @ rest) = Inr (f, rest) \<and>
    published (node_space (srv_node (snd (handle_frame later f srv)))) k = Some (value, ty)"
proof -
  obtain p fr where p: "key_of p = k" "getValue p = value" "getType p = ty"
    and fr: "frameOf encode_Pair MT_PairUpdate p = Inr fr"
    and s': "s' = session_send fr (Some k) s"
    using setPair_effect [OF assms(1-4)] assms(5-7) by (metis option.map(2) option.inject)
  have "session_inv s"
    using assms(1,6) table_session_inv by (metis node_invD(2))
  then obtain older where "updates_of k (session_out s') = older @ [\<lparr>ob_bytes = fr, ob_key = Some k\<rparr>]"
    using session_send_newest assms(8) s' by blast
  moreover obtain f where "channel_read (fr @ rest) = Inr (f, rest)"
    "published (node_space (srv_node (snd (handle_frame later f srv)))) k = Some (value, ty)"
    using update_handled [OF assms(10) fr, of rest later] p assms(9) by auto
  ultimately show ?thesis by (metis Outbound.select_convs(1))
qed

lemma published_is_read:
  "published (node_space n) (PairKey owner key) = Some (v, ty) \<Longrightarrow>
   \<exists>p. client_getPair owner key n = Some p \<and> getValue p = v \<and> getType p = ty"
  by (auto simp: published_def client_getPair_eq split: option.splits if_splits)

text \<open>
  C1. Publishing converges at every subscriber. When \<^verbatim>\<open>setPair\<close> succeeds and the session to a subscriber
  of the key is live, the last update of that key among all the frames the subscriber will get on that
  session, after any coalescing and dropping, is one that its server reads back, and handling it leaves the
  subscriber with exactly the published value and type under the publisher's id.
\<close>

theorem publish_reaches_subscriber:
  assumes "node_inv n" "ready (node_client n)" "client_setPair now key value ty n = (Inr True, n')"
    and "k = PairKey (owner_id (node_client n)) key" "j \<in> set (subscribers_of (node_space n) k)"
    and "peer_session (node_client n) j = Some s" "peer_session (node_client n') j = Some s'"
    and "session_live s'" "ty \<noteq> PT_Invalid" "node_inv (srv_node srv)"
  shows "\<exists>older ob f. updates_of k (session_out s') = older @ [ob] \<and>
    channel_read (ob_bytes ob @ rest) = Inr (f, rest) \<and>
    published (node_space (srv_node (snd (handle_frame later f srv)))) k = Some (value, ty)"
  using assms by (rule update_delivered)

theorem publish_reaches_subscriber_witness:
  "\<exists>n' s' older ob f. client_setPair 1 ''k'' ''v'' PT_String sample_node = (Inr True, n') \<and>
     peer_session (node_client n') (I32 7) = Some s' \<and>
     updates_of (PairKey (I32 5) ''k'') (session_out s') = older @ [ob] \<and>
     channel_read (ob_bytes ob @ []) = Inr (f, []) \<and>
     published (node_space (srv_node (snd (handle_frame 2 f sample_server)))) (PairKey (I32 5) ''k'') =
       Some (''v'', PT_String)"
proof -
  let ?k = "PairKey (I32 5) ''k''"
  have "fst (client_setPair 1 ''k'' ''v'' PT_String sample_node) = Inr True"
    by (rule setPair_succeeds) (simp_all add: kMaxPayload_def)
  then obtain n' where n': "client_setPair 1 ''k'' ''v'' PT_String sample_node = (Inr True, n')"
    by (metis prod.collapse)
  have k: "?k = PairKey (owner_id (node_client sample_node)) ''k''" by simp
  have sub: "I32 7 \<in> set (subscribers_of (node_space sample_node) ?k)" by simp
  obtain fr where s': "peer_session (node_client n') (I32 7) =
      Some (session_send fr (Some ?k) (new_session ''h'' ''p'' (I32 7)))"
    using setPair_effect [OF sample_node_facts(1,2) n' k] sub by (auto split: if_splits)
  have inv: "node_inv (srv_node sample_server)" by simp
  from publish_reaches_subscriber [OF sample_node_facts(1,2) n' k sub sample_node_facts(5) s' new_session_live _ inv,
      of "[]" 2]
  show ?thesis using n' s' by auto
qed

text \<open>
  C2. Subscribing works end to end. A component that successfully subscribes to a key of another running
  component queues the request on its session to that component. Once the owner has handled the
  request, a later successful \<^verbatim>\<open>setPair\<close> of the key is, on a live session back, followed by an update that the
  subscriber's server reads, and after handling it the subscriber's \<^verbatim>\<open>getPair\<close> returns the published value.
\<close>

theorem subscribe_publish_read:
  fixes a :: "'a Server" and b b' :: "'b Server"
  defines "us \<equiv> owner_id (node_client (srv_node a))" and "them \<equiv> srv_owner b"
  assumes "node_inv (srv_node a)" "node_up b" "us \<noteq> them" "them \<noteq> kAnyOwner" "key \<noteq> kWildcardKey"
    and "registerSubscription them key (node_client (srv_node a)) = (Inr h, c)" "h \<noteq> kInvalidSubscriptionHandle"
    and "peer_session (node_client (srv_node a)) them = Some s"
    and "b' = snd (handle_frame heard (subscription_request them key us True) b)"
    and "client_setPair now key v ty (srv_node b') = (Inr True, n')" "ty \<noteq> PT_Invalid"
    and "peer_session (node_client (srv_node b')) us = Some t" "peer_session (node_client n') us = Some t'" "session_live t'"
  shows "peer_session c them = Some (session_send (subscription_bytes them key us True) None s) \<and>
    channel_read (subscription_bytes them key us True @ rest) = Inr (subscription_request them key us True, rest) \<and>
    (\<exists>older ob f p. updates_of (PairKey them key) (session_out t') = older @ [ob] \<and>
       channel_read (ob_bytes ob @ rest) = Inr (f, rest) \<and>
       client_getPair them key (srv_node (snd (handle_frame later f a))) = Some p \<and>
       getValue p = v \<and> getType p = ty)"
proof (intro conjI)
  note sent = registerSubscription_sends [OF node_invD(2) [OF assms(3)] assms(6,8-10)]
  show "peer_session c them = Some (session_send (subscription_bytes them key us True) None s)"
    using sent(2) by (simp add: us_def)
  show "channel_read (subscription_bytes them key us True @ rest) = Inr (subscription_request them key us True, rest)"
    by (rule read_subscription_request [OF sent(1)])
  have inv: "node_inv (srv_node b')"
    using assms(4) by (simp add: assms(11) node_up_def handle_frame_inv)
  have id: "owner_id (node_client (srv_node b')) = them" "ready (node_client (srv_node b'))"
    using srv_same_handle_frame [of b] assms(4)
    by (simp_all add: assms(11) srv_same_def client_identity_def node_up_def them_def)
  have "us \<in> set (subscribers_of (node_space (srv_node b')) (PairKey them key))"
    using subscription_handled [OF sent(1)] assms(5,7) by (simp add: assms(11) them_def)
  from update_delivered [OF inv id(2) assms(12) _ this assms(14-16,13,3)]
  show "\<exists>older ob f p. updates_of (PairKey them key) (session_out t') = older @ [ob] \<and>
      channel_read (ob_bytes ob @ rest) = Inr (f, rest) \<and>
      client_getPair them key (srv_node (snd (handle_frame later f a))) = Some p \<and> getValue p = v \<and> getType p = ty"
    using published_is_read id(1) by metis
qed

text \<open>A component \<open>us\<close> that knows one other; component 7, which knows component 5, subscribes to its key \<open>x\<close>.\<close>

definition sample_member :: "i32 \<Rightarrow> i32 \<Rightarrow> nat Node" where
  "sample_member us them = new_node\<lparr>node_client := onWelcome \<lparr>mm_owner = us, mm_all_components =
     [\<lparr>ci_owner = them, ci_ip = ''h'', ci_port = ''p''\<rparr>]\<rparr> new_client\<rparr>"

lemma sample_member_facts:
  "node_inv (sample_member us them)" "owner_id (node_client (sample_member us them)) = us"
  "ready (node_client (sample_member us them))"
  "peer_session (node_client (sample_member us them)) them = Some (new_session ''h'' ''p'' them)"
  "node_space (sample_member us them) = empty_space"
  "next_subscription_handle (node_client (sample_member us them)) = kInvalidSubscriptionHandle"
  "subscriptions (node_client (sample_member us them)) = m_empty"
  by (simp_all add: node_inv_def sample_member_def new_node_def client_inv_onWelcome ps_inv_empty)
    (simp_all add: onWelcome_def addSession_def new_client_def peer_session_def)

definition sample_subscriber :: "nat Server" where
  "sample_subscriber = sample_server\<lparr>srv_owner := I32 7, srv_node := sample_member (I32 7) (I32 5)\<rparr>"

lemma sample_subscribes:
  "\<exists>c. registerSubscription (I32 5) ''x'' (node_client (sample_member (I32 7) (I32 5))) = (Inr 1, c) \<and>
     next_subscription_handle c = 1"
  by (simp add: sample_member_def registerSubscription_def sendSubscription_def sessionFor_def onWelcome_def
      addSession_def new_client_def subscription_frame_ok kMaxPayload_def kAnyOwner_def kInvalidSubscriptionHandle_def Let_def)

lemma sample_subscriber_facts:
  "node_inv (srv_node sample_subscriber)" "owner_id (node_client (srv_node sample_subscriber)) = I32 7"
  "peer_session (node_client (srv_node sample_subscriber)) (I32 5) = Some (new_session ''h'' ''p'' (I32 5))"
  "\<exists>c. registerSubscription (I32 5) ''x'' (node_client (srv_node sample_subscriber)) = (Inr 1, c)"
  using sample_subscribes by (auto simp: sample_subscriber_def sample_member_facts)

theorem subscribe_publish_read_witness:
  "\<exists>n' f p. client_setPair 2 ''x'' ''v'' PT_String
       (srv_node (snd (handle_frame 1 (subscription_request (I32 5) ''x'' (I32 7) True) sample_server))) = (Inr True, n') \<and>
     client_getPair (I32 5) ''x'' (srv_node (snd (handle_frame 3 f sample_subscriber))) = Some p \<and> getValue p = ''v''"
proof -
  let ?b = "snd (handle_frame 1 (subscription_request (I32 5) ''x'' (I32 7) True) sample_server)"
  have up: "node_up sample_server" by (simp add: node_up_def client_identity_def, simp add: sample_server_def)
  have inv: "node_inv (srv_node ?b)" using up by (simp add: node_up_def handle_frame_inv)
  have id: "owner_id (node_client (srv_node ?b)) = I32 5" "ready (node_client (srv_node ?b))"
    using srv_same_handle_frame [of sample_server] up by (simp_all add: srv_same_def client_identity_def node_up_def)
  have "published (node_space sample_node) (PairKey (I32 5) ''x'') = None"
    by (simp add: sample_node_def published_addSubscription, simp add: published_def empty_space_def)
  then have b: "?b = set_space (addSubscription 1 (I32 5) ''x'' (I32 7) (node_space sample_node)) sample_server"
    using handle_subscription_request [of "''x''" "I32 7" sample_server 1]
    by (simp add: kMaxPayload_def kWildcardKey_def pairs_to_send_unpublished published_addSubscription Let_def)
  then have t: "peer_session (node_client (srv_node ?b)) (I32 7) = Some (new_session ''h'' ''p'' (I32 7))"
    and sub: "I32 7 \<in> set (subscribers_of (node_space (srv_node ?b)) (PairKey (I32 5) ''x''))"
    by (simp_all add: subscribers_addSubscription push_new_def)
  have "fst (client_setPair 2 ''x'' ''v'' PT_String (srv_node ?b)) = Inr True"
    using inv id(2) by (rule setPair_succeeds) (simp add: kMaxPayload_def)
  then obtain n' where n': "client_setPair 2 ''x'' ''v'' PT_String (srv_node ?b) = (Inr True, n')"
    by (metis prod.collapse)
  obtain fr where t': "peer_session (node_client n') (I32 7) =
      Some (session_send fr (Some (PairKey (I32 5) ''x'')) (new_session ''h'' ''p'' (I32 7)))"
    using setPair_effect [OF inv id(2) n' refl] sub t unfolding id(1) by (metis option.map(2))
  obtain c where c: "registerSubscription (I32 5) ''x'' (node_client (srv_node sample_subscriber)) = (Inr 1, c)"
    using sample_subscriber_facts(4) by blast
  show ?thesis
    using subscribe_publish_read [of sample_subscriber sample_server "''x''" 1 c _ ?b 1 2 "''v''" PT_String n' _ _ "[]" 3]
      sample_subscriber_facts(1-3) up c n' t t' new_session_live
    by (fastforce simp: kAnyOwner_def kWildcardKey_def kInvalidSubscriptionHandle_def)
qed

subsection \<open>A network of components\<close>

text \<open>
  C3. No value is made up. In every state of a network of processes, whatever the interleaving of their calls,
  coroutines and deliveries, including repeated, reordered and misdirected ones: a pair that any component
  reads has the value and the type that a component with the owner's id itself held under that key at some
  earlier time, and so has every pair a callback was ever called with, unless it is one of the empty pairs of type
  \<^verbatim>\<open>INVALID\<close>.
\<close>

theorem replicas_hold_published_values:
  assumes "net_reach N" "i < length (procs N)"
  shows "(\<forall>owner key p k. srnp_getPair owner key (procs N ! i) = (Inr (Some p), k) \<longrightarrow>
      held_by_owner N (PairKey owner key) (getValue p, getType p)) \<and>
    (\<forall>srv p cb. running (procs N ! i) = Some srv \<and> (p, cb) \<in> set (node_calls (srv_node srv)) \<and> getType p \<noteq> PT_Invalid \<longrightarrow>
      held_by_owner N (key_of p) (getValue p, getType p))"
proof -
  have sound: "sound (history N) (procs N ! i)"
    using net_reach_inv [OF assms(1)] assms(2) by (simp add: net_inv_def list_all_length)
  have read: "(PairKey owner key, getValue p, getType p) \<in> set (history N)"
    if "srnp_getPair owner key (procs N ! i) = (Inr (Some p), k)" for owner key p k
  proof -
    obtain srv where "running (procs N ! i) = Some srv" "client_getPair owner key (srv_node srv) = Some p"
      using \<open>srnp_getPair owner key (procs N ! i) = (Inr (Some p), k)\<close>
      by (auto simp: srnp_getPair_def with_client_def reading_def split: option.splits)
    then show ?thesis using sound
      by (auto simp: sound_def space_fine_def published_def client_getPair_def copyOf_def find_entry_def
          split: option.splits if_splits)
  qed
  have "(key_of p, getValue p, getType p) \<in> set (history N)"
    if "running (procs N ! i) = Some srv" "(p, cb) \<in> set (node_calls (srv_node srv))" "getType p \<noteq> PT_Invalid" for srv p cb
    using sound that by (auto simp: sound_def node_all_def list_all_iff fine_def)
  with read show ?thesis by (blast intro: history_held [OF assms(1)])
qed

lemma sample_member_starts:
  obtains input where "\<And>k. \<not> ok k \<Longrightarrow> \<exists>srv. kernel_step (Ev_initialize ''10.0.0.1'' ''33133'' kAnyOwner (Inr (4000, input))) k =
    k\<lparr>running := Some srv\<rparr> \<and> srv_owner srv = us \<and> srv_node srv = sample_member us them"
proof -
  let ?w = "\<lparr>mm_owner = us, mm_all_components = [\<lparr>ci_owner = them, ci_ip = ''h'', ci_port = ''p''\<rparr>]\<rparr>"
  obtain fr where fr: "frameOf encode_MasterMessage MT_MasterMessage ?w = Inr fr"
    by (simp add: frameOf_def encode_MasterMessage_eq all_fit_def fits_def frame_def kMaxPayload_def
        component_bytes_def string_bytes_def)
  have w: "plausible ?w" "welcomed ''10.0.0.1'' ?w = ?w"
    by (simp_all add: plausible_def welcomed_def reachable_from_def kLoopback_def kMaxPayload_def sizeof_ComponentInfo_def)
  show thesis
  proof (rule that [of "fr @ []"])
    fix k :: "nat Kernel" assume "\<not> ok k"
    then obtain srv where "initialize ''10.0.0.1'' ''33133'' kAnyOwner (Inr (4000, fr @ [])) k = (Inr (), k\<lparr>running := Some srv\<rparr>)"
      "srv_owner srv = mm_owner ?w" "srv_node srv = new_node\<lparr>node_client := onWelcome (welcomed ''10.0.0.1'' ?w) new_client\<rparr>"
      using initialize_welcomed [OF fr w(1)] by metis
    then show "\<exists>srv. kernel_step (Ev_initialize ''10.0.0.1'' ''33133'' kAnyOwner (Inr (4000, fr @ []))) k =
        k\<lparr>running := Some srv\<rparr> \<and> srv_owner srv = us \<and> srv_node srv = sample_member us them"
      unfolding w(2) by (intro exI [of _ srv]) (simp add: sample_member_def)
  qed
qed

lemma sample_net_starts:
  obtains N a b where "net_reach N" "length (procs N) = 2"
    "running (procs N ! 0) = Some b" "srv_owner b = I32 5" "srv_node b = sample_member (I32 5) (I32 7)"
    "running (procs N ! 1) = Some a" "srv_owner a = I32 7" "srv_node a = sample_member (I32 7) (I32 5)"
proof -
  let ?init = "\<lambda>input. Ev_initialize ''10.0.0.1'' ''33133'' kAnyOwner (Inr (4000, input))"
  obtain in5 in7 where starts:
    "\<And>k. \<not> ok k \<Longrightarrow> \<exists>srv. kernel_step (?init in5) k = k\<lparr>running := Some srv\<rparr> \<and> srv_owner srv = I32 5 \<and>
      srv_node srv = sample_member (I32 5) (I32 7)"
    "\<And>k. \<not> ok k \<Longrightarrow> \<exists>srv. kernel_step (?init in7) k = k\<lparr>running := Some srv\<rparr> \<and> srv_owner srv = I32 7 \<and>
      srv_node srv = sample_member (I32 7) (I32 5)"
    by (metis sample_member_starts)
  define N :: "nat Net" where "N = net_advance 0 (?init in5) (net_start 2)"
  have up: "procs (net_start 2 :: nat Net) = [no_node, no_node]" "\<not> ok (no_node :: nat Kernel)" "handles_left (no_node :: nat Kernel)"
    by (simp_all add: net_start_def no_node_def ok_def handles_left_def numeral_2_eq_2)
  then have N: "net_reach N" "procs N ! 1 = no_node" "length (procs N) = 2" "procs N ! 0 = kernel_step (?init in5) no_node"
    unfolding N_def by (auto intro!: net_step net_begin simp: allowed_def)
  then have "net_reach (net_advance 1 (?init in7) N)" using up by (auto intro!: net_step simp: allowed_def)
  then show thesis using that N starts(1) [OF up(2)] starts(2) [OF up(2)] by fastforce
qed

text \<open>The subscription of 7 crosses the network.\<close>

lemma sample_net_subscribed:
  obtains N a b where "net_reach N" "length (procs N) = 2"
    "running (procs N ! 0) = Some b" "srv_owner b = I32 5" "node_client (srv_node b) = node_client (sample_member (I32 5) (I32 7))"
    "node_space (srv_node b) = addSubscription 1 (I32 5) ''x'' (I32 7) empty_space"
    "running (procs N ! 1) = Some a" "handles_left (procs N ! 1)" "srv_owner a = I32 7"
proof -
  let ?f = "subscription_request (I32 5) ''x'' (I32 7) True" and ?bs = "subscription_bytes (I32 5) ''x'' (I32 7) True"
  obtain N a b where N: "net_reach N" "length (procs N) = 2"
    "running (procs N ! 0) = Some b" "srv_owner b = I32 5" "srv_node b = sample_member (I32 5) (I32 7)"
    "running (procs N ! 1) = Some a" "srv_owner a = I32 7" "srv_node a = sample_member (I32 7) (I32 5)"
    by (rule sample_net_starts)
  note facts = sample_member_facts [of "I32 7" "I32 5"]
  have left: "handles_left (procs N ! 0)" "handles_left (procs N ! 1)"
    using N by (simp_all add: handles_left_def sample_member_facts, simp_all add: empty_space_def kInvalidCallbackHandle_def
        kInvalidSubscriptionHandle_def)
  obtain c where c: "registerSubscription (I32 5) ''x'' (node_client (srv_node a)) = (Inr 1, c)" "next_subscription_handle c = 1"
    using sample_subscribes N(8) by auto
  have sent: "peer_session c (I32 5) = Some (session_send ?bs None (new_session ''h'' ''p'' (I32 5)))"
    using registerSubscription_sends(2) [OF node_invD(2) [OF facts(1)] _ c(1) [unfolded N(8)] _ facts(4)] facts(2)
    by (simp add: kAnyOwner_def kInvalidSubscriptionHandle_def)
  let ?N1 = "net_advance 1 (Ev_registerSubscription (I32 5) ''x'') N"
  let ?a1 = "a\<lparr>srv_node := (srv_node a)\<lparr>node_client := c\<rparr>\<rparr>"
  have N1: "net_reach ?N1" using N(1,2) left(2) by (intro net_step) (simp_all add: allowed_def)
  have a1: "running (procs ?N1 ! 1) = Some ?a1"
    using N(2,6) c(1) by (simp add: srnp_registerSubscription_def with_client_def on_client_def)
  have left1: "handles_left (procs ?N1 ! 1)"
    using left(2) N(6) unfolding handles_left_def a1 by (simp add: c(2))
  obtain N2 a2 where N2: "net_reach N2" "length (procs N2) = 2" "procs N2 ! 0 = procs ?N1 ! 0" "running (procs N2 ! 1) = Some a2"
    "?bs \<in> set (on_wire N2)" "handles_left (procs N2 ! 1)" "srv_owner a2 = I32 7"
    by (rule net_emit_peer [OF N1 _ a1 left1, of "I32 5"]) (use sent N(2,7) in auto)
  have b: "procs N2 ! 0 = procs N ! 0" using N2(3) N(2) by simp
  have read: "channel_read (?bs @ []) = Inr (?f, [])"
    by (rule read_subscription_request) (simp add: kMaxPayload_def)
  let ?b = "set_space (addSubscription 1 (I32 5) ''x'' (I32 7) empty_space) b"
  have "published (addSubscription 1 (I32 5) ''x'' (I32 7) (empty_space :: nat PairSpace)) k = None" for k
    by (simp add: published_addSubscription, simp add: published_def empty_space_def)
  then have "snd (handle_frame 1 ?f b) = ?b"
    using handle_subscription_request [of "''x''" "I32 7" b 1] N(4,5)
    by (simp add: kMaxPayload_def kWildcardKey_def pairs_to_send_unpublished Let_def sample_member_facts)
  then show thesis
    using net_deliver [OF N2(1) _ _ _ N2(5) read, of 0 b 1] N(2-5) N2(2,4,6,7) b left(1)
    by (intro that [of "net_advance 0 (Ev_peer (\<lambda>_. 1) ?bs) N2" ?b a2]) simp_all
qed

lemma sample_fits: "29 + length ''x'' + length ''v'' \<le> kMaxPayload"
  by (simp add: kMaxPayload_def)

theorem replicas_hold_published_values_witness:
  "\<exists>(N :: nat Net) a p k. net_reach N \<and> running (procs N ! 1) = Some a \<and> srv_owner a = I32 7 \<and>
     srnp_getPair (I32 5) ''x'' (procs N ! 1) = (Inr (Some p), k) \<and> getValue p = ''v'' \<and>
     held_by_owner N (PairKey (I32 5) ''x'') (''v'', PT_String)"
proof -
  let ?k = "PairKey (I32 5) ''x''"
  obtain N a b where N: "net_reach N" "length (procs N) = 2"
    "running (procs N ! 0) = Some b" "srv_owner b = I32 5" "node_client (srv_node b) = node_client (sample_member (I32 5) (I32 7))"
    "node_space (srv_node b) = addSubscription 1 (I32 5) ''x'' (I32 7) empty_space"
    "running (procs N ! 1) = Some a" "handles_left (procs N ! 1)" "srv_owner a = I32 7"
    by (rule sample_net_subscribed)
  have inv: "node_inv (srv_node b)" "node_inv (srv_node a)" using net_node_inv [OF N(1) _ N(3)] net_node_inv [OF N(1) _ N(7)] N(2) by simp_all
  note us = sample_member_facts [of "I32 5" "I32 7", folded N(5)]
  obtain n' where n': "client_setPair 2 ''x'' ''v'' PT_String (srv_node b) = (Inr True, n')"
    using setPair_succeeds [OF inv(1) us(3), of "''x''" "''v''"] by (metis prod.collapse sample_fits)
  have sub: "I32 7 \<in> set (subscribers_of (node_space (srv_node b)) ?k)"
    by (simp add: N(6) subscribers_addSubscription push_new_def)
  obtain p fr where p: "key_of p = ?k" "getValue p = ''v''" "getType p = PT_String"
    and fr: "frameOf encode_Pair MT_PairUpdate p = Inr fr"
    and sent: "peer_session (node_client n') (I32 7) = Some (session_send fr (Some ?k) (new_session ''h'' ''p'' (I32 7)))"
    using setPair_effect [OF inv(1) us(3) n' refl, unfolded us(2)] us(4) sub by (metis option.map(2))
  let ?N1 = "net_advance 0 (Ev_setPair 2 ''x'' ''v'' PT_String) N"
  have b1: "running (procs ?N1 ! 0) = Some (b\<lparr>srv_node := n'\<rparr>)"
    using N(2,3) n' by (simp add: srnp_setPair_def with_client_def)
  have left: "handles_left (procs N ! 0)"
    by (simp add: handles_left_def N(3,6) us(6), simp add: empty_space_def kInvalidCallbackHandle_def kInvalidSubscriptionHandle_def)
  then have left1: "handles_left (procs ?N1 ! 0)"
    unfolding handles_left_def b1 using N(3) n' handles_left_setPair [of 2 "''x''" "''v''" PT_String "srv_node b"] by simp
  have N1: "net_reach ?N1" using N(1,2) left by (intro net_step) (simp_all add: allowed_def)
  obtain N2 where N2: "net_reach N2" "length (procs N2) = 2" "procs N2 ! 1 = procs N ! 1" "fr \<in> set (on_wire N2)"
    by (rule net_emit_peer [OF N1 _ b1 left1, of "I32 7"]) (use sent N(2) in auto)
  obtain f where f: "channel_read (fr @ []) = Inr (f, [])"
    "published (node_space (srv_node (snd (handle_frame 3 f a)))) ?k = Some (''v'', PT_String)"
    using update_handled [OF inv(2) fr, of "[]" 3] p by auto
  let ?N3 = "net_advance 1 (Ev_peer (\<lambda>_. 3) fr) N2"
  have N3: "net_reach ?N3" "running (procs ?N3 ! 1) = Some (snd (handle_frame 3 f a))"
    using net_deliver [OF N2(1) _ _ _ N2(4) f(1), of 1 a 3] N2(2,3) N(7,8) by simp_all
  obtain q where q: "client_getPair (I32 5) ''x'' (srv_node (snd (handle_frame 3 f a))) = Some q" "getValue q = ''v''" "getType q = PT_String"
    using published_is_read [OF f(2)] by blast
  then have read: "srnp_getPair (I32 5) ''x'' (procs ?N3 ! 1) = (Inr (Some q), procs ?N3 ! 1)"
    unfolding srnp_getPair_def with_client_reading [OF N3(2)] by simp
  have "1 < length (procs ?N3)" using N2(2) by simp
  with replicas_hold_published_values [OF N3(1) this] read q(2,3)
  have "held_by_owner ?N3 ?k (''v'', PT_String)" by metis
  moreover have "srv_owner (snd (handle_frame 3 f a)) = I32 7"
    using srv_same_handle_frame [of a 3 f] N(9) by (simp add: srv_same_def srv_fixed_def)
  ultimately show ?thesis using N3 read q(2) by blast
qed

end
